(* ===== verification/Prelude.thy ===== *)
theory Prelude
  imports Main "HOL-Library.Word"
begin

text \<open>
  Shared vocabulary of the development.

  \<^item> Go's machine integers are words of their width: \<open>byte\<close> is \<open>8 word\<close>, \<open>uint16\<close> is
    \<open>16 word\<close>, \<open>uint32\<close> is \<open>32 word\<close>. Go's \<open>int\<close> (64 bits on the supported platforms) is
    \<open>int\<close>: it is used for offsets and lengths only, which stay far below \<open>2 ^ 63\<close>.
  \<^item> A Go slice is a list. Indexing and slicing are partial in Go, they panic out of range;
    \<open>idx\<close> and \<open>gslice\<close> make the panic a value. \<open>gslice\<close> panics beyond the length of the
    list, where Go panics only beyond the capacity: a model that never panics under the
    stricter rule never reads past the length of its slice.
  \<^item> A fallible Go function returns \<open>'e fault + 'a\<close>: \<open>Inl Panic\<close>, \<open>Inl (Err e)\<close> for a
    returned error or \<open>Inr x\<close>. \<open>rbind\<close> sequences two such computations.
  \<^item> \<open>be16\<close> is the big-endian pair \<open>uint16(a)<<8 | uint16(b)\<close> that every parser of the
    program uses for its length and identifier fields.
\<close>

unbundle bit_operations_syntax

named_theorems word_bounds \<open>upper bounds of the fields read from words\<close>
named_theorems res_simps \<open>equations that run computations in the result type\<close>

type_synonym byte = "8 word"
type_synonym bytes = "8 word list"
type_synonym uint16 = "16 word"
type_synonym uint32 = "32 word"

abbreviation glen :: "'a list \<Rightarrow> int" where
  "glen xs \<equiv> int (length xs)"

subsection \<open>Results: errors and panics as values\<close>

datatype 'e fault = Panic | Err 'e

definition rbind :: "'e + 'a \<Rightarrow> ('a \<Rightarrow> 'e + 'b) \<Rightarrow> 'e + 'b" where
  "rbind m f = (case m of Inl e \<Rightarrow> Inl e | Inr x \<Rightarrow> f x)"

lemma rbind_Inl [simp, res_simps]: "rbind (Inl e) f = Inl e"
  by (simp add: rbind_def)

lemma rbind_Inr [simp, res_simps]: "rbind (Inr x) f = f x"
  by (simp add: rbind_def)

lemma rbind_eq_Inr_iff: "rbind m f = Inr y \<longleftrightarrow> (\<exists>x. m = Inr x \<and> f x = Inr y)"
  by (cases m) auto

lemma rbind_eq_Inl_iff:
  "rbind m f = Inl e \<longleftrightarrow> m = Inl e \<or> (\<exists>x. m = Inr x \<and> f x = Inl e)"
  by (cases m) auto

lemma rbind_InrE [elim]:
  assumes "rbind m f = Inr y"
  obtains x where "m = Inr x" and "f x = Inr y"
  using assms by (auto simp: rbind_eq_Inr_iff)

lemma rbind_cong [fundef_cong]:
  "m = m' \<Longrightarrow> (\<And>x. m' = Inr x \<Longrightarrow> f x = g x) \<Longrightarrow> rbind m f = rbind m' g"
  by (cases m') auto

text \<open>A computation that does not panic: it returns a value or an error.\<close>

definition safe :: "'e fault + 'a \<Rightarrow> bool" where
  "safe r \<longleftrightarrow> r \<noteq> Inl Panic"

lemma safe_Inr [simp, intro]: "safe (Inr x)"
  by (simp add: safe_def)

lemma safe_Err [simp, intro]: "safe (Inl (Err e))"
  by (simp add: safe_def)

lemma not_safe_Panic [simp]: "\<not> safe (Inl Panic)"
  by (simp add: safe_def)

lemma safe_rbind: "safe m \<Longrightarrow> (\<And>x. m = Inr x \<Longrightarrow> safe (f x)) \<Longrightarrow> safe (rbind m f)"
  by (cases m) (auto simp: safe_def)

text \<open>Total correctness: a value is returned, and it satisfies \<open>P\<close>.\<close>

definition returns :: "'e + 'a \<Rightarrow> ('a \<Rightarrow> bool) \<Rightarrow> bool" where
  "returns r P \<longleftrightarrow> (\<exists>x. r = Inr x \<and> P x)"

lemma returns_Inr [simp]: "returns (Inr x) P \<longleftrightarrow> P x"
  by (simp add: returns_def)

lemma returns_Inl [simp]: "\<not> returns (Inl e) P"
  by (simp add: returns_def)

lemma returns_rbind: "returns m Q \<Longrightarrow> (\<And>x. Q x \<Longrightarrow> returns (f x) P) \<Longrightarrow> returns (rbind m f) P"
  by (auto simp: returns_def)

lemma returns_mono: "returns m Q \<Longrightarrow> (\<And>x. Q x \<Longrightarrow> P x) \<Longrightarrow> returns m P"
  by (auto simp: returns_def)

subsection \<open>Indexing and slicing\<close>

definition idx :: "'a list \<Rightarrow> int \<Rightarrow> 'e fault + 'a" where
  "idx s i = (if 0 \<le> i \<and> i < glen s then Inr (s ! nat i) else Inl Panic)"

definition gslice :: "'a list \<Rightarrow> int \<Rightarrow> int \<Rightarrow> 'e fault + 'a list" where
  "gslice s a b =
     (if 0 \<le> a \<and> a \<le> b \<and> b \<le> glen s then Inr (take (nat (b - a)) (drop (nat a) s))
      else Inl Panic)"

lemma idx_ok [simp, res_simps]: "0 \<le> i \<Longrightarrow> i < glen s \<Longrightarrow> idx s i = Inr (s ! nat i)"
  by (simp add: idx_def)

lemma idx_Cons [simp]: "idx (x # xs) 0 = Inr x" "idx (x # y # ys) 1 = Inr y"
  by (simp_all add: idx_def)

lemma idx_first [simp]: "Suc 0 \<le> length s \<Longrightarrow> idx s 0 = Inr (s ! 0)"
  by (simp add: idx_def Suc_le_eq)

lemma idx_eq_Inr_iff: "idx s i = Inr x \<longleftrightarrow> 0 \<le> i \<and> i < glen s \<and> x = s ! nat i"
  by (auto simp: idx_def)

lemma idx_not_Err [simp]: "idx s i \<noteq> Inl (Err e)"
  by (simp add: idx_def)

lemma gslice_ok [simp, res_simps]:
  "0 \<le> a \<Longrightarrow> a \<le> b \<Longrightarrow> b \<le> glen s \<Longrightarrow>
   gslice s a b = Inr (take (nat (b - a)) (drop (nat a) s))"
  by (simp add: gslice_def)

lemma gslice_to_end [simp, res_simps]:
  "0 \<le> a \<Longrightarrow> a \<le> glen s \<Longrightarrow> gslice s a (glen s) = Inr (drop (nat a) s)"
  by (simp add: gslice_def)

lemma gslice_eq_Inr_iff:
  "gslice s a b = Inr t \<longleftrightarrow>
     0 \<le> a \<and> a \<le> b \<and> b \<le> glen s \<and> t = take (nat (b - a)) (drop (nat a) s)"
  by (auto simp: gslice_def)

lemma safe_gslice: "safe (gslice s a b) \<longleftrightarrow> 0 \<le> a \<and> a \<le> b \<and> b \<le> glen s"
  by (simp add: gslice_def)

lemma safe_idx: "safe (idx s i) \<longleftrightarrow> 0 \<le> i \<and> i < glen s"
  by (simp add: idx_def)

lemma gslice_not_Err [simp]: "gslice s a b \<noteq> Inl (Err e)"
  by (simp add: gslice_def)

lemma length_gslice: "gslice s a b = Inr t \<Longrightarrow> glen t = b - a"
  by (auto simp: gslice_eq_Inr_iff)

subsection \<open>Big-endian fields\<close>

lemma unat_byte_less [word_bounds]: "unat (b :: byte) < 256"
  using unsigned_less [where ?'b = 8 and ?'a = nat, of b] by simp

lemma unat_uint16_less [word_bounds]: "unat (w :: uint16) < 65536"
  using unsigned_less [where ?'b = 16 and ?'a = nat, of w] by simp

definition be16 :: "byte \<Rightarrow> byte \<Rightarrow> uint16" where
  "be16 a b = push_bit 8 (ucast a) OR ucast b"

definition hi8 :: "uint16 \<Rightarrow> byte" where
  "hi8 w = ucast (drop_bit 8 w)"

definition lo8 :: "uint16 \<Rightarrow> byte" where
  "lo8 w = ucast w"

definition be16_at :: "bytes \<Rightarrow> int \<Rightarrow> 'e fault + uint16" where
  "be16_at s i = rbind (idx s i) (\<lambda>a. rbind (idx s (i + 1)) (\<lambda>b. Inr (be16 a b)))"

lemma be16_at_ok [simp, res_simps]:
  "0 \<le> i \<Longrightarrow> i + 1 < glen s \<Longrightarrow> be16_at s i = Inr (be16 (s ! nat i) (s ! nat (i + 1)))"
  by (simp add: be16_at_def)

text \<open>The pair with the high byte masked, as in \<open>uint16(s[i]&mask)<<8 | uint16(s[i+1])\<close>.\<close>

definition be16_mask_at :: "byte \<Rightarrow> bytes \<Rightarrow> int \<Rightarrow> 'e fault + uint16" where
  "be16_mask_at m s i =
     rbind (idx s i) (\<lambda>a. rbind (idx s (i + 1)) (\<lambda>b. Inr (be16 (a AND m) b)))"

lemma be16_mask_at_ok [simp, res_simps]:
  "0 \<le> i \<Longrightarrow> i + 1 < glen s \<Longrightarrow>
   be16_mask_at m s i = Inr (be16 (s ! nat i AND m) (s ! nat (i + 1)))"
  by (simp add: be16_mask_at_def)

lemma bit_be16:
  "bit (be16 a b) n \<longleftrightarrow> (if n < 8 then bit b n else n < 16 \<and> bit a (n - 8))"
  by (auto simp: be16_def bit_simps dest: bit_imp_le_length)

lemma be16_hi_lo [simp]: "be16 (hi8 w) (lo8 w) = w"
  by (rule bit_word_eqI) (auto simp: bit_be16 hi8_def lo8_def bit_simps)

lemma hi8_be16 [simp]: "hi8 (be16 a b) = a"
  by (rule bit_word_eqI) (auto simp: bit_be16 hi8_def bit_simps)

lemma lo8_be16 [simp]: "lo8 (be16 a b) = b"
  by (rule bit_word_eqI) (auto simp: bit_be16 lo8_def bit_simps)

lemma be16_inject: "be16 a b = be16 c d \<longleftrightarrow> a = c \<and> b = d"
  by (metis hi8_be16 lo8_be16)

lemma byte_eqI:
  fixes a b :: byte
  assumes "bit a 0 = bit b 0" "bit a 1 = bit b 1" "bit a 2 = bit b 2" "bit a 3 = bit b 3"
    "bit a 4 = bit b 4" "bit a 5 = bit b 5" "bit a 6 = bit b 6" "bit a 7 = bit b 7"
  shows "a = b"
proof (rule bit_word_eqI)
  fix n assume "n < LENGTH(8)"
  then have "n \<in> {0, 1, 2, 3, 4, 5, 6, 7}" by auto
  then show "bit a n = bit b n" using assms by auto
qed

lemma bit_less_unat:
  assumes "unat (w :: 'w::len word) < 2 ^ k" and "bit w n"
  shows "n < k"
proof (rule ccontr)
  assume "\<not> n < k"
  moreover have "take_bit k (unat w) = unat w"
    using assms(1) by (simp add: take_bit_nat_eq_self_iff)
  then have "bit (unat w) n \<Longrightarrow> n < k"
    by (metis bit_take_bit_iff)
  ultimately show False using assms(2) by (simp add: bit_unsigned_iff)
qed

lemma nat_int_diff_uint [simp]:
  "nat (int n - uint (w :: 'w::len word)) = n - unat w"
  "nat (numeral k - uint w) = numeral k - unat w"
  by (simp_all add: nat_diff_distrib')

lemma nat_plus_uint [simp]:
  "nat (numeral k + uint (w :: 'w::len word)) = numeral k + unat w"
  "nat (1 + uint w) = 1 + unat w"
  by (simp_all add: nat_add_distrib)

lemma unat_be16: "unat (be16 a b) = 256 * unat a + unat b"
proof -
  have disj: "push_bit 8 (ucast a :: uint16) AND ucast b = 0"
    by (rule bit_word_eqI) (auto simp: bit_simps dest: bit_imp_le_length)
  have ua: "unat a < 256" and ub: "unat b < 256"
    by (rule unat_byte_less)+
  have "be16 a b = push_bit 8 (ucast a) + ucast b"
    unfolding be16_def using disj by (simp add: disjunctive_add_eq_or)
  also have "\<dots> = of_nat (256 * unat a + unat b)"
    by (simp add: push_bit_eq_mult)
  finally show ?thesis
    using ua ub by (simp only: unat_of_nat) simp
qed

end
