(* ===== verification/Packet.thy ===== *)
theory Packet
  imports Prelude
begin

text \<open>
  Transport stream packets (\<open>ts/packet.go\<close>, accessors), the format detector of
  \<open>ts/detector.go\<close> and the format check of \<open>packet/packet.go\<close>. A \<open>Packet\<close> is a byte slice of
  any length in Go; the accessors index into it and may panic, so they return results.
\<close>

subsection \<open>Packet header accessors\<close>

definition PacketSize :: int where "PacketSize = 188"
definition packetSizeWithTimestamp :: int where "packetSizeWithTimestamp = 192"
definition packetSizeWithParity :: int where "packetSizeWithParity = 204"
definition SyncByte :: byte where "SyncByte = 0x47"

definition TransportErrorIndicator :: "bytes \<Rightarrow> 'e fault + bool" where
  "TransportErrorIndicator p = rbind (idx p 1) (\<lambda>b. Inr (b AND 0x80 \<noteq> 0))"

definition PayloadUnitStartIndicator :: "bytes \<Rightarrow> 'e fault + bool" where
  "PayloadUnitStartIndicator p = rbind (idx p 1) (\<lambda>b. Inr (b AND 0x40 \<noteq> 0))"

definition Priority :: "bytes \<Rightarrow> 'e fault + bool" where
  "Priority p = rbind (idx p 1) (\<lambda>b. Inr (b AND 0x20 \<noteq> 0))"

definition PID :: "bytes \<Rightarrow> 'e fault + uint16" where
  "PID p = rbind (idx p 1) (\<lambda>b1. rbind (idx p 2) (\<lambda>b2. Inr (be16 (b1 AND 0x1f) b2)))"

definition HasAdaptationField :: "bytes \<Rightarrow> 'e fault + bool" where
  "HasAdaptationField p = rbind (idx p 3) (\<lambda>b. Inr (drop_bit 4 b AND 0x03 \<ge> 2))"

definition HasPayload :: "bytes \<Rightarrow> 'e fault + bool" where
  "HasPayload p = rbind (idx p 3) (\<lambda>b. Inr (drop_bit 4 b AND 0x03 = 1 \<or> drop_bit 4 b AND 0x03 = 3))"

definition ContinuityCounter :: "bytes \<Rightarrow> 'e fault + byte" where
  "ContinuityCounter p = rbind (idx p 3) (\<lambda>b. Inr (b AND 0x0f))"

definition AdaptationFieldLength :: "bytes \<Rightarrow> 'e fault + int" where
  "AdaptationFieldLength p =
     (if glen p < PacketSize then Inr 0
      else rbind (HasAdaptationField p) (\<lambda>h.
        if \<not> h then Inr 0 else rbind (idx p 4) (\<lambda>b. Inr (uint b))))"

definition DiscontinuityIndicator :: "bytes \<Rightarrow> 'e fault + bool" where
  "DiscontinuityIndicator p =
     (if \<not> glen p \<ge> PacketSize then Inr False
      else rbind (HasAdaptationField p) (\<lambda>h.
        if \<not> h then Inr False
        else rbind (AdaptationFieldLength p) (\<lambda>n.
          if \<not> n \<ge> 1 then Inr False else rbind (idx p 5) (\<lambda>b. Inr (b AND 0x80 \<noteq> 0)))))"

definition PayloadOffset :: "bytes \<Rightarrow> 'e fault + int" where
  "PayloadOffset p =
     rbind (HasAdaptationField p) (\<lambda>h.
       if \<not> h then Inr 4 else rbind (AdaptationFieldLength p) (\<lambda>n. Inr (5 + n)))"

definition ValidPayloadOffset :: "bytes \<Rightarrow> 'e fault + bool" where
  "ValidPayloadOffset p =
     (if glen p < PacketSize then Inr False
      else rbind (HasAdaptationField p) (\<lambda>h.
        if \<not> h then Inr True
        else rbind (PayloadOffset p) (\<lambda>off. Inr (\<not> off > PacketSize))))"

text \<open>Go returns a nil slice where the packet has no payload; nil is the empty list here.\<close>

definition Payload :: "bytes \<Rightarrow> 'e fault + bytes" where
  "Payload p =
     rbind (HasPayload p) (\<lambda>h.
       if \<not> h then Inr []
       else rbind (ValidPayloadOffset p) (\<lambda>v.
         if \<not> v then Inr [] else rbind (PayloadOffset p) (\<lambda>off. gslice p off (glen p))))"

definition IsNull :: "bytes \<Rightarrow> 'e fault + bool" where
  "IsNull p = rbind (PID p) (\<lambda>pid. Inr (pid = 0x1fff))"

definition ProgramClockReference :: "bytes \<Rightarrow> 'e fault + (64 word \<times> uint16) option" where
  "ProgramClockReference p =
     (if glen p < PacketSize then Inr None
      else rbind (HasAdaptationField p) (\<lambda>h.
        if \<not> h then Inr None
        else rbind (AdaptationFieldLength p) (\<lambda>n.
          if n < 7 then Inr None
          else rbind (idx p 5) (\<lambda>b5.
            if b5 AND 0x10 = 0 then Inr None
            else rbind (idx p 6) (\<lambda>b6. rbind (idx p 7) (\<lambda>b7. rbind (idx p 8) (\<lambda>b8.
              rbind (idx p 9) (\<lambda>b9. rbind (idx p 10) (\<lambda>b10. rbind (idx p 11) (\<lambda>b11.
                Inr (Some
                  (push_bit 25 (ucast b6) OR push_bit 17 (ucast b7) OR push_bit 9 (ucast b8) OR
                     push_bit 1 (ucast b9) OR ucast (drop_bit 7 b10),
                   be16 (b10 AND 1) b11))))))))))))"

lemma PID_eq: "3 \<le> length p \<Longrightarrow> PID p = Inr (be16 (p ! 1 AND 0x1f) (p ! 2))"
  by (simp add: PID_def)

lemma and_le_mask: "unat ((b :: 'w::len word) AND m) \<le> unat m"
  by (meson word_and_le1 word_le_nat_alt)

lemma PID_13bit: "PID p = Inr pid \<Longrightarrow> unat pid < 8192"
  using and_le_mask [of "p ! 1" "0x1f"] unat_byte_less [of "p ! 2"]
  by (auto simp: PID_def idx_eq_Inr_iff rbind_eq_Inr_iff unat_be16)

text \<open>On a packet of the right size no accessor indexes out of range.\<close>

lemma packet_accessors_ok:
  assumes "length p = 188"
  shows "TransportErrorIndicator p = Inr (p ! 1 AND 0x80 \<noteq> 0)"
    and "PayloadUnitStartIndicator p = Inr (p ! 1 AND 0x40 \<noteq> 0)"
    and "PID p = Inr (be16 (p ! 1 AND 0x1f) (p ! 2))"
    and "HasAdaptationField p = Inr (drop_bit 4 (p ! 3) AND 0x03 \<ge> 2)"
    and "HasPayload p = Inr (drop_bit 4 (p ! 3) AND 0x03 = 1 \<or> drop_bit 4 (p ! 3) AND 0x03 = 3)"
    and "ContinuityCounter p = Inr (p ! 3 AND 0x0f)"
    and "IsNull p = Inr (be16 (p ! 1 AND 0x1f) (p ! 2) = 0x1fff)"
    and "AdaptationFieldLength p =
      Inr (if drop_bit 4 (p ! 3) AND 0x03 \<ge> 2 then uint (p ! 4) else 0)"
    and "PayloadOffset p =
      Inr (if drop_bit 4 (p ! 3) AND 0x03 \<ge> 2 then 5 + uint (p ! 4) else 4)"
    and "ValidPayloadOffset p =
      Inr (drop_bit 4 (p ! 3) AND 0x03 \<ge> 2 \<longrightarrow> 5 + uint (p ! 4) \<le> 188)"
  using assms
  by (simp_all add: TransportErrorIndicator_def PayloadUnitStartIndicator_def PID_def
      HasAdaptationField_def HasPayload_def ContinuityCounter_def IsNull_def
      AdaptationFieldLength_def PayloadOffset_def ValidPayloadOffset_def PacketSize_def not_less)

lemma Payload_eq:
  assumes "length p = 188"
  shows "Payload p =
    Inr (if drop_bit 4 (p ! 3) AND 0x03 = 1 then drop 4 p
         else if drop_bit 4 (p ! 3) AND 0x03 = 3 \<and> 5 + uint (p ! 4) \<le> 188
              then drop (5 + unat (p ! 4)) p
              else [])"
proof -
  have small: "\<not> (2 :: byte) \<le> 1" "(2 :: byte) \<le> 3"
    by (simp_all add: word_le_nat_alt)
  show ?thesis
    using assms small by (auto simp: Payload_def packet_accessors_ok)
qed

subsection \<open>The TS format detector\<close>

datatype detect_result = Undecided | Matched | Rejected

function sync_matched :: "bytes \<Rightarrow> int \<Rightarrow> int \<Rightarrow> int \<Rightarrow> int \<Rightarrow> int \<Rightarrow> unit fault + int" where
  "sync_matched buf stride syncOffset want nxt matched =
     (if nxt + syncOffset < glen buf \<and> matched < want then
        rbind (idx buf (nxt + syncOffset)) (\<lambda>b.
          if b \<noteq> SyncByte then Inr matched
          else sync_matched buf stride syncOffset want (nxt + stride) (matched + 1))
      else Inr matched)"
  by pat_completeness auto
termination
  by (relation "measure (\<lambda>(buf, stride, off, want, nxt, matched). nat (want - matched))") auto

declare sync_matched.simps [simp del]

function sync_scan :: "bytes \<Rightarrow> int \<Rightarrow> int \<Rightarrow> int \<Rightarrow> int \<Rightarrow> int \<Rightarrow> unit fault + bool" where
  "sync_scan buf stride syncOffset want scanWindow i =
     (if i < scanWindow then
        if i + syncOffset \<ge> glen buf then sync_scan buf stride syncOffset want scanWindow (i + 1)
        else rbind (idx buf (i + syncOffset)) (\<lambda>b.
          if b \<noteq> SyncByte then sync_scan buf stride syncOffset want scanWindow (i + 1)
          else rbind (sync_matched buf stride syncOffset want (i + stride) 1) (\<lambda>matched.
            if matched \<ge> want then Inr True
            else sync_scan buf stride syncOffset want scanWindow (i + 1)))
      else Inr False)"
  by pat_completeness auto
termination
  by (relation "measure (\<lambda>(buf, stride, off, want, w, i). nat (w - i))") auto

declare sync_scan.simps [simp del]

definition hasSyncRun :: "bytes \<Rightarrow> int \<Rightarrow> int \<Rightarrow> int \<Rightarrow> unit fault + bool" where
  "hasSyncRun buf stride syncOffset want =
     sync_scan buf stride syncOffset want (min (glen buf) PacketSize) 0"

definition tsStrides :: "(int \<times> int) list" where
  "tsStrides = [(PacketSize, 0), (packetSizeWithTimestamp, 4), (packetSizeWithParity, 0)]"

fun any_stride :: "bytes \<Rightarrow> (int \<times> int) list \<Rightarrow> unit fault + bool" where
  "any_stride buf [] = Inr False"
| "any_stride buf ((stride, off) # rest) =
     rbind (hasSyncRun buf stride off 5) (\<lambda>ok. if ok then Inr True else any_stride buf rest)"

definition ts_Detect :: "bytes \<Rightarrow> bool \<Rightarrow> unit fault + detect_result" where
  "ts_Detect buf final =
     rbind (any_stride buf tsStrides) (\<lambda>ok.
       if ok then Inr Matched
       else if final \<and> glen buf > 0 then
         rbind (idx buf 0) (\<lambda>b. if b = SyncByte then Inr Matched else Inr Rejected)
       else if final then Inr Rejected
       else Inr Undecided)"

text \<open>\<open>want\<close> sync bytes in a row, \<open>stride\<close> apart, the first one at \<open>i + off\<close>.\<close>

definition sync_run :: "bytes \<Rightarrow> int \<Rightarrow> int \<Rightarrow> int \<Rightarrow> int \<Rightarrow> bool" where
  "sync_run buf stride off want i \<longleftrightarrow>
     (\<forall>k. 0 \<le> k \<and> k < want \<longrightarrow>
        i + off + k * stride < glen buf \<and> buf ! nat (i + off + k * stride) = SyncByte)"

lemma sync_run_step:
  "sync_run buf stride off (want + 1) i \<longleftrightarrow>
     i + off < glen buf \<and> buf ! nat (i + off) = SyncByte \<and> sync_run buf stride off want (i + stride)"
  if "0 \<le> want"
proof
  assume r: "sync_run buf stride off (want + 1) i"
  have "sync_run buf stride off want (i + stride)"
    unfolding sync_run_def
  proof (intro allI impI)
    fix k :: int assume "0 \<le> k \<and> k < want"
    then have "i + off + (k + 1) * stride < glen buf \<and>
        buf ! nat (i + off + (k + 1) * stride) = SyncByte"
      using r [unfolded sync_run_def, rule_format, of "k + 1"] by simp
    moreover have "i + off + (k + 1) * stride = i + stride + off + k * stride"
      by (simp add: algebra_simps)
    ultimately show "i + stride + off + k * stride < glen buf \<and>
        buf ! nat (i + stride + off + k * stride) = SyncByte"
      by (simp only:)
  qed
  then show "i + off < glen buf \<and> buf ! nat (i + off) = SyncByte \<and>
      sync_run buf stride off want (i + stride)"
    using r [unfolded sync_run_def, rule_format, of 0] that by simp
next
  assume r: "i + off < glen buf \<and> buf ! nat (i + off) = SyncByte \<and>
      sync_run buf stride off want (i + stride)"
  show "sync_run buf stride off (want + 1) i"
    unfolding sync_run_def
  proof (intro allI impI)
    fix k :: int assume k: "0 \<le> k \<and> k < want + 1"
    show "i + off + k * stride < glen buf \<and> buf ! nat (i + off + k * stride) = SyncByte"
    proof (cases "k = 0")
      case False
      have eq: "i + off + k * stride = i + stride + off + (k - 1) * stride"
        by (simp add: algebra_simps)
      from False k r show ?thesis unfolding eq sync_run_def by auto
    qed (use r in simp)
  qed
qed

lemma sync_matched_spec:
  "0 \<le> nxt + off \<Longrightarrow> 0 \<le> stride \<Longrightarrow> matched \<le> want \<Longrightarrow>
   \<exists>m. sync_matched buf stride off want nxt matched = Inr m \<and>
     (m \<ge> want \<longleftrightarrow> sync_run buf stride off (want - matched) nxt)"
proof (induction buf stride off want nxt matched rule: sync_matched.induct)
  case (1 buf stride off want nxt matched)
  show ?case
  proof (cases "nxt + off < glen buf \<and> matched < want")
    case True
    have step: "sync_run buf stride off (want - matched) nxt \<longleftrightarrow>
        nxt + off < glen buf \<and> buf ! nat (nxt + off) = SyncByte \<and>
        sync_run buf stride off (want - (matched + 1)) (nxt + stride)"
      using sync_run_step [of "want - (matched + 1)" buf stride off nxt] True by simp
    show ?thesis
    proof (cases "buf ! nat (nxt + off) = SyncByte")
      case sync: True
      from "1.IH" [OF True] sync "1.prems" True obtain m where
        "sync_matched buf stride off want (nxt + stride) (matched + 1) = Inr m"
        "m \<ge> want \<longleftrightarrow> sync_run buf stride off (want - (matched + 1)) (nxt + stride)"
        by force
      with True sync "1.prems" step show ?thesis
        by (subst sync_matched.simps) simp
    qed (use True "1.prems" step in \<open>subst sync_matched.simps, simp\<close>)
  next
    case False
    moreover have "\<not> sync_run buf stride off (want - matched) nxt" if "matched < want"
      using that False by (auto simp: sync_run_def intro!: exI [of _ 0])
    ultimately show ?thesis
      using "1.prems" by (subst sync_matched.simps) (auto simp: sync_run_def)
  qed
qed

lemma sync_scan_spec:
  "0 \<le> i \<Longrightarrow> 0 \<le> off \<Longrightarrow> 0 \<le> stride \<Longrightarrow> 1 \<le> want \<Longrightarrow>
   sync_scan buf stride off want w i =
     Inr (\<exists>j. i \<le> j \<and> j < w \<and> sync_run buf stride off want j)"
proof (induction buf stride off want w i rule: sync_scan.induct)
  case (1 buf stride off want w i)
  let ?here = "sync_run buf stride off want i"
  let ?rest = "\<exists>j. i + 1 \<le> j \<and> j < w \<and> sync_run buf stride off want j"
  have split: "(\<exists>j. i \<le> j \<and> j < w \<and> sync_run buf stride off want j) \<longleftrightarrow> i < w \<and> ?here \<or> ?rest"
    by (metis add1_zle_eq order_le_less order_le_less_trans)
  have here: "?here \<longleftrightarrow> i + off < glen buf \<and> buf ! nat (i + off) = SyncByte \<and>
      sync_run buf stride off (want - 1) (i + stride)"
    using sync_run_step [of "want - 1" buf stride off i] "1.prems" by simp
  show ?case
  proof (cases "i < w")
    case True
    note IH = "1.IH" [OF True]
    show ?thesis
    proof (cases "i + off < glen buf \<and> buf ! nat (i + off) = SyncByte")
      case sync: True
      obtain m where m: "sync_matched buf stride off want (i + stride) 1 = Inr m"
        "m \<ge> want \<longleftrightarrow> sync_run buf stride off (want - 1) (i + stride)"
        using sync_matched_spec [of "i + stride" off stride 1 want buf] "1.prems" by auto
      show ?thesis
        unfolding split using True sync m here "1.prems" IH(3)
        by (subst sync_scan.simps) auto
    next
      case False
      then show ?thesis
        unfolding split using True here "1.prems" IH(1,2)
        by (subst sync_scan.simps) auto
    qed
  next
    case False
    then show ?thesis unfolding split by (subst sync_scan.simps) auto
  qed
qed

lemma hasSyncRun_spec:
  "0 \<le> off \<Longrightarrow> 0 \<le> stride \<Longrightarrow> 1 \<le> want \<Longrightarrow>
   hasSyncRun buf stride off want =
     Inr (\<exists>i. 0 \<le> i \<and> i < min (glen buf) 188 \<and> sync_run buf stride off want i)"
  by (simp add: hasSyncRun_def sync_scan_spec PacketSize_def)

definition ts_sync_found :: "bytes \<Rightarrow> bool" where
  "ts_sync_found buf \<longleftrightarrow>
     (\<exists>(stride, off) \<in> {(188, 0), (192, 4), (204, 0)}.
        \<exists>i. 0 \<le> i \<and> i < min (glen buf) 188 \<and> sync_run buf stride off 5 i)"

lemma any_stride_tsStrides: "any_stride buf tsStrides = Inr (ts_sync_found buf)"
  by (simp add: tsStrides_def hasSyncRun_spec PacketSize_def packetSizeWithTimestamp_def
      packetSizeWithParity_def ts_sync_found_def)

lemma ts_Detect_eq:
  "ts_Detect buf final = Inr
     (if ts_sync_found buf \<or> final \<and> buf \<noteq> [] \<and> buf ! 0 = SyncByte then Matched
      else if final then Rejected else Undecided)"
  by (simp add: ts_Detect_def any_stride_tsStrides)

subsection \<open>Properties\<close>

text \<open>
  C39. The TS detector never indexes outside the probe, and it matches exactly when five sync
  bytes stand at one of the three packet strides from an offset below 188, or, on the final
  probe, when the first byte is a sync byte; on a final probe it always decides.
\<close>

theorem ts_Detect_decides:
  "ts_Detect buf final = Inr
     (if (\<exists>(stride, off) \<in> {(188, 0), (192, 4), (204, 0)}.
            \<exists>i. 0 \<le> i \<and> i < min (glen buf) 188 \<and> sync_run buf stride off 5 i)
         \<or> final \<and> buf \<noteq> [] \<and> buf ! 0 = SyncByte then Matched
      else if final then Rejected else Undecided)"
  by (simp only: ts_Detect_eq ts_sync_found_def)

end
