(* ===== verification/CheckReader.thy ===== *)
theory CheckReader
  imports Packet
begin

text \<open>
  The format check that stands between a byte source and a parser (\<open>packet/packet.go\<close>):
  \<open>checkReader\<close> probes the first bytes with a \<open>Detector\<close> and then passes the stream on
  unchanged. An \<open>io.Reader\<close> is the list of the results its \<open>Read\<close> calls will give, a chunk
  of bytes and an error each; past the end of the list every call gives \<open>io.EOF\<close>.
\<close>

subsection \<open>Readers\<close>

datatype io_error = EOF | IOErr string

type_synonym reader = "(bytes \<times> io_error option) list"

fun reader_read :: "reader \<Rightarrow> bytes \<times> io_error option \<times> reader" where
  "reader_read [] = ([], Some EOF, [])"
| "reader_read ((chunk, err) # rest) = (chunk, err, rest)"

definition reader_bytes :: "reader \<Rightarrow> bytes" where
  "reader_bytes r = concat (map fst r)"

lemma reader_bytes_simps [simp]:
  "reader_bytes [] = []" "reader_bytes (c # r) = fst c @ reader_bytes r"
  by (simp_all add: reader_bytes_def)

lemma reader_read_bytes: "reader_read r = (chunk, err, r') \<Longrightarrow> reader_bytes r = chunk @ reader_bytes r'"
  by (cases r rule: reader_read.cases) auto

subsection \<open>The Detector interface\<close>

record detector =
  Name :: string
  Detect :: "bytes \<Rightarrow> bool \<Rightarrow> unit fault + detect_result"

text \<open>The contract in the interface's comments: when \<open>final\<close>, the answer is a decision.\<close>

locale format_detector =
  fixes self :: detector
  assumes total: "\<exists>r. Detect self buf final = Inr r"
    and final_decides: "Detect self buf True \<noteq> Inr Undecided"
begin

lemma final_cases:
  obtains "Detect self buf True = Inr Matched" | "Detect self buf True = Inr Rejected"
proof -
  from total [of buf True] obtain r where "Detect self buf True = Inr r" by blast
  then show thesis using final_decides [of buf] that by (cases r) auto
qed

end

definition ts_Detector :: detector where
  "ts_Detector = \<lparr>Name = ''ts'', Detect = ts_Detect\<rparr>"

interpretation ts_fmt: format_detector ts_Detector
  by unfold_locales (auto simp: ts_Detector_def ts_Detect_eq)

subsection \<open>checkReader\<close>

datatype check_error = ReadError io_error | MismatchError string string | UnknownError string

record check_reader =
  cr_r :: reader
  cr_self :: detector
  cr_others :: "detector list"
  cr_checked :: bool
  cr_probe :: bytes

definition NewCheckReader :: "reader \<Rightarrow> detector \<Rightarrow> detector list \<Rightarrow> check_reader" where
  "NewCheckReader r self others =
     \<lparr>cr_r = r, cr_self = self, cr_others = others, cr_checked = False, cr_probe = []\<rparr>"

definition probeLimit :: int where
  "probeLimit = 256 * 1024"

text \<open>A detector's panic would propagate; the detectors of the program never panic.\<close>

fun mismatchOrUnknown :: "detector \<Rightarrow> detector list \<Rightarrow> bytes \<Rightarrow> check_error fault" where
  "mismatchOrUnknown self [] buf = Err (UnknownError (Name self))"
| "mismatchOrUnknown self (other # rest) buf =
     (case Detect other buf True of
        Inl _ \<Rightarrow> Panic
      | Inr r \<Rightarrow> if r = Matched then Err (MismatchError (Name self) (Name other))
                else mismatchOrUnknown self rest buf)"

fun check_loop ::
  "detector \<Rightarrow> detector list \<Rightarrow> bytes \<Rightarrow> reader \<Rightarrow> check_error fault + (bytes \<times> reader)" where
  "check_loop self others buf [] =
     (case Detect self buf True of
        Inl _ \<Rightarrow> Inl Panic
      | Inr r \<Rightarrow>
          if r = Matched then Inr (buf, [])
          else if glen buf = 0 then Inl (Err (ReadError EOF))
          else Inl (mismatchOrUnknown self others buf))"
| "check_loop self others buf ((chunk, err) # rest) =
     (let buf' = buf @ chunk; final = (err \<noteq> None \<or> glen buf' \<ge> probeLimit)
      in case Detect self buf' final of
           Inl _ \<Rightarrow> Inl Panic
         | Inr r \<Rightarrow>
             if r = Matched then Inr (buf', rest)
             else if final then
               (if glen buf' = 0
                then (case err of Some e \<Rightarrow> Inl (Err (ReadError e)) | None \<Rightarrow> Inl Panic)
                else Inl (mismatchOrUnknown self others buf'))
             else check_loop self others buf' rest)"

definition check :: "check_reader \<Rightarrow> check_error fault + check_reader" where
  "check c =
     rbind (check_loop (cr_self c) (cr_others c) [] (cr_r c)) (\<lambda>(buf, r').
       Inr (c\<lparr>cr_checked := True, cr_probe := buf, cr_r := r'\<rparr>))"

text \<open>
  \<open>Read(p)\<close> with \<open>n = len(p)\<close>: the error and the bytes copied into \<open>p\<close>, and the new state.
  Once the probe is drained the call is the source's own \<open>Read\<close>.
\<close>

definition Read :: "check_reader \<Rightarrow> nat \<Rightarrow> check_error fault + (bytes \<times> io_error option \<times> check_reader)" where
  "Read c n =
     rbind (if cr_checked c then Inr c else check c) (\<lambda>c.
       if length (cr_probe c) > 0
       then Inr (take n (cr_probe c), None, c\<lparr>cr_probe := drop n (cr_probe c)\<rparr>)
       else (case reader_read (cr_r c) of (chunk, err, r') \<Rightarrow> Inr (chunk, err, c\<lparr>cr_r := r'\<rparr>)))"

lemma check_loop_bytes:
  "check_loop self others buf r = Inr (probe, r') \<Longrightarrow>
   probe @ reader_bytes r' = buf @ reader_bytes r"
  by (induction self others buf r rule: check_loop.induct)
    (auto simp: Let_def split: sum.splits if_splits option.splits)

lemma check_loop_matched:
  "check_loop self others buf r = Inr (probe, r') \<Longrightarrow> \<exists>final. Detect self probe final = Inr Matched"
  by (induction self others buf r rule: check_loop.induct)
    (auto simp: Let_def split: sum.splits if_splits option.splits)

text \<open>The bytes a checked reader still has to deliver.\<close>

definition to_deliver :: "check_reader \<Rightarrow> bytes" where
  "to_deliver c = cr_probe c @ reader_bytes (cr_r c)"

lemma check_keeps: "check c = Inr c' \<Longrightarrow> to_deliver c' = reader_bytes (cr_r c) \<and> cr_checked c'"
  by (auto simp: check_def rbind_eq_Inr_iff to_deliver_def dest!: check_loop_bytes)

lemma Read_delivers:
  assumes "Read c n = Inr (out, err, c')" and "cr_checked c"
  shows "out @ to_deliver c' = to_deliver c \<and> cr_checked c'"
  using assms
  by (auto simp: Read_def to_deliver_def dest!: reader_read_bytes split: if_splits prod.splits)

subsection \<open>Reading to the end\<close>

text \<open>The bytes a sequence of \<open>Read\<close> calls with the given buffer sizes delivers.\<close>

fun read_all :: "check_reader \<Rightarrow> nat list \<Rightarrow> check_error fault + (bytes \<times> check_reader)" where
  "read_all c [] = Inr ([], c)"
| "read_all c (n # ns) =
     rbind (Read c n) (\<lambda>(out, _, c'). rbind (read_all c' ns) (\<lambda>(more, c''). Inr (out @ more, c'')))"

lemma read_all_checked:
  "cr_checked c \<Longrightarrow> read_all c ns = Inr (out, c') \<Longrightarrow> out @ to_deliver c' = to_deliver c"
proof (induction ns arbitrary: c out)
  case (Cons n ns)
  then obtain o1 err c1 o2 where r: "Read c n = Inr (o1, err, c1)" "read_all c1 ns = Inr (o2, c')"
    "out = o1 @ o2"
    by (auto simp: rbind_eq_Inr_iff)
  from Read_delivers [OF r(1) Cons.prems(1)]
  have c1: "o1 @ to_deliver c1 = to_deliver c" "cr_checked c1" by simp_all
  have "o2 @ to_deliver c' = to_deliver c1" by (rule Cons.IH [OF c1(2) r(2)])
  with r(3) c1(1) show ?case by simp
qed simp

lemma Read_first:
  assumes "Read c n = Inr (out, err, c')" and "\<not> cr_checked c"
  obtains c1 where "check c = Inr c1" "Read c1 n = Inr (out, err, c')" "cr_checked c1"
proof -
  from assms obtain c1 where c1: "check c = Inr c1"
    by (auto simp: Read_def rbind_eq_Inr_iff)
  moreover have "cr_checked c1" using check_keeps [OF c1] by simp
  ultimately show thesis
    using assms that [of c1] by (simp add: Read_def)
qed

lemma read_all_unchecked:
  assumes "\<not> cr_checked c" "ns \<noteq> []" "read_all c ns = Inr (out, c')"
  shows "out @ to_deliver c' = reader_bytes (cr_r c)"
proof -
  from assms(2,3) obtain n ns' o1 err c1 o2 where
    ns: "ns = n # ns'" and r: "Read c n = Inr (o1, err, c1)" "read_all c1 ns' = Inr (o2, c')" "out = o1 @ o2"
    by (cases ns) (auto simp: rbind_eq_Inr_iff)
  from r(1) assms(1) obtain c0 where c0: "check c = Inr c0" "Read c0 n = Inr (o1, err, c1)" "cr_checked c0"
    by (rule Read_first)
  with ns r have "read_all c0 ns = Inr (out, c')" by simp
  with c0 check_keeps [OF c0(1)] show ?thesis by (metis read_all_checked)
qed

subsection \<open>Properties\<close>

text \<open>
  C38. The format check is transparent: whatever buffer sizes the consumer reads with, the bytes
  it has been given followed by the bytes still to come are exactly the bytes of the source.
  Nothing the probe read ahead is lost, repeated or reordered.
\<close>

theorem check_reader_transparent:
  assumes "ns \<noteq> []"
    and "read_all (NewCheckReader r self others) ns = Inr (out, c')"
  shows "out @ to_deliver c' = reader_bytes r"
  using read_all_unchecked [OF _ assms] by (simp add: NewCheckReader_def)

definition demo_source :: reader where
  "demo_source = [([0x47, 1], None), ([2, 3], Some EOF)]"

definition demo_detector :: detector where
  "demo_detector = \<lparr>Name = ''ts'', Detect = ts_Detect\<rparr>"

theorem check_reader_transparent_witness:
  "\<exists>out c'. read_all (NewCheckReader demo_source demo_detector []) [3, 5] = Inr (out, c') \<and>
     out = [0x47, 1, 2, 3] \<and> out @ to_deliver c' = reader_bytes demo_source"
proof -
  have "map_sum id fst (read_all (NewCheckReader demo_source demo_detector []) [3, 5]) =
      Inr [0x47, 1, 2, 3]"
    by code_simp
  then obtain out c' where r: "read_all (NewCheckReader demo_source demo_detector []) [3, 5] = Inr (out, c')"
    "out = [0x47, 1, 2, 3]"
    by (cases "read_all (NewCheckReader demo_source demo_detector []) [3, 5]") auto
  with check_reader_transparent [OF _ r(1)] show ?thesis by simp
qed

text \<open>
  A stream the source's own detector has not matched is never passed on: every successful
  check has probed bytes the detector reports as a match.
\<close>

lemma check_only_matched:
  assumes "check c = Inr c'"
  shows "\<exists>final. Detect (cr_self c) (cr_probe c') final = Inr Matched"
  using assms by (auto simp: check_def rbind_eq_Inr_iff dest: check_loop_matched)

lemma check_only_matched_instance:
  "\<exists>c' final. check (NewCheckReader demo_source demo_detector []) = Inr c' \<and>
     Detect demo_detector (cr_probe c') final = Inr Matched"
proof -
  have "map_sum id cr_checked (check (NewCheckReader demo_source demo_detector [])) = Inr True"
    by code_simp
  then obtain c' where r: "check (NewCheckReader demo_source demo_detector []) = Inr c'"
    by (cases "check (NewCheckReader demo_source demo_detector [])") auto
  from check_only_matched [OF r] r show ?thesis by (auto simp: NewCheckReader_def)
qed

end
