(* ===== verification/PacketReader.thy ===== *)
theory PacketReader
  imports CheckReader
begin

text \<open>
  \<open>PacketReader\<close> of \<open>ts/packet.go\<close>: reading 188-byte packets from a byte source, with recovery of
  the packet stride (188, 192 or 204 bytes) and of lost sync. The reader's state is the record
  \<open>packet_reader\<close>; every operation returns its result and the new state, since a failed call also
  leaves its marks on the state.
\<close>

record packet_reader =
  pr_r :: reader
  pr_buf :: bytes
  pr_stride :: int
  pr_syncLosses :: "64 word"
  pr_readErr :: "io_error option"

definition NewPacketReader :: "reader \<Rightarrow> packet_reader" where
  "NewPacketReader r =
     \<lparr>pr_r = r, pr_buf = [], pr_stride = 0, pr_syncLosses = 0, pr_readErr = None\<rparr>"

subsection \<open>fill\<close>

lemma reader_read_shorter: "reader_read r = (chunk, None, r') \<Longrightarrow> length r' < length r"
  by (cases r rule: reader_read.cases) auto

function fill_loop :: "int \<Rightarrow> packet_reader \<Rightarrow> packet_reader" where
  "fill_loop want pr =
     (if pr_readErr pr = None \<and> glen (pr_buf pr) < want then
        (case reader_read (pr_r pr) of
           (chunk, err, r') \<Rightarrow>
             let pr' = pr\<lparr>pr_r := r', pr_buf := pr_buf pr @ chunk\<rparr>
             in if err \<noteq> None then pr'\<lparr>pr_readErr := err\<rparr>
                else if chunk = [] then pr'
                else fill_loop want pr')
      else pr)"
  by pat_completeness auto
termination
  by (relation "measure (\<lambda>(want, pr). length (pr_r pr))") (auto dest: reader_read_shorter [OF sym])

declare fill_loop.simps [simp del]

definition fill :: "int \<Rightarrow> packet_reader \<Rightarrow> io_error option \<times> packet_reader" where
  "fill want pr =
     (let pr' = fill_loop want pr
      in (if length (pr_buf pr') = 0 \<and> pr_readErr pr' \<noteq> None then pr_readErr pr' else None, pr'))"

subsection \<open>Detecting a packet\<close>

text \<open>The loop over the following sync bytes: \<open>None\<close> is \<open>return false\<close>.\<close>

function sync_checks :: "bytes \<Rightarrow> int \<Rightarrow> int \<Rightarrow> nat \<Rightarrow> nat option" where
  "sync_checks buf stride next_pos checks =
     (if next_pos < glen buf \<and> checks < 3 then
        if buf ! nat next_pos \<noteq> SyncByte then None
        else sync_checks buf stride (next_pos + stride) (checks + 1)
      else Some checks)"
  by pat_completeness auto
termination
  by (relation "measure (\<lambda>(buf, stride, next_pos, checks). 3 - checks)") auto

declare sync_checks.simps [simp del]

definition sync_offset :: "int \<Rightarrow> int" where
  "sync_offset stride = (if stride = packetSizeWithTimestamp then 4 else 0)"

definition packetReadyAt :: "int \<Rightarrow> int \<Rightarrow> packet_reader \<Rightarrow> bool \<times> packet_reader" where
  "packetReadyAt pos stride pr =
     (let syncOffset = sync_offset stride
      in if pos + syncOffset \<ge> glen (pr_buf pr) \<or> pr_buf pr ! nat (pos + syncOffset) \<noteq> SyncByte
         then (False, pr)
         else
           let pr' = (if glen (pr_buf pr) - pos < stride \<and> pr_readErr pr = None
                      then snd (fill (pos + stride) pr) else pr)
           in if glen (pr_buf pr') - pos < stride then (False, pr')
              else (case sync_checks (pr_buf pr') stride (pos + stride + syncOffset) 0 of
                      None \<Rightarrow> (False, pr')
                    | Some checks \<Rightarrow> (checks > 0 \<or> pr_readErr pr' \<noteq> None, pr')))"

fun try_strides :: "int \<Rightarrow> int list \<Rightarrow> packet_reader \<Rightarrow> int option \<times> packet_reader" where
  "try_strides pos [] pr = (None, pr)"
| "try_strides pos (stride # strides) pr =
     (case packetReadyAt pos stride pr of
        (True, pr') \<Rightarrow> (Some stride, pr')
      | (False, pr') \<Rightarrow> try_strides pos strides pr')"

text \<open>How a reader may change while it looks for a packet: only by reading on.\<close>

definition reads_on :: "packet_reader \<Rightarrow> packet_reader \<Rightarrow> bool" where
  "reads_on pr pr' \<longleftrightarrow>
     (\<exists>got. reader_bytes (pr_r pr) = got @ reader_bytes (pr_r pr') \<and>
        pr_buf pr' = pr_buf pr @ got \<and>
        (length (pr_r pr') = length (pr_r pr) \<longrightarrow> got = [])) \<and>
     length (pr_r pr') \<le> length (pr_r pr) \<and>
     pr_stride pr' = pr_stride pr \<and> pr_syncLosses pr' = pr_syncLosses pr \<and>
     (pr_readErr pr \<noteq> None \<longrightarrow> pr' = pr)"

lemma reads_on_refl [simp]: "reads_on pr pr"
  by (simp add: reads_on_def)

lemma reads_on_progress:
  "reads_on pr pr' \<Longrightarrow>
   length (pr_r pr') < length (pr_r pr) \<or> length (pr_r pr') = length (pr_r pr) \<and> pr_buf pr' = pr_buf pr"
  by (auto simp: reads_on_def)

lemma reads_on_trans:
  assumes "reads_on a b" "reads_on b c"
  shows "reads_on a c"
proof -
  from assms obtain g h where "reader_bytes (pr_r a) = g @ reader_bytes (pr_r b)" "pr_buf b = pr_buf a @ g"
    "length (pr_r b) = length (pr_r a) \<longrightarrow> g = []"
    "reader_bytes (pr_r b) = h @ reader_bytes (pr_r c)" "pr_buf c = pr_buf b @ h"
    "length (pr_r c) = length (pr_r b) \<longrightarrow> h = []"
    by (auto simp: reads_on_def)
  moreover have "length (pr_r c) \<le> length (pr_r b)" "length (pr_r b) \<le> length (pr_r a)"
    using assms by (simp_all add: reads_on_def)
  ultimately have "\<exists>got. reader_bytes (pr_r a) = got @ reader_bytes (pr_r c) \<and> pr_buf c = pr_buf a @ got \<and>
      (length (pr_r c) = length (pr_r a) \<longrightarrow> got = [])"
    by (intro exI [of _ "g @ h"]) auto
  with assms show ?thesis by (auto simp: reads_on_def)
qed

lemma fill_loop_reads_on: "reads_on pr (fill_loop want pr)"
proof (induction want pr rule: fill_loop.induct)
  case (1 want pr)
  obtain chunk err r' where rd: "reader_read (pr_r pr) = (chunk, err, r')" by (metis prod_cases3)
  let ?pr = "pr\<lparr>pr_r := r', pr_buf := pr_buf pr @ chunk\<rparr>"
  have bytes: "reader_bytes (pr_r pr) = chunk @ reader_bytes r'" using rd by (rule reader_read_bytes)
  have len: "length r' \<le> length (pr_r pr)" "length r' = length (pr_r pr) \<longrightarrow> chunk = []"
    using rd by (cases "pr_r pr" rule: reader_read.cases; auto)+
  show ?case
  proof (cases "pr_readErr pr = None \<and> glen (pr_buf pr) < want")
    case True
    have step: "reads_on pr (?pr\<lparr>pr_readErr := e\<rparr>)" for e
      using True bytes len by (simp add: reads_on_def)
    have "?pr\<lparr>pr_readErr := None\<rparr> = ?pr" using True by (cases pr) simp
    then have step': "reads_on pr ?pr" using step [of None] by simp
    show ?thesis
      using True rd step step' "1.IH" [OF True rd [symmetric] refl refl]
      by (subst fill_loop.simps) (auto simp: Let_def intro: reads_on_trans)
  next
    case False
    show ?thesis by (subst fill_loop.simps) (simp only: False if_False reads_on_refl)
  qed
qed

lemma packetReadyAt_reads_on: "packetReadyAt pos stride pr = (b, pr') \<Longrightarrow> reads_on pr pr'"
  by (auto simp: packetReadyAt_def Let_def fill_def fill_loop_reads_on split: if_splits option.splits)

lemma try_strides_reads_on: "try_strides pos strides pr = (res, pr') \<Longrightarrow> reads_on pr pr'"
  by (induction strides arbitrary: pr)
    (auto split: prod.splits bool.splits dest: packetReadyAt_reads_on intro: reads_on_trans)

function detect_loop :: "int \<Rightarrow> packet_reader \<Rightarrow> (int \<times> int) option \<times> packet_reader" where
  "detect_loop pos pr =
     (if pos < glen (pr_buf pr) then
        (case try_strides pos [PacketSize, packetSizeWithTimestamp, packetSizeWithParity] pr of
           (Some stride, pr') \<Rightarrow> (Some (pos, stride), pr')
         | (None, pr') \<Rightarrow> detect_loop (pos + 1) pr')
      else (None, pr))"
  by pat_completeness auto
termination
  by (relation "measures [\<lambda>(pos, pr). length (pr_r pr), \<lambda>(pos, pr). nat (glen (pr_buf pr) - pos)]")
    (auto simp del: try_strides.simps dest!: try_strides_reads_on [OF sym] reads_on_progress)

declare detect_loop.simps [simp del]

definition detectPacket :: "packet_reader \<Rightarrow> (int \<times> int) option \<times> packet_reader" where
  "detectPacket pr = detect_loop 0 pr"

lemma detect_loop_reads_on: "detect_loop pos pr = (res, pr') \<Longrightarrow> reads_on pr pr'"
proof (induction pos pr rule: detect_loop.induct)
  case (1 pos pr)
  obtain o1 pr1 where t: "try_strides pos [PacketSize, packetSizeWithTimestamp, packetSizeWithParity] pr = (o1, pr1)"
    by fastforce
  note r = try_strides_reads_on [OF t]
  show ?case
    using "1.prems" "1.IH" [OF _ t [symmetric]] t r
    by (subst (asm) detect_loop.simps) (auto split: if_splits option.splits intro: reads_on_trans)
qed

subsection \<open>NextInto\<close>

datatype packet_error = ErrShortBuffer | SourceError io_error

definition consumePacketInto ::
  "int \<Rightarrow> int \<Rightarrow> packet_reader \<Rightarrow> (packet_error fault + bytes) \<times> packet_reader" where
  "consumePacketInto pos stride pr =
     (let start = (if stride = packetSizeWithTimestamp then pos + 4 else pos);
          end = (if stride = packetSizeWithParity then pos + PacketSize else pos + stride)
      in case gslice (pr_buf pr) start end of
           Inl e \<Rightarrow> (Inl e, pr)
         | Inr packet \<Rightarrow>
             (case gslice (pr_buf pr) (pos + stride) (glen (pr_buf pr)) of
                Inl e \<Rightarrow> (Inl e, pr)
              | Inr remaining \<Rightarrow> (Inr packet, pr\<lparr>pr_buf := remaining\<rparr>)))"

definition minDetectBytes :: int where
  "minDetectBytes = 4 * packetSizeWithParity"

text \<open>\<open>bytes.LastIndexByte\<close>, -1 where the byte does not occur.\<close>

fun last_index :: "bytes \<Rightarrow> byte \<Rightarrow> int" where
  "last_index [] b = -1"
| "last_index (x # xs) b =
     (let i = last_index xs b in if i \<ge> 0 then i + 1 else if x = b then 0 else -1)"

definition trim_to_sync :: "packet_reader \<Rightarrow> packet_reader" where
  "trim_to_sync pr =
     (let i = last_index (pr_buf pr) SyncByte
      in if i > 0 then pr\<lparr>pr_buf := drop (nat i) (pr_buf pr)\<rparr> else pr)"

lemma trim_to_sync_simps [simp]:
  "pr_r (trim_to_sync pr) = pr_r pr" "pr_readErr (trim_to_sync pr) = pr_readErr pr"
  "pr_stride (trim_to_sync pr) = pr_stride pr"
  by (simp_all add: trim_to_sync_def Let_def)

lemma fill_reads:
  assumes "fill want pr = (err, pr')" "glen (pr_buf pr) < want"
  shows "length (pr_r pr') < length (pr_r pr) \<or> pr_readErr pr' \<noteq> None"
proof (cases "pr_readErr pr = None")
  case True
  obtain chunk e r' where rd: "reader_read (pr_r pr) = (chunk, e, r')" by (metis prod_cases3)
  let ?pr = "pr\<lparr>pr_r := r', pr_buf := pr_buf pr @ chunk\<rparr>"
  have pr': "pr' = (if e \<noteq> None then ?pr\<lparr>pr_readErr := e\<rparr> else if chunk = [] then ?pr else fill_loop want ?pr)"
    using assms True rd by (auto simp: fill_def Let_def fill_loop.simps [of want pr])
  have "length (pr_r (fill_loop want ?pr)) \<le> length r'"
    using fill_loop_reads_on [of ?pr want] by (simp add: reads_on_def)
  moreover have "e = None \<Longrightarrow> length r' < length (pr_r pr)" using rd reader_read_shorter by metis
  ultimately show ?thesis unfolding pr' by (cases e) auto
next
  case False
  then show ?thesis using assms fill_loop_reads_on [of pr want] by (auto simp: fill_def Let_def reads_on_def)
qed

definition source_left :: "packet_reader \<Rightarrow> nat" where
  "source_left pr = 2 * length (pr_r pr) + (if pr_readErr pr = None then 1 else 0)"

lemma reads_on_source_left: "reads_on pr pr' \<Longrightarrow> source_left pr' \<le> source_left pr"
  by (auto simp: reads_on_def source_left_def)

lemma fill_reads_on: "fill want pr = (err, pr') \<Longrightarrow> reads_on pr pr'"
  by (auto simp: fill_def Let_def fill_loop_reads_on)

lemma fill_source_left:
  assumes "fill want pr = (err, pr')" "glen (pr_buf pr) < want" "pr_readErr pr = None"
  shows "source_left pr' < source_left pr"
proof -
  have "length (pr_r pr') \<le> length (pr_r pr)" using fill_reads_on [OF assms(1)] by (simp add: reads_on_def)
  with fill_reads [OF assms(1,2)] assms(3) show ?thesis by (auto simp: source_left_def)
qed

definition keep_stride :: "packet_reader \<Rightarrow> bool \<times> packet_reader" where
  "keep_stride pr =
     (if pr_stride pr \<noteq> 0 then
        (case packetReadyAt 0 (pr_stride pr) pr of
           (True, pr') \<Rightarrow> (True, pr')
         | (False, pr') \<Rightarrow> (False, pr'\<lparr>pr_syncLosses := pr_syncLosses pr' + 1, pr_stride := 0\<rparr>))
      else (False, pr))"

lemma keep_stride_source_left: "keep_stride pr = (b, pr') \<Longrightarrow> source_left pr' \<le> source_left pr"
  using packetReadyAt_reads_on [of 0 "pr_stride pr" pr]
  by (auto simp: keep_stride_def source_left_def [of "_\<lparr>pr_syncLosses := _, pr_stride := _\<rparr>"]
      split: if_splits prod.splits bool.splits dest!: reads_on_source_left)
    (auto simp: source_left_def)

function next_loop :: "packet_reader \<Rightarrow> (packet_error fault + bytes) \<times> packet_reader" where
  "next_loop pr =
     (case fill minDetectBytes pr of (err, pr1) \<Rightarrow>
        if err \<noteq> None \<and> length (pr_buf pr1) = 0 then (Inl (Err (SourceError (the err))), pr1)
        else if length (pr_buf pr1) = 0 then (Inl (Err (SourceError EOF)), pr1)
        else (case keep_stride pr1 of (ready, pr2) \<Rightarrow>
          if ready then consumePacketInto 0 (pr_stride pr2) pr2
          else (case detectPacket pr2 of (found, pr3) \<Rightarrow>
            (case found of
               Some (pos, stride) \<Rightarrow> consumePacketInto pos stride (pr3\<lparr>pr_stride := stride\<rparr>)
             | None \<Rightarrow>
                 if pr_readErr pr3 \<noteq> None then (Inl (Err (SourceError (the (pr_readErr pr3)))), pr3)
                 else (case fill (glen (pr_buf (trim_to_sync pr3)) + minDetectBytes) (trim_to_sync pr3) of
                   (err', pr4) \<Rightarrow>
                     if err' \<noteq> None \<and> length (pr_buf pr4) = 0
                     then (Inl (Err (SourceError (the err'))), pr4)
                     else next_loop pr4)))))"
  by pat_completeness auto
termination
proof (relation "measure source_left")
  fix pr :: packet_reader and err pr1 ready pr2 found pr3 err' pr4
  assume a: "(err, pr1) = fill minDetectBytes pr" "(ready, pr2) = keep_stride pr1"
    "(found, pr3) = detectPacket pr2" "\<not> pr_readErr pr3 \<noteq> None"
    "(err', pr4) = fill (glen (pr_buf (trim_to_sync pr3)) + minDetectBytes) (trim_to_sync pr3)"
  have "source_left pr4 < source_left (trim_to_sync pr3)"
    by (rule fill_source_left [of "glen (pr_buf (trim_to_sync pr3)) + minDetectBytes" _ err'])
      (use a in \<open>simp_all add: minDetectBytes_def packetSizeWithParity_def\<close>)
  also have "\<dots> = source_left pr3" by (simp add: source_left_def)
  also have "\<dots> \<le> source_left pr2"
    using a by (metis detectPacket_def detect_loop_reads_on reads_on_source_left)
  also have "\<dots> \<le> source_left pr1" using a by (metis keep_stride_source_left)
  also have "\<dots> \<le> source_left pr" using a by (metis fill_reads_on reads_on_source_left)
  finally show "(pr4, pr) \<in> measure source_left" by simp
qed simp

declare next_loop.simps [simp del]

definition NextInto :: "int \<Rightarrow> packet_reader \<Rightarrow> (packet_error fault + bytes) \<times> packet_reader" where
  "NextInto dst_len pr = (if dst_len < PacketSize then (Inl (Err ErrShortBuffer), pr) else next_loop pr)"

definition Next :: "packet_reader \<Rightarrow> (packet_error fault + bytes) \<times> packet_reader" where
  "Next pr = NextInto PacketSize pr"

definition SyncLosses :: "packet_reader \<Rightarrow> 64 word" where
  "SyncLosses pr = pr_syncLosses pr"

definition PacketStride :: "packet_reader \<Rightarrow> int" where
  "PacketStride pr = pr_stride pr"

subsection \<open>What a returned packet is\<close>

definition stride_ok :: "int \<Rightarrow> bool" where
  "stride_ok stride \<longleftrightarrow> stride \<in> {PacketSize, packetSizeWithTimestamp, packetSizeWithParity}"

definition packet_at :: "int \<Rightarrow> int \<Rightarrow> packet_reader \<Rightarrow> bool" where
  "packet_at pos stride pr \<longleftrightarrow> 0 \<le> pos \<and> stride_ok stride \<and> pos + stride \<le> glen (pr_buf pr) \<and>
     pr_buf pr ! nat (pos + sync_offset stride) = SyncByte"

lemmas packet_sizes = PacketSize_def packetSizeWithTimestamp_def packetSizeWithParity_def

lemma packetReadyAt_packet_at:
  assumes "packetReadyAt pos stride pr = (True, pr')" "0 \<le> pos" "stride_ok stride"
  shows "packet_at pos stride pr'"
proof -
  have lt: "nat (pos + sync_offset stride) < length (pr_buf pr)"
    and sync: "pr_buf pr ! nat (pos + sync_offset stride) = SyncByte"
    and len: "stride \<le> glen (pr_buf pr') - pos"
    using assms by (auto simp: packetReadyAt_def Let_def sync_offset_def split: if_splits option.splits)
  obtain got where "pr_buf pr' = pr_buf pr @ got"
    using packetReadyAt_reads_on [OF assms(1)] by (auto simp: reads_on_def)
  with lt sync len assms(2,3) show ?thesis by (simp add: packet_at_def nth_append)
qed

lemma try_strides_packet_at:
  "try_strides pos strides pr = (Some stride, pr') \<Longrightarrow> 0 \<le> pos \<Longrightarrow> list_all stride_ok strides \<Longrightarrow>
   packet_at pos stride pr'"
  by (induction strides arbitrary: pr)
    (auto split: prod.splits bool.splits dest: packetReadyAt_packet_at)

lemma detect_loop_packet_at:
  "detect_loop pos pr = (Some (p, stride), pr') \<Longrightarrow> 0 \<le> pos \<Longrightarrow> packet_at p stride pr'"
proof (induction pos pr rule: detect_loop.induct)
  case (1 pos pr)
  obtain o1 pr1 where t: "try_strides pos [PacketSize, packetSizeWithTimestamp, packetSizeWithParity] pr = (o1, pr1)"
    by fastforce
  have "list_all stride_ok [PacketSize, packetSizeWithTimestamp, packetSizeWithParity]"
    by (simp add: stride_ok_def)
  then have "packet_at pos st pr1" if "o1 = Some st" for st
    using try_strides_packet_at [of pos _ pr st pr1] t that "1.prems"(2) by blast
  then show ?case
    using "1.prems" "1.IH" [OF _ t [symmetric]] t
    by (subst (asm) detect_loop.simps) (auto split: if_splits option.splits simp del: try_strides.simps)
qed

definition good_packet :: "bytes \<Rightarrow> bool" where
  "good_packet p \<longleftrightarrow> length p = 188 \<and> p ! 0 = SyncByte"

lemma consume_good:
  assumes "packet_at pos stride pr"
  shows "\<exists>p. consumePacketInto pos stride pr =
      (Inr p, pr\<lparr>pr_buf := drop (nat (pos + stride)) (pr_buf pr)\<rparr>) \<and> good_packet p"
  using assms
  by (auto simp: packet_at_def stride_ok_def consumePacketInto_def Let_def packet_sizes good_packet_def
      sync_offset_def nat_add_distrib)

definition result_ok :: "(packet_error fault + bytes) \<times> packet_reader \<Rightarrow> bool" where
  "result_ok = (\<lambda>(res, pr').
     (case res of Inl e \<Rightarrow> e \<noteq> Panic | Inr p \<Rightarrow> good_packet p) \<and>
     (pr_stride pr' = 0 \<or> stride_ok (pr_stride pr')))"

lemma result_ok_Err [simp]:
  "result_ok (Inl (Err e), pr') \<longleftrightarrow> pr_stride pr' = 0 \<or> stride_ok (pr_stride pr')"
  by (simp add: result_ok_def)

lemma consume_result_ok:
  "packet_at pos stride pr \<Longrightarrow> stride_ok (pr_stride pr) \<Longrightarrow> result_ok (consumePacketInto pos stride pr)"
  using consume_good [of pos stride pr] by (auto simp: result_ok_def)

lemma keep_stride_ok:
  assumes "keep_stride pr = (ready, pr')" "pr_stride pr = 0 \<or> stride_ok (pr_stride pr)"
  shows "ready \<Longrightarrow> packet_at 0 (pr_stride pr') pr' \<and> stride_ok (pr_stride pr')"
    "\<not> ready \<Longrightarrow> pr_stride pr' = 0"
proof -
  obtain b pr1 where r: "packetReadyAt 0 (pr_stride pr) pr = (b, pr1)" by fastforce
  have s: "pr_stride pr1 = pr_stride pr" using packetReadyAt_reads_on [OF r] by (simp add: reads_on_def)
  have eq: "(ready, pr') = (if pr_stride pr \<noteq> 0 then
      (b, if b then pr1 else pr1\<lparr>pr_syncLosses := pr_syncLosses pr1 + 1, pr_stride := 0\<rparr>) else (False, pr))"
    using assms(1) r by (cases b) (auto simp: keep_stride_def split: if_splits)
  show "\<not> ready \<Longrightarrow> pr_stride pr' = 0" using eq by (auto split: if_splits)
  assume ready
  then have "b" "pr' = pr1" "pr_stride pr \<noteq> 0" using eq by (auto split: if_splits)
  with packetReadyAt_packet_at [of 0 "pr_stride pr" pr pr1] r s assms(2)
  show "packet_at 0 (pr_stride pr') pr' \<and> stride_ok (pr_stride pr')" by simp
qed

lemma next_loop_ok: "pr_stride pr = 0 \<or> stride_ok (pr_stride pr) \<Longrightarrow> result_ok (next_loop pr)"
proof (induction pr rule: next_loop.induct)
  case (1 pr)
  obtain err pr1 where f1: "fill minDetectBytes pr = (err, pr1)" by fastforce
  obtain ready pr2 where k: "keep_stride pr1 = (ready, pr2)" by fastforce
  obtain found pr3 where d: "detectPacket pr2 = (found, pr3)" by fastforce
  obtain err' pr4 where
    f2: "fill (glen (pr_buf (trim_to_sync pr3)) + minDetectBytes) (trim_to_sync pr3) = (err', pr4)" by fastforce
  have s1: "pr_stride pr1 = 0 \<or> stride_ok (pr_stride pr1)"
    using 1(2) fill_reads_on [OF f1] by (simp add: reads_on_def)
  note ks = keep_stride_ok [OF k s1]
  have s3: "pr_stride pr3 = pr_stride pr2"
    using detect_loop_reads_on [OF d [unfolded detectPacket_def]] by (simp add: reads_on_def)
  have at3: "packet_at p st (pr3\<lparr>pr_stride := st\<rparr>)" if "found = Some (p, st)" for p st
    using detect_loop_packet_at [of 0 pr2 p st pr3] d that by (simp add: detectPacket_def packet_at_def)
  have s4: "pr_stride pr4 = pr_stride pr3" using fill_reads_on [OF f2] by (simp add: reads_on_def)
  show ?case
  proof (cases "length (pr_buf pr1) = 0 \<or> ready")
    case True
    then show ?thesis
      using f1 k s1 ks(1) by (subst next_loop.simps) (auto intro: consume_result_ok)
  next
    case False
    note z = ks(2)
    have rec: "result_ok (next_loop pr4)" if "found = None" "pr_readErr pr3 = None" "\<not> (err' \<noteq> None \<and> length (pr_buf pr4) = 0)"
      using "1.IH" [OF f1 [symmetric] _ _ k [symmetric] _ d [symmetric] that(1) _ f2 [symmetric] that(3)]
        False that z s3 s4 by simp
    have cons: "result_ok (consumePacketInto p st (pr3\<lparr>pr_stride := st\<rparr>))" if "found = Some (p, st)" for p st
      using at3 [OF that] by (intro consume_result_ok) (simp_all add: packet_at_def)
    show ?thesis
      using False f1 k d f2 rec cons z s3 s4
      by (subst next_loop.simps) (auto split: option.splits)
  qed
qed

subsection \<open>A clean stream\<close>

text \<open>A source without empty reads that ends with \<open>io.EOF\<close>, alone or together with the last bytes.\<close>

fun clean_source :: "reader \<Rightarrow> bool" where
  "clean_source [] = True"
| "clean_source ((chunk, err) # rest) =
     (if err = None then chunk \<noteq> [] \<and> clean_source rest else err = Some EOF \<and> rest = [])"

definition clean_state :: "packet_reader \<Rightarrow> bytes list \<Rightarrow> bool" where
  "clean_state pr ps \<longleftrightarrow> list_all good_packet ps \<and> (pr_stride pr = 0 \<or> pr_stride pr = PacketSize) \<and>
     pr_buf pr @ reader_bytes (pr_r pr) = concat ps \<and>
     (if pr_readErr pr = None then clean_source (pr_r pr) else pr_readErr pr = Some EOF \<and> pr_r pr = [])"

lemma fill_loop_clean:
  "clean_state pr ps \<Longrightarrow> clean_state (fill_loop want pr) ps \<and>
     (want \<le> glen (pr_buf (fill_loop want pr)) \<or> pr_readErr (fill_loop want pr) = Some EOF)"
proof (induction want pr rule: fill_loop.induct)
  case (1 want pr)
  show ?case
  proof (cases "pr_readErr pr = None \<and> glen (pr_buf pr) < want")
    case go: True
    then have src: "clean_source (pr_r pr)" using "1.prems" by (simp add: clean_state_def)
    show ?thesis
    proof (cases "pr_r pr")
      case Nil
      then show ?thesis
        using go "1.prems" by (subst (1 2 3) fill_loop.simps) (simp add: clean_state_def Let_def)
    next
      case (Cons c rest)
      obtain chunk err where c: "c = (chunk, err)" by fastforce
      let ?pr = "pr\<lparr>pr_r := rest, pr_buf := pr_buf pr @ chunk\<rparr>"
      show ?thesis
      proof (cases "err = None")
        case True
        then have ne: "chunk \<noteq> []" "clean_source rest" using src Cons c by simp_all
        have "clean_state ?pr ps" using "1.prems" go Cons c ne True by (simp add: clean_state_def)
        moreover have "fill_loop want pr = fill_loop want ?pr"
          using go Cons c True ne by (subst fill_loop.simps) (simp add: Let_def)
        ultimately show ?thesis
          using "1.IH" [OF go, of chunk "(err, rest)" err rest ?pr] Cons c True ne by simp
      next
        case False
        then show ?thesis
          using go "1.prems" src Cons c
          by (subst (1 2 3) fill_loop.simps) (auto simp: clean_state_def Let_def split: if_splits)
      qed
    qed
  next
    case False
    have "fill_loop want pr = pr" by (subst fill_loop.simps) (simp only: False if_False)
    then show ?thesis using False "1.prems" by (auto simp: clean_state_def split: if_splits)
  qed
qed

lemma good_stream_sync:
  assumes "list_all good_packet ps" "buf @ rest = concat ps" "188 * k < length buf"
  shows "buf ! (188 * k) = SyncByte"
  using assms
proof (induction k arbitrary: ps buf)
  case 0
  then obtain p qs where p: "ps = p # qs" by (cases ps) auto
  with 0 have "p ! 0 = SyncByte" "length p = 188" by (simp_all add: good_packet_def)
  moreover have "(buf @ rest) ! 0 = p ! 0" using 0(2) p \<open>length p = 188\<close> by (simp add: nth_append)
  ultimately show ?case using 0(3) by (simp add: nth_append)
next
  case (Suc k)
  then obtain p qs where p: "ps = p # qs" by (cases ps) auto
  with Suc.prems have lp: "length p = 188" by (simp add: good_packet_def)
  have "drop 188 buf @ rest = drop 188 (buf @ rest)" using Suc.prems(3) by simp
  also have "\<dots> = concat qs" using Suc.prems(2) p lp by simp
  finally have "drop 188 buf ! (188 * k) = SyncByte"
    using Suc.prems p by (intro Suc.IH [of qs]) simp_all
  then show ?case using Suc.prems(3) by (simp add: add.commute)
qed

lemma sync_checks_clean:
  assumes "\<And>k. 188 * k < length buf \<Longrightarrow> buf ! (188 * k) = SyncByte"
  shows "\<exists>m. sync_checks buf 188 (188 * int k) c = Some m \<and> c \<le> m \<and> (188 * k < length buf \<and> c < 3 \<longrightarrow> c < m)"
proof (induction "3 - c" arbitrary: c k)
  case (Suc n)
  show ?case
  proof (cases "188 * k < length buf")
    case True
    have "n = 3 - (c + 1)" using Suc(2) by simp
    from Suc(1) [OF this, of "Suc k"] obtain m where
      m: "sync_checks buf 188 (188 * int (Suc k)) (c + 1) = Some m" "c + 1 \<le> m" by auto
    have "buf ! nat (188 * int k) = SyncByte" using assms [OF True] by (simp add: nat_mult_distrib)
    moreover have "188 * int k < glen buf" using True by linarith
    ultimately show ?thesis
      using m Suc(2) by (subst sync_checks.simps) (simp add: algebra_simps)
  qed (use Suc(2) in \<open>subst sync_checks.simps, simp\<close>)
qed (subst sync_checks.simps, simp)

text \<open>With a full probe, or with the source at its end, the packet at the front is ready.\<close>

lemma packetReadyAt_clean:
  assumes "clean_state pr (p # ps)" "minDetectBytes \<le> glen (pr_buf pr) \<or> pr_readErr pr = Some EOF"
  shows "packetReadyAt 0 PacketSize pr = (True, pr)" "take 188 (pr_buf pr) = p"
    "drop 188 (pr_buf pr) @ reader_bytes (pr_r pr) = concat ps"
proof -
  let ?buf = "pr_buf pr"
  have lp: "length p = 188" and cs: "?buf @ reader_bytes (pr_r pr) = concat (p # ps)"
    using assms(1) by (simp_all add: clean_state_def good_packet_def)
  have len: "188 \<le> length ?buf"
  proof (cases "pr_readErr pr = None")
    case False
    then have "?buf = concat (p # ps)" using assms(1) by (auto simp: clean_state_def split: if_splits)
    then show ?thesis using lp by simp
  qed (use assms(2) in \<open>simp add: minDetectBytes_def packet_sizes\<close>)
  then have ne: "?buf \<noteq> []" by auto
  have sync: "188 * k < length ?buf \<Longrightarrow> ?buf ! (188 * k) = SyncByte" for k
    using assms(1) good_stream_sync [of "p # ps" ?buf "reader_bytes (pr_r pr)" k] by (simp add: clean_state_def)
  obtain m where m: "sync_checks ?buf 188 (188 * int 1) 0 = Some m" "188 * 1 < length ?buf \<longrightarrow> 0 < m"
    using sync_checks_clean [of ?buf 1 0] sync by auto
  have "pr_readErr pr \<noteq> None" if "length ?buf = 188"
    using assms(2) that by (auto simp: minDetectBytes_def packet_sizes)
  then have "0 < m \<or> pr_readErr pr \<noteq> None" using m(2) len by fastforce
  then show "packetReadyAt 0 PacketSize pr = (True, pr)"
    using m(1) len sync [of 0] ne by (auto simp: packetReadyAt_def Let_def packet_sizes sync_offset_def)
  show "take 188 ?buf = p" using arg_cong [OF cs, of "take 188"] len lp by simp
  show "drop 188 ?buf @ reader_bytes (pr_r pr) = concat ps"
    using arg_cong [OF cs, of "drop 188"] len lp by simp
qed

lemma next_loop_clean:
  assumes "clean_state pr (p # ps)"
  obtains pr' where "next_loop pr = (Inr p, pr')" "clean_state pr' ps" "pr_syncLosses pr' = pr_syncLosses pr"
proof -
  obtain err pr1 where f: "fill minDetectBytes pr = (err, pr1)" by fastforce
  have pr1: "pr1 = fill_loop minDetectBytes pr" using f by (simp add: fill_def Let_def)
  have c1: "clean_state pr1 (p # ps)" "minDetectBytes \<le> glen (pr_buf pr1) \<or> pr_readErr pr1 = Some EOF"
    using fill_loop_clean [OF assms, of minDetectBytes] by (simp_all add: pr1)
  note ready = packetReadyAt_clean [OF c1]
  have len: "188 \<le> length (pr_buf pr1)"
    using arg_cong [OF ready(2), of length] c1(1) by (simp add: clean_state_def good_packet_def)
  then have ne: "pr_buf pr1 \<noteq> []" by auto
  have losses: "pr_syncLosses pr1 = pr_syncLosses pr" using fill_reads_on [OF f] by (simp add: reads_on_def)
  let ?pr' = "pr1\<lparr>pr_stride := PacketSize, pr_buf := drop 188 (pr_buf pr1)\<rparr>"
  have consume: "consumePacketInto 0 PacketSize (pr1\<lparr>pr_stride := PacketSize\<rparr>) = (Inr p, ?pr')"
    using len ready(2) by (simp add: consumePacketInto_def Let_def packet_sizes)
  have same: "pr1\<lparr>pr_stride := PacketSize\<rparr> = pr1" if "pr_stride pr1 \<noteq> 0"
    using c1(1) that by (cases pr1) (simp add: clean_state_def)
  have detect: "detectPacket pr1 = (Some (0, PacketSize), pr1)"
    unfolding detectPacket_def using ne ready(1) by (subst detect_loop.simps) simp
  have "next_loop pr = (Inr p, ?pr')"
  proof (cases "pr_stride pr1 = 0")
    case True
    then show ?thesis
      using f ne detect consume by (subst next_loop.simps) (auto simp: keep_stride_def)
  next
    case False
    then have "pr_stride pr1 = PacketSize" using c1(1) by (simp add: clean_state_def)
    then have "keep_stride pr1 = (True, pr1)" using ready(1) by (simp add: keep_stride_def packet_sizes)
    moreover have "consumePacketInto 0 (pr_stride pr1) pr1 = (Inr p, ?pr')"
      using consume same [OF False] \<open>pr_stride pr1 = PacketSize\<close> by simp
    ultimately show ?thesis using f ne by (subst next_loop.simps) auto
  qed
  moreover have "clean_state ?pr' ps" using c1(1) ready(3) by (simp add: clean_state_def)
  ultimately show thesis using that losses by simp
qed

lemma next_loop_end:
  assumes "clean_state pr []"
  shows "fst (next_loop pr) = Inl (Err (SourceError EOF)) \<and> pr_syncLosses (snd (next_loop pr)) = pr_syncLosses pr"
proof -
  let ?pr = "fill_loop minDetectBytes pr"
  note c = fill_loop_clean [OF assms, of minDetectBytes]
  have "pr_buf ?pr = []" using c by (auto simp: clean_state_def)
  moreover from this have "pr_readErr ?pr = Some EOF" using c by (auto simp: minDetectBytes_def packet_sizes)
  moreover have "pr_syncLosses ?pr = pr_syncLosses pr" using fill_loop_reads_on [of pr] by (simp add: reads_on_def)
  ultimately show ?thesis by (subst (1 2) next_loop.simps) (simp add: fill_def Let_def)
qed

text \<open>The results of \<open>n\<close> successive calls of \<open>Next\<close>, and the final state.\<close>

fun next_calls :: "nat \<Rightarrow> packet_reader \<Rightarrow> (packet_error fault + bytes) list \<times> packet_reader" where
  "next_calls 0 pr = ([], pr)"
| "next_calls (Suc n) pr =
     (case Next pr of (res, pr') \<Rightarrow> (case next_calls n pr' of (rs, pr'') \<Rightarrow> (res # rs, pr'')))"

lemma next_calls_clean:
  "clean_state pr ps \<Longrightarrow> \<exists>pr'. next_calls (length ps + 1) pr =
     (map Inr ps @ [Inl (Err (SourceError EOF))], pr') \<and> pr_syncLosses pr' = pr_syncLosses pr"
proof (induction ps arbitrary: pr)
  case Nil
  then show ?case
    using next_loop_end [OF Nil] by (auto simp: Next_def NextInto_def split: prod.splits)
next
  case (Cons p ps)
  obtain pr1 where n: "next_loop pr = (Inr p, pr1)" "clean_state pr1 ps" "pr_syncLosses pr1 = pr_syncLosses pr"
    by (rule next_loop_clean [OF Cons.prems])
  from Cons.IH [OF n(2)] n show ?case by (auto simp: Next_def NextInto_def)
qed

subsection \<open>Properties\<close>

text \<open>
  A read of no bytes without an error, which \<open>io.Reader\<close> allows and which says nothing about the
  end of the stream, is reported as the end of the stream when nothing is buffered.
\<close>

lemma Next_empty_read_is_EOF:
  "fst (Next (NewPacketReader (([], None) # rest))) = Inl (Err (SourceError EOF))"
proof -
  have "fill minDetectBytes (NewPacketReader (([], None) # rest)) = (None, NewPacketReader rest)"
    unfolding fill_def
    by (subst fill_loop.simps) (simp add: NewPacketReader_def minDetectBytes_def packet_sizes Let_def)
  then show ?thesis
    by (simp add: Next_def NextInto_def next_loop.simps [of "NewPacketReader (([], None) # rest)"])
      (simp add: NewPacketReader_def)
qed

text \<open>
  C3. On a clean stream nothing is lost: however the source cuts its bytes into reads, the
  packets come out one by one in order, then \<open>io.EOF\<close>, and no sync loss is counted.
\<close>

theorem PacketReader_delivers:
  assumes "list_all good_packet ps" "clean_source r" "reader_bytes r = concat ps"
  shows "\<exists>pr'. next_calls (length ps + 1) (NewPacketReader r) =
    (map Inr ps @ [Inl (Err (SourceError EOF))], pr') \<and> SyncLosses pr' = 0"
  using next_calls_clean [of "NewPacketReader r" ps] assms
  by (auto simp: clean_state_def NewPacketReader_def SyncLosses_def)

definition demo_packet :: "byte \<Rightarrow> bytes" where
  "demo_packet b = 0x47 # replicate 187 b"

theorem PacketReader_delivers_witness:
  "\<exists>pr'. next_calls 3 (NewPacketReader [(take 100 (demo_packet 1), None),
       (drop 100 (demo_packet 1) @ demo_packet 2, None)]) =
    ([Inr (demo_packet 1), Inr (demo_packet 2), Inl (Err (SourceError EOF))], pr') \<and> SyncLosses pr' = 0"
proof -
  have "list_all good_packet [demo_packet 1, demo_packet 2]"
    by (simp add: good_packet_def demo_packet_def SyncByte_def)
  moreover have "clean_source [(take 100 (demo_packet 1), None), (drop 100 (demo_packet 1) @ demo_packet 2, None)]"
    by (simp add: demo_packet_def)
  moreover have "reader_bytes [(take 100 (demo_packet 1), None), (drop 100 (demo_packet 1) @ demo_packet 2, None)] =
      concat [demo_packet 1, demo_packet 2]"
    by (simp add: append_assoc [symmetric] del: append_assoc)
  ultimately have "\<exists>pr'. next_calls (length [demo_packet 1, demo_packet 2] + 1)
      (NewPacketReader [(take 100 (demo_packet 1), None), (drop 100 (demo_packet 1) @ demo_packet 2, None)]) =
    (map Inr [demo_packet 1, demo_packet 2] @ [Inl (Err (SourceError EOF))], pr') \<and> SyncLosses pr' = 0"
    by (rule PacketReader_delivers)
  then show ?thesis by (simp del: next_calls.simps add: numeral_3_eq_3)
qed



end
