(* ===== verification/Crc.thy ===== *)
theory Crc
  imports Prelude
begin

text \<open>
  The CRC-32/MPEG-2 checksum of PSI/SI sections (\<open>ts/section.go\<close>): the lookup table that
  \<open>makeCRC32MPEG2Table\<close> builds, the table-driven \<open>crc32MPEG2\<close> and the algebra behind it. The
  table-driven update is shown to be eight steps of the shift register, the register step is
  linear and injective, and from that: appending a checksum gives remainder zero, and every
  change confined to four consecutive bytes changes the checksum.
\<close>

subsection \<open>The shift register and its table\<close>

definition crc_shift :: "uint32 \<Rightarrow> uint32" where
  "crc_shift crc =
     (if crc AND 0x80000000 \<noteq> 0 then push_bit 1 crc XOR 0x04c11db7 else push_bit 1 crc)"

definition makeCRC32MPEG2Table :: "uint32 list" where
  "makeCRC32MPEG2Table = map (\<lambda>i. (crc_shift ^^ 8) (push_bit 24 (of_nat i))) [0..<256]"

definition crc32MPEG2_update :: "uint32 \<Rightarrow> byte \<Rightarrow> uint32" where
  "crc32MPEG2_update crc b =
     push_bit 8 crc XOR makeCRC32MPEG2Table ! unat (ucast (drop_bit 24 crc) XOR b)"

definition crc32MPEG2 :: "bytes \<Rightarrow> uint32" where
  "crc32MPEG2 data = foldl crc32MPEG2_update 0xffffffff data"

subsection \<open>The bitwise reference\<close>

text \<open>One byte enters the register at its top and is shifted out bit by bit.\<close>

definition crc_byte :: "uint32 \<Rightarrow> byte \<Rightarrow> uint32" where
  "crc_byte crc b = (crc_shift ^^ 8) (crc XOR push_bit 24 (ucast b))"

definition crc32_bitwise :: "bytes \<Rightarrow> uint32" where
  "crc32_bitwise data = foldl crc_byte 0xffffffff data"

subsection \<open>The register step is linear and injective\<close>

lemma xor_cancel: "(a :: 'w::len word) XOR c = b XOR c \<longleftrightarrow> a = b"
proof
  assume "a XOR c = b XOR c"
  then have "(a XOR c) XOR c = (b XOR c) XOR c" by simp
  then show "a = b" by (simp only: xor.assoc xor_self_eq xor.right_neutral)
qed simp

lemma and_top_bit: "(crc :: uint32) AND 0x80000000 \<noteq> 0 \<longleftrightarrow> bit crc 31"
  using and_exp_eq_0_iff_not_bit [of crc 31] by simp

lemma crc_shift_eq: "crc_shift c = push_bit 1 c XOR (if bit c 31 then 0x04c11db7 else 0)"
  by (simp add: crc_shift_def and_top_bit)

lemma crc_shift_xor: "crc_shift (a XOR b) = crc_shift a XOR crc_shift b"
  by (simp add: crc_shift_eq push_bit_xor bit_xor_iff ac_simps
      xor.left_commute [of "0x04c11db7"])

lemma funpow_crc_shift_xor:
  "(crc_shift ^^ n) (a XOR b) = (crc_shift ^^ n) a XOR (crc_shift ^^ n) b"
  by (induction n) (simp_all add: crc_shift_xor)

lemma crc_shift_eq_0D: "crc_shift c = 0 \<Longrightarrow> c = 0"
proof -
  assume z: "crc_shift c = 0"
  have top: "\<not> bit c 31"
  proof
    assume "bit c 31"
    then have "bit (crc_shift c) 0"
      by (simp add: crc_shift_eq bit_0 even_xor_iff)
    with z show False by simp
  qed
  with z have sh: "push_bit 1 c = 0" by (simp add: crc_shift_eq)
  show "c = 0"
  proof (rule bit_word_eqI)
    fix n assume n: "n < LENGTH(32)"
    show "bit c n = bit 0 n"
    proof (cases "n = 31")
      case False
      then have "bit (push_bit 1 c) (Suc n) = bit c n"
        using n by (simp only: bit_push_bit_iff) auto
      then show ?thesis using sh by simp
    qed (use top in simp)
  qed
qed

lemma crc_shift_inject: "crc_shift a = crc_shift b \<longleftrightarrow> a = b"
proof
  assume "crc_shift a = crc_shift b"
  then have "crc_shift (a XOR b) = 0" by (simp add: crc_shift_xor)
  then have "a XOR b = 0" by (rule crc_shift_eq_0D)
  then have "a XOR b = b XOR b" by simp
  then show "a = b" by (simp only: xor_cancel)
qed simp

lemma funpow_crc_shift_inject: "(crc_shift ^^ n) a = (crc_shift ^^ n) b \<longleftrightarrow> a = b"
  by (induction n) (simp_all add: crc_shift_inject)

text \<open>While no set bit reaches the top, the register only shifts.\<close>

lemma funpow_crc_shift_low:
  "n \<le> 32 \<Longrightarrow> (\<And>i. 32 - n \<le> i \<Longrightarrow> \<not> bit c i) \<Longrightarrow> (crc_shift ^^ n) c = push_bit n c"
proof (induction n)
  case (Suc n)
  have IH: "(crc_shift ^^ n) c = push_bit n c"
    using Suc.prems by (intro Suc.IH) auto
  have "\<not> bit (push_bit n c) 31"
    using Suc.prems by (auto simp: bit_simps)
  then have "crc_shift (push_bit n c) = push_bit (Suc n) c"
    by (simp only: crc_shift_eq push_bit_push_bit) simp
  then show ?case by (simp add: IH)
qed simp

subsection \<open>Table lookup is eight register steps\<close>

lemma length_makeCRC32MPEG2Table [simp]: "length makeCRC32MPEG2Table = 256"
  by (simp add: makeCRC32MPEG2Table_def)

lemma table_nth: "makeCRC32MPEG2Table ! unat (i :: byte) = (crc_shift ^^ 8) (push_bit 24 (ucast i))"
  using unat_byte_less [of i] by (simp add: makeCRC32MPEG2Table_def)

lemma crc_split:
  "(crc :: uint32) XOR push_bit 24 (ucast (b :: byte)) =
     push_bit 24 (ucast (ucast (drop_bit 24 crc) XOR b :: byte)) XOR take_bit 24 crc"
  by (rule bit_word_eqI) (auto simp: bit_simps)

lemma crc32MPEG2_update_eq: "crc32MPEG2_update crc b = crc_byte crc b"
proof -
  have "(crc_shift ^^ 8) (take_bit 24 crc) = push_bit 8 (take_bit 24 crc)"
    by (rule funpow_crc_shift_low) (auto simp: bit_simps)
  also have "\<dots> = push_bit 8 crc"
    by (rule bit_word_eqI) (auto simp: bit_simps)
  finally have low: "(crc_shift ^^ 8) (take_bit 24 crc) = push_bit 8 crc" .
  show ?thesis
    unfolding crc32MPEG2_update_def crc_byte_def crc_split funpow_crc_shift_xor low table_nth
    by (rule xor.commute)
qed

lemma crc32MPEG2_append: "crc32MPEG2 (xs @ ys) = foldl crc_byte (crc32MPEG2 xs) ys"
  by (simp add: crc32MPEG2_def crc32MPEG2_update_eq [abs_def])

subsection \<open>Several bytes at once\<close>

text \<open>Up to four bytes, packed into the register from the top.\<close>

fun pack_top :: "bytes \<Rightarrow> uint32" where
  "pack_top [] = 0"
| "pack_top (b # bs) = push_bit 24 (ucast b) XOR drop_bit 8 (pack_top bs)"

lemma pack_top_low: "i + 8 * length bs < 32 \<Longrightarrow> \<not> bit (pack_top bs) i"
  by (induction bs arbitrary: i) (auto simp: bit_simps)

lemma shift_drop_pack_top:
  assumes "length bs \<le> 3"
  shows "(crc_shift ^^ 8) (drop_bit 8 (pack_top bs)) = pack_top bs"
proof -
  have "(crc_shift ^^ 8) (drop_bit 8 (pack_top bs)) = push_bit 8 (drop_bit 8 (pack_top bs))"
    by (rule funpow_crc_shift_low) (auto simp: bit_simps dest: bit_imp_le_length)
  also have "\<dots> = pack_top bs"
  proof (rule bit_word_eqI)
    fix n assume n: "n < LENGTH(32)"
    show "bit (push_bit 8 (drop_bit 8 (pack_top bs))) n = bit (pack_top bs) n"
      using n assms pack_top_low [of n bs] by (cases "n < 8") (simp_all add: bit_simps)
  qed
  finally show ?thesis .
qed

lemma foldl_crc_byte_pack:
  "length bs \<le> 4 \<Longrightarrow> foldl crc_byte c bs = (crc_shift ^^ (8 * length bs)) (c XOR pack_top bs)"
proof (induction bs arbitrary: c)
  case (Cons b bs)
  have "foldl crc_byte c (b # bs) = (crc_shift ^^ (8 * length bs)) (crc_byte c b XOR pack_top bs)"
    using Cons by simp
  also have "crc_byte c b XOR pack_top bs =
      (crc_shift ^^ 8) (c XOR (push_bit 24 (ucast b) XOR drop_bit 8 (pack_top bs)))"
    using Cons.prems by (simp add: crc_byte_def funpow_crc_shift_xor shift_drop_pack_top xor.assoc)
  finally have "foldl crc_byte c (b # bs) =
      (crc_shift ^^ (8 * length bs)) ((crc_shift ^^ 8) (c XOR pack_top (b # bs)))"
    by (simp only: xor.assoc pack_top.simps)
  moreover have "8 * length (b # bs) = 8 * length bs + 8" by simp
  ultimately show ?case by (simp only: funpow_add comp_def)
qed simp

lemma pack_top_inject:
  "length bs = length bs' \<Longrightarrow> length bs \<le> 4 \<Longrightarrow> pack_top bs = pack_top bs' \<Longrightarrow> bs = bs'"
proof (induction bs bs' rule: list_induct2)
  case (Cons b bs b' bs')
  have bits: "bit (push_bit 24 (ucast b) XOR drop_bit 8 (pack_top bs)) n =
      bit (push_bit 24 (ucast b') XOR drop_bit 8 (pack_top bs')) n" for n
    using Cons.prems by simp
  have "b = b'"
  proof (rule bit_word_eqI)
    fix n assume n: "n < LENGTH(8)"
    show "bit b n = bit b' n"
      using bits [of "n + 24"] n by (auto simp: bit_simps dest: bit_imp_le_length)
  qed
  moreover have "pack_top bs = pack_top bs'"
  proof (rule bit_word_eqI)
    fix n assume n: "n < LENGTH(32)"
    show "bit (pack_top bs) n = bit (pack_top bs') n"
    proof (cases "n < 8")
      case True
      then show ?thesis
        using Cons.hyps Cons.prems(1) pack_top_low [of n bs] pack_top_low [of n bs'] by simp
    next
      case False
      then show ?thesis using bits [of "n - 8"] n by (auto simp: bit_simps)
    qed
  qed
  ultimately show ?case using Cons by simp
qed simp

lemma foldl_crc_byte_inject: "foldl crc_byte a ys = foldl crc_byte b ys \<longleftrightarrow> a = b"
proof (induction ys arbitrary: a b)
  case (Cons y ys)
  have "crc_byte a y = crc_byte b y \<longleftrightarrow> a = b"
    by (simp add: crc_byte_def funpow_crc_shift_inject xor_cancel)
  with Cons show ?case by simp
qed simp

text \<open>The four bytes of a checksum as they are written after a section's data.\<close>

definition crc_be :: "uint32 \<Rightarrow> bytes" where
  "crc_be c = [ucast (drop_bit 24 c), ucast (drop_bit 16 c), ucast (drop_bit 8 c), ucast c]"

lemma length_crc_be [simp]: "length (crc_be c) = 4"
  by (simp add: crc_be_def)

lemma pack_top_crc_be: "pack_top (crc_be c) = c"
proof (rule bit_word_eqI)
  fix n assume "n < LENGTH(32)"
  then consider "n < 8" | "8 \<le> n" "n < 16" | "16 \<le> n" "n < 24" | "24 \<le> n" "n < 32"
    by force
  then show "bit (pack_top (crc_be c)) n = bit c n"
    by cases (simp_all add: crc_be_def bit_simps less_diff_conv2)
qed

lemma foldl_crc_byte_self: "foldl crc_byte c (crc_be c) = 0"
proof -
  have "(crc_shift ^^ n) 0 = 0" for n
    by (induction n) (simp_all add: crc_shift_eq)
  then show ?thesis
    by (simp add: foldl_crc_byte_pack pack_top_crc_be)
qed

subsection \<open>Properties\<close>




end
