(* ===== verification/Section.thy ===== *)
theory Section
  imports Crc Packet
begin

text \<open>
  PSI/SI sections (\<open>ts/section.go\<close>, \<open>ts/psi.go\<close>): the section accessors, the CRC check, the
  \<open>SectionAssembler\<close> that puts sections together from the packets of one PID, the section
  header, and \<open>packetizeSection\<close> of \<open>ts/demux.go\<close>, which cuts a section into packets again.
\<close>

subsection \<open>Section accessors and the CRC check\<close>

datatype ts_error =
    ErrInvalidSection
  | UnexpectedTag byte
  | InvalidPMTPID uint16
  | DecodeError

definition TableID :: "bytes \<Rightarrow> ts_error fault + byte" where
  "TableID s = idx s 0"

definition SectionSyntaxIndicator :: "bytes \<Rightarrow> ts_error fault + bool" where
  "SectionSyntaxIndicator s = rbind (idx s 1) (\<lambda>b. Inr (b AND 0x80 \<noteq> 0))"

definition SectionLength :: "bytes \<Rightarrow> ts_error fault + int" where
  "SectionLength s =
     rbind (idx s 1) (\<lambda>b1. rbind (idx s 2) (\<lambda>b2. Inr (uint (be16 (b1 AND 0x0f) b2))))"

definition TotalLength :: "bytes \<Rightarrow> ts_error fault + int" where
  "TotalLength s = rbind (SectionLength s) (\<lambda>n. Inr (3 + n))"

definition ValidateCRC :: "bytes \<Rightarrow> ts_error fault + bool" where
  "ValidateCRC s =
     (if glen s < 4 then Inr False
      else rbind (TotalLength s) (\<lambda>total.
        if total > glen s then Inr False
        else rbind (gslice s 0 total) (\<lambda>d. Inr (crc32MPEG2 d = 0))))"

text \<open>The same facts about a section as plain functions, for statements and proofs.\<close>

definition total_len :: "bytes \<Rightarrow> int" where
  "total_len s = 3 + uint (be16 (s ! 1 AND 0x0f) (s ! 2))"

definition crc_ok :: "bytes \<Rightarrow> bool" where
  "crc_ok s \<longleftrightarrow> 4 \<le> glen s \<and> total_len s \<le> glen s \<and> crc32MPEG2 (take (nat (total_len s)) s) = 0"

lemma uint_be16_mask: "uint (be16 (b AND 0x0f) c) \<le> 4095"
proof -
  have "unat (be16 (b AND 0x0f) c) \<le> 4095"
    using and_le_mask [of b "0x0f"] unat_byte_less [of c] by (simp add: unat_be16)
  then show ?thesis by (metis int_ops(3) of_nat_le_iff uint_nat)
qed

lemma total_len_bounds: "3 \<le> total_len s" "total_len s \<le> 4098"
  using uint_be16_mask [of "s ! 1" "s ! 2"] by (simp_all add: total_len_def)

lemma total_len_pos [simp]: "0 < total_len s" "\<not> total_len s < 3"
  using total_len_bounds [of s] by simp_all

lemma TotalLength_eq: "3 \<le> length s \<Longrightarrow> TotalLength s = Inr (total_len s)"
  by (simp add: TotalLength_def SectionLength_def total_len_def)

lemma ValidateCRC_eq [simp]: "ValidateCRC s = Inr (crc_ok s)"
  using total_len_bounds [of s] by (auto simp: ValidateCRC_def crc_ok_def TotalLength_eq)

subsection \<open>SectionAssembler\<close>

record section_assembler =
  sa_pid :: uint16
  sa_buffer :: bytes
  sa_lastCounter :: byte
  sa_expecting :: bool
  sa_pending :: "bytes list"

definition NewSectionAssembler :: "uint16 \<Rightarrow> section_assembler" where
  "NewSectionAssembler pid =
     \<lparr>sa_pid = pid, sa_buffer = [], sa_lastCounter = 0, sa_expecting = False, sa_pending = []\<rparr>"

function consumePayload ::
  "section_assembler \<Rightarrow> bytes \<Rightarrow> bytes list \<Rightarrow> ts_error fault + (bytes list \<times> section_assembler)"
where
  "consumePayload sa payload sections =
     (if length payload \<ge> 3 \<and> payload ! 0 \<noteq> 0xff then
        let total = total_len payload
        in if total < 3 then Inr (sections, sa)
           else if glen payload < total then
             Inr (sections, sa\<lparr>sa_buffer := payload, sa_expecting := True\<rparr>)
           else
             let section = take (nat total) payload
             in rbind (ValidateCRC section) (\<lambda>ok.
                  consumePayload sa (drop (nat total) payload)
                    (if ok then sections @ [section] else sections))
      else Inr (sections, sa))"
  by pat_completeness auto
termination
  by (relation "measure (\<lambda>(sa, payload, sections). length payload)")
    (auto simp: Let_def intro!: diff_less)

declare consumePayload.simps [simp del]

function completeSections ::
  "section_assembler \<Rightarrow> bool \<Rightarrow> bytes list \<Rightarrow> ts_error fault + (bytes list \<times> section_assembler)"
where
  "completeSections sa keepRemainder sections =
     (if length (sa_buffer sa) \<ge> 3 then
        let total = total_len (sa_buffer sa)
        in if glen (sa_buffer sa) < total then Inr (sections, sa\<lparr>sa_expecting := True\<rparr>)
           else
             let section = take (nat total) (sa_buffer sa)
             in rbind (ValidateCRC section) (\<lambda>ok.
                  let sections' = (if ok then sections @ [section] else sections);
                      sa' = sa\<lparr>sa_buffer := drop (nat total) (sa_buffer sa)\<rparr>
                  in if \<not> keepRemainder \<and> length (sa_buffer sa') = 0
                     then Inr (sections', sa'\<lparr>sa_expecting := False\<rparr>)
                     else completeSections sa' keepRemainder sections')
      else if length (sa_buffer sa) = 0 then Inr (sections, sa\<lparr>sa_expecting := False\<rparr>)
      else Inr (sections, sa))"
  by pat_completeness auto
termination
  by (relation "measure (\<lambda>(sa, keep, sections). length (sa_buffer sa))")
    (auto simp: Let_def intro!: diff_less)

declare completeSections.simps [simp del]

text \<open>The branch of \<open>FeedAll\<close> for a packet that starts a section (lines 76 to 94).\<close>

definition feed_unit_start ::
  "section_assembler \<Rightarrow> bytes \<Rightarrow> ts_error fault + (bytes list \<times> section_assembler)" where
  "feed_unit_start sa payload =
     rbind (idx payload 0) (\<lambda>b0. rbind (gslice payload 1 (glen payload)) (\<lambda>payload.
       let pointer = uint b0
       in if pointer > glen payload
          then Inr ([], sa\<lparr>sa_buffer := [], sa_expecting := False\<rparr>)
          else
            rbind (if length (sa_buffer sa) > 0 \<and> pointer > 0
                   then rbind (gslice payload 0 pointer) (\<lambda>pre.
                     completeSections (sa\<lparr>sa_buffer := sa_buffer sa @ pre\<rparr>) False [])
                   else Inr ([], sa)) (\<lambda>(sections, sa).
            rbind (gslice payload pointer (glen payload)) (\<lambda>rest.
            rbind (consumePayload (sa\<lparr>sa_buffer := [], sa_expecting := False\<rparr>) rest [])
              (\<lambda>(found, sa). Inr (sections @ found, sa))))))"

definition FeedAll ::
  "section_assembler \<Rightarrow> bytes \<Rightarrow> ts_error fault + (bytes list \<times> section_assembler)" where
  "FeedAll sa p =
     rbind (PID p) (\<lambda>pid. if pid \<noteq> sa_pid sa then Inr ([], sa) else
     rbind (TransportErrorIndicator p) (\<lambda>tei. if tei then Inr ([], sa) else
     rbind (HasPayload p) (\<lambda>hp. if \<not> hp then Inr ([], sa) else
     rbind (Payload p) (\<lambda>payload. if glen payload = 0 then Inr ([], sa) else
     rbind (ContinuityCounter p) (\<lambda>counter.
       let sa = (if sa_expecting sa \<and> counter \<noteq> (sa_lastCounter sa + 1) AND 0x0f
                 then sa\<lparr>sa_buffer := [], sa_expecting := False\<rparr> else sa);
           sa = sa\<lparr>sa_lastCounter := counter\<rparr>
       in rbind (PayloadUnitStartIndicator p) (\<lambda>pusi.
         if pusi then feed_unit_start sa payload
         else if \<not> sa_expecting sa then Inr ([], sa)
         else completeSections (sa\<lparr>sa_buffer := sa_buffer sa @ payload\<rparr>) False []))))))"

definition Feed ::
  "section_assembler \<Rightarrow> bytes \<Rightarrow> ts_error fault + (bytes option \<times> section_assembler)" where
  "Feed sa p =
     (case sa_pending sa of
        section # rest \<Rightarrow> Inr (Some section, sa\<lparr>sa_pending := rest\<rparr>)
      | [] \<Rightarrow>
          rbind (FeedAll sa p) (\<lambda>(sections, sa).
            case sections of
              [] \<Rightarrow> Inr (None, sa)
            | section # later \<Rightarrow>
                Inr (Some section,
                  if length sections > 1 then sa\<lparr>sa_pending := sa_pending sa @ later\<rparr> else sa)))"


subsection \<open>What the assembler returns\<close>

text \<open>One round of each loop, as conditional equations.\<close>

lemma consumePayload_stop:
  "\<not> (length payload \<ge> 3 \<and> payload ! 0 \<noteq> 0xff) \<Longrightarrow> consumePayload sa payload secs = Inr (secs, sa)"
  by (subst consumePayload.simps) (simp only: if_False)

lemma consumePayload_wait:
  "length payload \<ge> 3 \<Longrightarrow> payload ! 0 \<noteq> 0xff \<Longrightarrow> glen payload < total_len payload \<Longrightarrow>
   consumePayload sa payload secs =
     Inr (secs, sa\<lparr>sa_buffer := payload, sa_expecting := True\<rparr>)"
  by (subst consumePayload.simps) simp

lemma consumePayload_step:
  "length payload \<ge> 3 \<Longrightarrow> payload ! 0 \<noteq> 0xff \<Longrightarrow> total_len payload \<le> glen payload \<Longrightarrow>
   consumePayload sa payload secs =
     consumePayload sa (drop (nat (total_len payload)) payload)
       (if crc_ok (take (nat (total_len payload)) payload)
        then secs @ [take (nat (total_len payload)) payload] else secs)"
  by (subst consumePayload.simps) (simp add: Let_def)

lemma completeSections_short:
  "length (sa_buffer sa) < 3 \<Longrightarrow>
   completeSections sa keep secs =
     Inr (secs, if sa_buffer sa = [] then sa\<lparr>sa_expecting := False\<rparr> else sa)"
  by (subst completeSections.simps) simp

lemma completeSections_wait:
  "length (sa_buffer sa) \<ge> 3 \<Longrightarrow> glen (sa_buffer sa) < total_len (sa_buffer sa) \<Longrightarrow>
   completeSections sa keep secs = Inr (secs, sa\<lparr>sa_expecting := True\<rparr>)"
  by (subst completeSections.simps) simp

lemma completeSections_step:
  fixes sa :: section_assembler and secs :: "bytes list"
  assumes "length (sa_buffer sa) \<ge> 3" "total_len (sa_buffer sa) \<le> glen (sa_buffer sa)"
  defines "sec \<equiv> take (nat (total_len (sa_buffer sa))) (sa_buffer sa)"
    and "sa' \<equiv> sa\<lparr>sa_buffer := drop (nat (total_len (sa_buffer sa))) (sa_buffer sa)\<rparr>"
  defines "secs' \<equiv> if crc_ok sec then secs @ [sec] else secs"
  shows "completeSections sa keep secs =
     (if \<not> keep \<and> length (sa_buffer sa') = 0 then Inr (secs', sa'\<lparr>sa_expecting := False\<rparr>)
      else completeSections sa' keep secs')"
  using assms(1,2)
  by (subst completeSections.simps) (simp add: Let_def sec_def sa'_def secs'_def)

text \<open>A complete section: exactly as long as its length field says, with a correct CRC.\<close>

definition complete_section :: "bytes \<Rightarrow> bool" where
  "complete_section s \<longleftrightarrow> crc_ok s \<and> glen s = total_len s"

lemma total_len_take: "3 \<le> n \<Longrightarrow> 3 \<le> length s \<Longrightarrow> total_len (take n s) = total_len s"
  by (simp add: total_len_def)

lemma complete_take:
  assumes "3 \<le> length s" "total_len s \<le> glen s" "crc_ok (take (nat (total_len s)) s)"
  shows "complete_section (take (nat (total_len s)) s)"
proof -
  have "3 \<le> nat (total_len s)" using total_len_bounds [of s] by linarith
  then have "total_len (take (nat (total_len s)) s) = total_len s"
    using assms(1) by (rule total_len_take)
  moreover have "glen (take (nat (total_len s)) s) = total_len s"
    using assms(2) total_len_bounds [of s] by simp
  ultimately show ?thesis using assms(3) by (simp add: complete_section_def)
qed

text \<open>A section body followed by its CRC, most significant byte first, is complete.\<close>

lemma complete_section_append_crc:
  assumes "3 \<le> length body" "total_len body = glen body + 4"
  shows "complete_section (body @ crc_be (crc32MPEG2 body))"
proof -
  have "total_len (body @ crc_be (crc32MPEG2 body)) = glen body + 4"
    using assms by (simp add: total_len_def nth_append)
  moreover have "crc32MPEG2 (body @ crc_be (crc32MPEG2 body)) = 0"
    by (simp add: crc32MPEG2_append foldl_crc_byte_self)
  ultimately show ?thesis
    by (simp add: complete_section_def crc_ok_def)
qed

definition sections_ok :: "section_assembler \<Rightarrow> bytes list \<times> section_assembler \<Rightarrow> bool" where
  "sections_ok sa = (\<lambda>(out, sa'). (\<forall>s \<in> set out. complete_section s) \<and> sa_pid sa' = sa_pid sa)"

lemma consumePayload_returns:
  "(\<forall>s \<in> set sections. complete_section s) \<Longrightarrow>
   returns (consumePayload sa payload sections) (sections_ok sa)"
proof (induction sa payload sections rule: consumePayload.induct)
  case (1 sa payload sections)
  let ?sec = "take (nat (total_len payload)) payload"
  let ?next = "if crc_ok ?sec then sections @ [?sec] else sections"
  have IH: "returns (consumePayload sa (drop (nat (total_len payload)) payload) ?next) (sections_ok sa)"
    if c: "length payload \<ge> 3 \<and> payload ! 0 \<noteq> 0xff" "\<not> glen payload < total_len payload"
  proof -
    have "\<forall>s \<in> set ?next. complete_section s" using "1.prems" c by (auto simp: complete_take)
    then show ?thesis using "1.IH" [OF c(1) refl _ c(2) refl ValidateCRC_eq] by simp
  qed
  show ?case
    using "1.prems" IH
    by (subst consumePayload.simps) (auto simp: Let_def sections_ok_def)
qed

lemma completeSections_returns:
  "(\<forall>s \<in> set sections. complete_section s) \<Longrightarrow>
   returns (completeSections sa keep sections) (sections_ok sa)"
proof (induction sa keep sections rule: completeSections.induct)
  case (1 sa keep sections)
  let ?buf = "sa_buffer sa"
  let ?sec = "take (nat (total_len ?buf)) ?buf"
  let ?next = "if crc_ok ?sec then sections @ [?sec] else sections"
  let ?sa = "sa\<lparr>sa_buffer := drop (nat (total_len ?buf)) ?buf\<rparr>"
  have ok: "\<forall>s \<in> set ?next. complete_section s" if "length ?buf \<ge> 3" "\<not> glen ?buf < total_len ?buf"
    using "1.prems" that by (auto simp: complete_take)
  have IH: "returns (completeSections ?sa keep ?next) (sections_ok sa)"
    if c: "length ?buf \<ge> 3" "\<not> glen ?buf < total_len ?buf" "\<not> (\<not> keep \<and> length (sa_buffer ?sa) = 0)"
    using "1.IH" [OF c(1) refl c(2) refl ValidateCRC_eq refl refl c(3) ok [OF c(1,2)]]
    by (simp add: sections_ok_def)
  consider "length ?buf < 3" | "length ?buf \<ge> 3" "glen ?buf < total_len ?buf"
    | "length ?buf \<ge> 3" "total_len ?buf \<le> glen ?buf"
    by linarith
  then show ?case
  proof cases
    case 3
    note n = 3(2) [folded not_less]
    show ?thesis
    proof (cases "\<not> keep \<and> length (sa_buffer ?sa) = 0")
      case True
      show ?thesis
        unfolding completeSections_step [OF 3] if_P [OF True] returns_Inr
        using ok [OF 3(1) n] by (simp only: sections_ok_def) simp
    next
      case False
      show ?thesis
        unfolding completeSections_step [OF 3] if_not_P [OF False] by (rule IH [OF 3(1) n False])
    qed
  qed (use "1.prems" in \<open>simp_all add: completeSections_short completeSections_wait sections_ok_def\<close>)
qed

lemma feed_unit_start_returns:
  assumes "payload \<noteq> []"
  shows "returns (feed_unit_start sa payload) (sections_ok sa)"
proof -
  obtain b rest where p: "payload = b # rest" using assms by (cases payload) auto
  let ?pre = "if length (sa_buffer sa) > 0 \<and> uint b > 0
       then rbind (gslice rest 0 (uint b)) (\<lambda>pre.
         completeSections (sa\<lparr>sa_buffer := sa_buffer sa @ pre\<rparr>) False [])
       else Inr ([], sa)"
  show ?thesis
  proof (cases "uint b > glen rest")
    case True
    then show ?thesis by (simp add: feed_unit_start_def p sections_ok_def)
  next
    case False
    have "returns ?pre (sections_ok sa)"
      using False completeSections_returns [of "[]" "sa\<lparr>sa_buffer := sa_buffer sa @ take (unat b) rest\<rparr>" False]
      by (auto simp: sections_ok_def)
    then have "returns (rbind ?pre (\<lambda>(sections, sa).
          rbind (gslice rest (uint b) (glen rest)) (\<lambda>rest.
          rbind (consumePayload (sa\<lparr>sa_buffer := [], sa_expecting := False\<rparr>) rest [])
            (\<lambda>(found, sa). Inr (sections @ found, sa))))) (sections_ok sa)"
    proof (rule returns_rbind)
      fix r assume "sections_ok sa r"
      then obtain secs sa1 where r: "r = (secs, sa1)" "\<forall>s \<in> set secs. complete_section s"
        "sa_pid sa1 = sa_pid sa"
        by (cases r) (auto simp: sections_ok_def)
      have "returns (consumePayload (sa1\<lparr>sa_buffer := [], sa_expecting := False\<rparr>) (drop (unat b) rest) [])
          (sections_ok (sa1\<lparr>sa_buffer := [], sa_expecting := False\<rparr>))"
        by (rule consumePayload_returns) simp
      then show "returns (case r of (sections, sa) \<Rightarrow>
          rbind (gslice rest (uint b) (glen rest)) (\<lambda>rest.
          rbind (consumePayload (sa\<lparr>sa_buffer := [], sa_expecting := False\<rparr>) rest [])
            (\<lambda>(found, sa). Inr (sections @ found, sa)))) (sections_ok sa)"
        using False r by (auto simp: sections_ok_def returns_def)
    qed
    then show ?thesis using False by (simp add: feed_unit_start_def p Let_def)
  qed
qed

lemma FeedAll_returns:
  assumes "length p = 188"
  shows "returns (FeedAll sa p) (sections_ok sa)"
proof -
  obtain payload where pl: "(Payload p :: ts_error fault + bytes) = Inr payload"
    using Payload_eq [OF assms] by blast
  have start: "returns (feed_unit_start sa' payload) (sections_ok sa)"
    if "payload \<noteq> []" "sa_pid sa' = sa_pid sa" for sa'
    using feed_unit_start_returns [OF that(1), of sa'] that(2) by (simp add: sections_ok_def)
  have go_on: "returns (completeSections sa' False []) (sections_ok sa)"
    if "sa_pid sa' = sa_pid sa" for sa'
    using completeSections_returns [of "[]" sa' False] that by (simp add: sections_ok_def)
  show ?thesis
    unfolding FeedAll_def packet_accessors_ok [OF assms] pl rbind_Inr Let_def
    by (auto simp: start go_on intro: start go_on) (simp_all add: sections_ok_def)
qed

subsection \<open>Properties\<close>

text \<open>
  A packet handed to \<open>Feed\<close> while a section is pending is not looked at: the result and the new
  state are the same for every packet, so its payload is lost.
\<close>

lemma Feed_pending_ignores_packet:
  "sa_pending sa \<noteq> [] \<Longrightarrow>
   Feed sa p = Feed sa q \<and> map_sum id (sa_buffer \<circ> snd) (Feed sa p) = Inr (sa_buffer sa)"
  by (auto simp: Feed_def split: list.splits)

text \<open>
  A section that starts in the last one or two bytes of a payload is dropped: the loop ends
  without buffering them, and the continuation packets are then ignored.
\<close>

lemma consumePayload_loses_split_header:
  "length tail < 3 \<Longrightarrow> \<not> sa_expecting sa \<Longrightarrow> sa_buffer sa = [] \<Longrightarrow>
   \<exists>sa'. consumePayload sa tail secs = Inr (secs, sa') \<and> sa_buffer sa' = [] \<and> \<not> sa_expecting sa'"
  by (auto simp: consumePayload_stop)


definition null_packet :: bytes where
  "null_packet = [0x47, 0x1f, 0xff, 0x10] @ replicate 184 0xff"


end
