(* ===== verification/Descriptors.thy ===== *)
theory Descriptors
  imports Section
begin

text \<open>
  MPEG-2 descriptors (\<open>ts/descriptors.go\<close>, \<open>ts/parental.go\<close> and the descriptor parsers of
  \<open>ts/sdt.go\<close>, \<open>ts/bit.go\<close> and \<open>ts/nit.go\<close>). A descriptor is a byte slice: tag, length, data.
  The lenient \<open>ParseDescriptors\<close> stops at the first incomplete descriptor, the strict one
  rejects it; on what both accept they agree. Text fields go through \<open>DecodeARIBString\<close>, which
  is a parameter \<open>dec\<close> of the parsers that use it.
\<close>

subsection \<open>Accessors and descriptor loops\<close>

definition Tag :: "bytes \<Rightarrow> ts_error fault + byte" where
  "Tag d = idx d 0"

definition Length :: "bytes \<Rightarrow> ts_error fault + int" where
  "Length d = rbind (idx d 1) (\<lambda>b. Inr (uint b))"

definition Data :: "bytes \<Rightarrow> ts_error fault + bytes" where
  "Data d = rbind (Length d) (\<lambda>n. gslice d 2 (2 + n))"

function ParseDescriptors :: "bytes \<Rightarrow> bytes list" where
  "ParseDescriptors b =
     (if length b \<ge> 2 then
        let len = unat (b ! 1)
        in if length b < 2 + len then []
           else take (2 + len) b # ParseDescriptors (drop (2 + len) b)
      else [])"
  by pat_completeness auto
termination
  by (relation "measure length") auto

declare ParseDescriptors.simps [simp del]

function parseDescriptorsStrict :: "bytes \<Rightarrow> ts_error fault + bytes list" where
  "parseDescriptorsStrict b =
     (if length b > 0 then
        if length b < 2 then Inl (Err ErrInvalidSection)
        else if length b < 2 + unat (b ! 1) then Inl (Err ErrInvalidSection)
        else rbind (parseDescriptorsStrict (drop (2 + unat (b ! 1)) b)) (\<lambda>rest.
               Inr (take (2 + unat (b ! 1)) b # rest))
      else Inr [])"
  by pat_completeness auto
termination
  by (relation "measure length") auto

declare parseDescriptorsStrict.simps [simp del]

fun descriptorsLength :: "bytes list \<Rightarrow> int" where
  "descriptorsLength [] = 0"
| "descriptorsLength (d # ds) = glen d + descriptorsLength ds"

text \<open>A well-formed descriptor: exactly as long as its length byte says.\<close>

definition wf_desc :: "bytes \<Rightarrow> bool" where
  "wf_desc d \<longleftrightarrow> 2 \<le> length d \<and> length d = 2 + unat (d ! 1)"

lemma wf_desc_cases:
  assumes "wf_desc d"
  obtains t n body where "d = t # n # body" "length body = unat n"
  using assms by (cases d rule: list.exhaust; cases "tl d") (auto simp: wf_desc_def)

lemma wf_desc_accessors:
  assumes "wf_desc d"
  shows "Tag d = Inr (d ! 0)" "Length d = Inr (uint (d ! 1))" "Data d = Inr (drop 2 d)"
proof -
  obtain t n body where d: "d = t # n # body" "length body = unat n"
    using assms by (rule wf_desc_cases)
  then show "Tag d = Inr (d ! 0)" "Length d = Inr (uint (d ! 1))" "Data d = Inr (drop 2 d)"
    by (simp_all add: Tag_def Length_def Data_def)
qed

lemma wf_desc_take:
  "2 \<le> length b \<Longrightarrow> 2 + unat (b ! 1) \<le> length b \<Longrightarrow> wf_desc (take (2 + unat (b ! 1)) b)"
  by (simp add: wf_desc_def)

text \<open>The two outcomes of a round: a complete descriptor at the front, or not.\<close>

definition desc_ready :: "bytes \<Rightarrow> bool" where
  "desc_ready b \<longleftrightarrow> 2 \<le> length b \<and> 2 + unat (b ! 1) \<le> length b"

lemma ParseDescriptors_step:
  "desc_ready b \<Longrightarrow> ParseDescriptors b =
     take (2 + unat (b ! 1)) b # ParseDescriptors (drop (2 + unat (b ! 1)) b)"
  by (subst ParseDescriptors.simps) (simp add: Let_def desc_ready_def)

lemma ParseDescriptors_stop: "\<not> desc_ready b \<Longrightarrow> ParseDescriptors b = []"
  by (subst ParseDescriptors.simps) (auto simp: Let_def desc_ready_def)

lemma parseDescriptorsStrict_step:
  "desc_ready b \<Longrightarrow> parseDescriptorsStrict b =
     rbind (parseDescriptorsStrict (drop (2 + unat (b ! 1)) b)) (\<lambda>rest.
       Inr (take (2 + unat (b ! 1)) b # rest))"
  by (subst parseDescriptorsStrict.simps) (auto simp: desc_ready_def)

lemma parseDescriptorsStrict_stop:
  "\<not> desc_ready b \<Longrightarrow>
   parseDescriptorsStrict b = (if b = [] then Inr [] else Inl (Err ErrInvalidSection))"
  by (subst parseDescriptorsStrict.simps) (auto simp: desc_ready_def)

lemma desc_induct [case_names ready stop]:
  assumes "\<And>b. desc_ready b \<Longrightarrow> P (drop (2 + unat (b ! 1)) b) \<Longrightarrow> P b"
    and "\<And>b. \<not> desc_ready b \<Longrightarrow> P b"
  shows "P b"
proof (induction b rule: length_induct)
  case (1 b)
  show ?case
  proof (cases "desc_ready b")
    case True
    then have "length (drop (2 + unat (b ! 1)) b) < length b" by (auto simp: desc_ready_def)
    with 1 True show ?thesis by (blast intro: assms(1))
  qed (rule assms(2))
qed

lemma wf_desc_front: "desc_ready b \<Longrightarrow> wf_desc (take (2 + unat (b ! 1)) b)"
  unfolding desc_ready_def by (rule wf_desc_take) auto

lemma ParseDescriptors_wf: "d \<in> set (ParseDescriptors b) \<Longrightarrow> wf_desc d"
proof (induction b rule: desc_induct)
  case (ready b)
  then show ?case using wf_desc_front [of b] by (simp only: ParseDescriptors_step) auto
qed (simp add: ParseDescriptors_stop)

lemma ParseDescriptors_prefix: "\<exists>rest. b = concat (ParseDescriptors b) @ rest \<and> \<not> desc_ready rest"
proof (induction b rule: desc_induct)
  case (ready b)
  then obtain rest where
    "drop (2 + unat (b ! 1)) b = concat (ParseDescriptors (drop (2 + unat (b ! 1)) b)) @ rest"
    "\<not> desc_ready rest"
    by blast
  then show ?case
    unfolding ParseDescriptors_step [OF ready(1)]
    by (metis append_assoc append_take_drop_id concat.simps(2))
qed (auto simp: ParseDescriptors_stop)

lemma ParseDescriptors_Cons:
  "wf_desc d \<Longrightarrow> ParseDescriptors (d @ b) = d # ParseDescriptors b"
  by (subst ParseDescriptors.simps) (auto simp: Let_def wf_desc_def nth_append)

lemma parseDescriptorsStrict_Cons:
  "wf_desc d \<Longrightarrow> parseDescriptorsStrict (d @ b) =
     rbind (parseDescriptorsStrict b) (\<lambda>rest. Inr (d # rest))"
  by (subst parseDescriptorsStrict.simps) (auto simp: wf_desc_def nth_append)

lemma parseDescriptorsStrict_sound:
  "parseDescriptorsStrict b = Inr ds \<Longrightarrow> b = concat ds \<and> (\<forall>d \<in> set ds. wf_desc d)"
proof (induction b arbitrary: ds rule: desc_induct)
  case (ready b)
  from ready.prems obtain rest where
    r: "parseDescriptorsStrict (drop (2 + unat (b ! 1)) b) = Inr rest"
      "ds = take (2 + unat (b ! 1)) b # rest"
    by (auto simp only: parseDescriptorsStrict_step [OF ready(1)] rbind_eq_Inr_iff sum.inject)
  with ready.IH [OF r(1)] wf_desc_front [OF ready(1)] show ?case
    by (metis append_take_drop_id concat.simps(2) set_ConsD)
qed (auto simp: parseDescriptorsStrict_stop split: if_splits)

lemma parseDescriptorsStrict_Inr:
  "parseDescriptorsStrict b = Inr ds \<longleftrightarrow> b = concat ds \<and> (\<forall>d \<in> set ds. wf_desc d)"
proof
  assume "parseDescriptorsStrict b = Inr ds"
  then show "b = concat ds \<and> (\<forall>d \<in> set ds. wf_desc d)"
    by (rule parseDescriptorsStrict_sound)
next
  assume "b = concat ds \<and> (\<forall>d \<in> set ds. wf_desc d)"
  then have "b = concat ds" "\<forall>d \<in> set ds. wf_desc d" by auto
  then show "parseDescriptorsStrict b = Inr ds"
  proof (induction ds arbitrary: b)
    case Nil
    then show ?case by (subst parseDescriptorsStrict.simps) simp
  next
    case (Cons d ds)
    then show ?case by (simp add: parseDescriptorsStrict_Cons)
  qed
qed

lemma ParseDescriptors_concat: "\<forall>d \<in> set ds. wf_desc d \<Longrightarrow> ParseDescriptors (concat ds) = ds"
proof (induction ds)
  case Nil
  then show ?case by (subst ParseDescriptors.simps) simp
qed (simp add: ParseDescriptors_Cons)

lemma parseDescriptorsStrict_safe: "safe (parseDescriptorsStrict b)"
  by (induction b rule: desc_induct)
    (auto simp: parseDescriptorsStrict_step parseDescriptorsStrict_stop
      simp del: add_2_eq_Suc intro: safe_rbind)

lemma descriptorsLength_eq: "descriptorsLength ds = glen (concat ds)"
  by (induction ds) auto

subsection \<open>Parsers of single descriptors\<close>

text \<open>
  The check most parsers start with, \<open>len(d) < 2 || len(d) < 2+d.Length()\<close>; Go evaluates the
  second operand only when the first is false.
\<close>

definition desc_truncated :: "bytes \<Rightarrow> ts_error fault + bool" where
  "desc_truncated d =
     (if glen d < 2 then Inr True else rbind (Length d) (\<lambda>n. Inr (glen d < 2 + n)))"

record data_component_descriptor =
  DataComponentID :: uint16
  AdditionalDataComponentInfo :: bytes

definition ParseDataComponentDescriptor ::
  "bytes \<Rightarrow> ts_error fault + data_component_descriptor" where
  "ParseDataComponentDescriptor d =
     rbind (desc_truncated d) (\<lambda>bad. if bad then Inl (Err ErrInvalidSection) else
     rbind (Tag d) (\<lambda>tag. rbind (Data d) (\<lambda>data.
       if tag \<noteq> 0xFD \<or> glen data < 2 then Inl (Err ErrInvalidSection)
       else rbind (be16_at data 0) (\<lambda>cid. rbind (gslice data 2 (glen data)) (\<lambda>info.
         Inr \<lparr>DataComponentID = cid, AdditionalDataComponentInfo = info\<rparr>)))))"

record bxml_entry_point =
  AutoStartFlag :: bool
  DocumentResolution :: byte
  UseXML :: bool
  DefaultVersionFlag :: bool
  IndependentFlag :: bool
  StyleForTVFlag :: bool
  BMLMajorVersion :: uint16
  BMLMinorVersion :: uint16
  BXMLMajorVersion :: "uint16 option"
  BXMLMinorVersion :: "uint16 option"

record carousel_info =
  DataEventID :: byte
  EventSectionFlag :: bool
  OnDemandRetrievalFlag :: bool
  FileStorableFlag :: bool
  StartPriority :: byte

record bxml_info =
  TransmissionFormat :: byte
  EntryPointFlag :: bool
  EntryPointInfo :: "bxml_entry_point option"
  AdditionalAribCarouselInfo :: "carousel_info option"

text \<open>The entry point part of \<open>ParseAdditionalAribBXMLInfo\<close>: the entry and the offset after it.\<close>

definition parse_entry_point ::
  "bytes \<Rightarrow> byte \<Rightarrow> ts_error fault + (bxml_entry_point \<times> int)" where
  "parse_entry_point data b0 =
     (if glen data < 1 + 1 then Inl (Err ErrInvalidSection)
      else rbind (idx data 1) (\<lambda>b1.
        let entry = \<lparr>AutoStartFlag = b0 AND 0x10 \<noteq> 0, DocumentResolution = b0 AND 0x0f,
              UseXML = b1 AND 0x80 \<noteq> 0, DefaultVersionFlag = b1 AND 0x40 \<noteq> 0,
              IndependentFlag = b1 AND 0x20 \<noteq> 0, StyleForTVFlag = b1 AND 0x10 \<noteq> 0,
              BMLMajorVersion = 1, BMLMinorVersion = 0,
              BXMLMajorVersion = None, BXMLMinorVersion = None\<rparr>;
            off = 2
        in if DefaultVersionFlag entry then Inr (entry, off)
           else if glen data < off + 4 then Inl (Err ErrInvalidSection)
           else rbind (be16_at data off) (\<lambda>major. rbind (be16_at data (off + 2)) (\<lambda>minor.
             let entry = entry\<lparr>BMLMajorVersion := major, BMLMinorVersion := minor\<rparr>;
                 off = off + 4
             in if \<not> UseXML entry then Inr (entry, off)
                else if glen data < off + 4 then Inl (Err ErrInvalidSection)
                else rbind (be16_at data off) (\<lambda>major. rbind (be16_at data (off + 2)) (\<lambda>minor.
                  Inr (entry\<lparr>BXMLMajorVersion := Some major, BXMLMinorVersion := Some minor\<rparr>,
                       off + 4)))))))"

definition ParseAdditionalAribBXMLInfo :: "bytes \<Rightarrow> ts_error fault + bxml_info" where
  "ParseAdditionalAribBXMLInfo data =
     (if glen data < 3 then Inl (Err ErrInvalidSection)
      else rbind (idx data 0) (\<lambda>b0.
        let format = drop_bit 6 b0 AND 0x03; flag = (b0 AND 0x20 \<noteq> 0)
        in rbind (if flag
                  then rbind (parse_entry_point data b0) (\<lambda>(entry, off). Inr (Some entry, off))
                  else Inr (None, 1)) (\<lambda>(entry, off).
             let info = \<lparr>TransmissionFormat = format, EntryPointFlag = flag,
                   EntryPointInfo = entry, AdditionalAribCarouselInfo = None\<rparr>
             in if format \<noteq> 0 then Inr info
                else if glen data < off + 2 then Inl (Err ErrInvalidSection)
                else rbind (idx data off) (\<lambda>a. rbind (idx data (off + 1)) (\<lambda>b.
                  Inr (info\<lparr>AdditionalAribCarouselInfo := Some
                    \<lparr>DataEventID = drop_bit 4 a, EventSectionFlag = a AND 0x08 \<noteq> 0,
                     OnDemandRetrievalFlag = b AND 0x80 \<noteq> 0, FileStorableFlag = b AND 0x40 \<noteq> 0,
                     StartPriority = drop_bit 5 b AND 0x01\<rparr>\<rparr>))))))"

text \<open>\<open>n\<close> consecutive \<open>uint16\<close> values from \<open>off\<close> on.\<close>

fun read_uint16s :: "bytes \<Rightarrow> int \<Rightarrow> nat \<Rightarrow> ts_error fault + uint16 list" where
  "read_uint16s data off 0 = Inr []"
| "read_uint16s data off (Suc n) =
     rbind (be16_at data off) (\<lambda>v. rbind (read_uint16s data (off + 2) n) (\<lambda>vs. Inr (v # vs)))"

record ts_information_descriptor =
  RemoteControlKeyID :: byte
  TSName :: string
  TransmissionTypes :: "(byte \<times> uint16 list) list"

fun parse_transmission_types ::
  "bytes \<Rightarrow> int \<Rightarrow> nat \<Rightarrow> ts_error fault + (byte \<times> uint16 list) list" where
  "parse_transmission_types data off 0 = Inr []"
| "parse_transmission_types data off (Suc n) =
     (if off + 2 > glen data then Inl (Err ErrInvalidSection)
      else rbind (idx data off) (\<lambda>info. rbind (idx data (off + 1)) (\<lambda>num.
        let off = off + 2
        in if off + uint num * 2 > glen data then Inl (Err ErrInvalidSection)
           else rbind (read_uint16s data off (unat num)) (\<lambda>ids.
             rbind (parse_transmission_types data (off + uint num * 2) n) (\<lambda>rest.
               Inr ((info, ids) # rest))))))"

definition ParseTSInformationDescriptor ::
  "(bytes \<Rightarrow> ts_error fault + string) \<Rightarrow> bytes \<Rightarrow> ts_error fault + ts_information_descriptor" where
  "ParseTSInformationDescriptor dec d =
     rbind (desc_truncated d) (\<lambda>bad. if bad then Inl (Err ErrInvalidSection) else
     rbind (Tag d) (\<lambda>tag. if tag \<noteq> 0xCD then Inl (Err (UnexpectedTag tag)) else
     rbind (Data d) (\<lambda>data. if glen data < 2 then Inl (Err ErrInvalidSection) else
     rbind (idx data 0) (\<lambda>key. rbind (idx data 1) (\<lambda>b1.
       let nameLen = uint (drop_bit 2 b1); typeCount = unat (b1 AND 0x03); nameEnd = 2 + nameLen
       in if nameEnd > glen data then Inl (Err ErrInvalidSection)
          else rbind (gslice data 2 nameEnd) (\<lambda>raw. rbind (dec raw) (\<lambda>name.
            rbind (parse_transmission_types data nameEnd typeCount) (\<lambda>types.
              Inr \<lparr>RemoteControlKeyID = key, TSName = name, TransmissionTypes = types\<rparr>))))))))"

text \<open>\<open>for off := 0; off < len(data); off += 3\<close>.\<close>

function parse_service_list :: "bytes \<Rightarrow> int \<Rightarrow> ts_error fault + (uint16 \<times> byte) list" where
  "parse_service_list data off =
     (if off < glen data then
        rbind (be16_at data off) (\<lambda>sid. rbind (idx data (off + 2)) (\<lambda>typ.
          rbind (parse_service_list data (off + 3)) (\<lambda>rest. Inr ((sid, typ) # rest))))
      else Inr [])"
  by pat_completeness auto
termination
  by (relation "measure (\<lambda>(data, off). nat (glen data - off))") auto

declare parse_service_list.simps [simp del]

definition ParseServiceListDescriptor :: "bytes \<Rightarrow> ts_error fault + (uint16 \<times> byte) list" where
  "ParseServiceListDescriptor d =
     rbind (desc_truncated d) (\<lambda>bad. if bad then Inl (Err ErrInvalidSection) else
     rbind (Tag d) (\<lambda>tag. if tag \<noteq> 0x41 then Inl (Err (UnexpectedTag tag)) else
     rbind (Data d) (\<lambda>data.
       if glen data mod 3 \<noteq> 0 then Inl (Err ErrInvalidSection) else parse_service_list data 0)))"

record terrestrial_delivery_system_descriptor =
  AreaCode :: uint16
  GuardInterval :: byte
  TransmissionMode :: byte
  Frequencies :: "uint16 list"

function parse_frequencies :: "bytes \<Rightarrow> int \<Rightarrow> ts_error fault + uint16 list" where
  "parse_frequencies data off =
     (if off < glen data then
        rbind (be16_at data off) (\<lambda>f. rbind (parse_frequencies data (off + 2)) (\<lambda>rest. Inr (f # rest)))
      else Inr [])"
  by pat_completeness auto
termination
  by (relation "measure (\<lambda>(data, off). nat (glen data - off))") auto

declare parse_frequencies.simps [simp del]

definition ParseTerrestrialDeliverySystemDescriptor ::
  "bytes \<Rightarrow> ts_error fault + terrestrial_delivery_system_descriptor" where
  "ParseTerrestrialDeliverySystemDescriptor d =
     rbind (desc_truncated d) (\<lambda>bad. if bad then Inl (Err ErrInvalidSection) else
     rbind (Tag d) (\<lambda>tag. if tag \<noteq> 0xFA then Inl (Err (UnexpectedTag tag)) else
     rbind (Data d) (\<lambda>data.
       if glen data < 2 then Inl (Err ErrInvalidSection)
       else rbind (gslice data 2 (glen data)) (\<lambda>freqs.
         if glen freqs mod 2 \<noteq> 0 then Inl (Err ErrInvalidSection)
         else rbind (idx data 0) (\<lambda>b0. rbind (idx data 1) (\<lambda>b1.
           rbind (parse_frequencies data 2) (\<lambda>fs.
             Inr \<lparr>AreaCode = push_bit 4 (ucast b0) OR ucast (drop_bit 4 b1),
                  GuardInterval = drop_bit 2 b1 AND 0x03, TransmissionMode = b1 AND 0x03,
                  Frequencies = fs\<rparr>)))))))"

record service_descriptor =
  SD_ServiceType :: byte
  SD_ServiceProviderName :: string
  SD_ServiceName :: string

definition ParseServiceDescriptor ::
  "(bytes \<Rightarrow> ts_error fault + string) \<Rightarrow> bytes \<Rightarrow> ts_error fault + service_descriptor" where
  "ParseServiceDescriptor dec d =
     rbind (Tag d) (\<lambda>tag. if tag \<noteq> 0x48 then Inl (Err (UnexpectedTag tag)) else
     rbind (Data d) (\<lambda>data. if glen data < 3 then Inl (Err ErrInvalidSection) else
     rbind (idx data 1) (\<lambda>plen.
       let providerEnd = 2 + uint plen
       in if providerEnd \<ge> glen data then Inl (Err ErrInvalidSection)
          else rbind (idx data providerEnd) (\<lambda>nlen.
            let nameStart = providerEnd + 1; nameEnd = nameStart + uint nlen
            in if nameEnd > glen data then Inl (Err ErrInvalidSection)
               else rbind (gslice data 2 providerEnd) (\<lambda>praw. rbind (dec praw) (\<lambda>provider.
                 rbind (gslice data nameStart nameEnd) (\<lambda>nraw. rbind (dec nraw) (\<lambda>name.
                   rbind (idx data 0) (\<lambda>typ.
                     Inr \<lparr>SD_ServiceType = typ, SD_ServiceProviderName = provider,
                          SD_ServiceName = name\<rparr>)))))))))"

text \<open>Country codes stay the three raw bytes of \<open>string(data[i:i+3])\<close>.\<close>

function parse_ratings :: "bytes \<Rightarrow> int \<Rightarrow> ts_error fault + (bytes \<times> byte) list" where
  "parse_ratings data i =
     (if i + 4 \<le> glen data then
        rbind (gslice data i (i + 3)) (\<lambda>country. rbind (idx data (i + 3)) (\<lambda>rating.
          rbind (parse_ratings data (i + 4)) (\<lambda>rest. Inr ((country, rating) # rest))))
      else Inr [])"
  by pat_completeness auto
termination
  by (relation "measure (\<lambda>(data, i). nat (glen data - i))") auto

declare parse_ratings.simps [simp del]

definition ParseParentalRatings :: "bytes \<Rightarrow> ts_error fault + (bytes \<times> byte) list" where
  "ParseParentalRatings d =
     rbind (Tag d) (\<lambda>tag. if tag \<noteq> 0x55 then Inr [] else
     rbind (Data d) (\<lambda>data.
       if glen data = 0 \<or> glen data mod 4 \<noteq> 0 then Inr [] else parse_ratings data 0))"

record extended_broadcaster_descriptor =
  BroadcasterType :: byte
  TerrestrialBroadcasterID :: uint16
  AffiliationIDs :: bytes
  AffiliatedBroadcasters :: "(uint16 \<times> byte) list"
  EB_PrivateData :: bytes

fun parse_affiliated :: "bytes \<Rightarrow> int \<Rightarrow> nat \<Rightarrow> ts_error fault + (uint16 \<times> byte) list" where
  "parse_affiliated data off 0 = Inr []"
| "parse_affiliated data off (Suc n) =
     rbind (be16_at data off) (\<lambda>nid. rbind (idx data (off + 2)) (\<lambda>bid.
       rbind (parse_affiliated data (off + 3) n) (\<lambda>rest. Inr ((nid, bid) # rest))))"

definition ParseExtendedBroadcasterDescriptor ::
  "bytes \<Rightarrow> ts_error fault + extended_broadcaster_descriptor" where
  "ParseExtendedBroadcasterDescriptor d =
     rbind (desc_truncated d) (\<lambda>bad. if bad then Inl (Err ErrInvalidSection) else
     rbind (Tag d) (\<lambda>tag. if tag \<noteq> 0xCE then Inl (Err ErrInvalidSection) else
     rbind (Data d) (\<lambda>data. if glen data < 1 then Inl (Err ErrInvalidSection) else
     rbind (idx data 0) (\<lambda>b0.
       let typ = drop_bit 4 b0;
           out = \<lparr>BroadcasterType = typ, TerrestrialBroadcasterID = 0, AffiliationIDs = [],
                  AffiliatedBroadcasters = [], EB_PrivateData = []\<rparr>
       in if typ \<noteq> 1 \<and> typ \<noteq> 2 then
            rbind (gslice data 1 (glen data)) (\<lambda>priv. Inr (out\<lparr>EB_PrivateData := priv\<rparr>))
          else if glen data < 4 then Inl (Err ErrInvalidSection)
          else rbind (be16_at data 1) (\<lambda>tid. rbind (idx data 3) (\<lambda>b3.
            let affiliationCount = uint (drop_bit 4 b3); broadcasterCount = unat (b3 AND 0x0f);
                off = 4
            in if off + affiliationCount + int broadcasterCount * 3 > glen data
               then Inl (Err ErrInvalidSection)
               else rbind (gslice data off (off + affiliationCount)) (\<lambda>affs.
                 let off = off + affiliationCount
                 in rbind (parse_affiliated data off broadcasterCount) (\<lambda>bs.
                    rbind (gslice data (off + int broadcasterCount * 3) (glen data)) (\<lambda>priv.
                      Inr (out\<lparr>TerrestrialBroadcasterID := tid, AffiliationIDs := affs,
                        AffiliatedBroadcasters := bs, EB_PrivateData := priv\<rparr>))))))))))"

definition ParseBroadcasterNameDescriptor ::
  "(bytes \<Rightarrow> ts_error fault + string) \<Rightarrow> bytes \<Rightarrow> ts_error fault + string" where
  "ParseBroadcasterNameDescriptor dec d =
     rbind (desc_truncated d) (\<lambda>bad. if bad then Inl (Err ErrInvalidSection) else
     rbind (Tag d) (\<lambda>tag. if tag \<noteq> 0xD8 then Inl (Err ErrInvalidSection) else
     rbind (Data d) dec))"

text \<open>\<open>caPID\<close> of \<open>ts/demux.go\<close>: the PID in a conditional access descriptor.\<close>

definition caPID :: "bytes \<Rightarrow> ts_error fault + uint16 option" where
  "caPID d =
     rbind (Data d) (\<lambda>data.
       if glen data < 4 then Inr None
       else rbind (be16_mask_at 0x1f data 2) (\<lambda>pid. Inr (Some pid)))"

subsection \<open>The parsers never panic\<close>

lemma desc_truncated_cases:
  obtains (bad) "desc_truncated d = Inr True"
  | (ok) data where "desc_truncated d = Inr False" "Tag d = Inr (d ! 0)" "Data d = Inr data"
proof -
  have "\<exists>data. Data d = Inr data" if "2 \<le> length d" "2 + uint (d ! 1) \<le> glen d"
    using that by (simp add: Data_def Length_def)
  moreover have "Tag d = Inr (d ! 0)" if "2 \<le> length d"
    using that by (cases d) (auto simp: Tag_def)
  ultimately show thesis
    using that
    by (cases "glen d < 2"; cases "2 + uint (d ! 1) \<le> glen d")
      (auto simp: desc_truncated_def Length_def)
qed

lemma read_uint16s_ok:
  "0 \<le> off \<Longrightarrow> off + int n * 2 \<le> glen data \<Longrightarrow> \<exists>vs. read_uint16s data off n = Inr vs \<and> length vs = n"
proof (induction n arbitrary: off)
  case (Suc n)
  then have "\<exists>vs. read_uint16s data (off + 2) n = Inr vs \<and> length vs = n"
    by (intro Suc.IH) auto
  with Suc.prems show ?case by auto
qed simp

lemma parse_transmission_types_safe: "0 \<le> off \<Longrightarrow> safe (parse_transmission_types data off n)"
proof (induction n arbitrary: off)
  case (Suc n)
  show ?case
  proof (cases "off + 2 > glen data")
    case False
    let ?num = "data ! nat (off + 1)"
    have "safe (parse_transmission_types data (off + 2 + uint ?num * 2) n)"
      using Suc by (intro Suc.IH) auto
    moreover have "\<exists>vs. read_uint16s data (off + 2) (unat ?num) = Inr vs"
      if "off + 2 + uint ?num * 2 \<le> glen data"
      using read_uint16s_ok [of "off + 2" "unat ?num" data] that Suc.prems by auto
    ultimately show ?thesis
      using False Suc.prems by (auto simp: Let_def not_less intro!: safe_rbind)
  qed simp
qed simp

lemma parse_service_list_safe:
  "0 \<le> off \<Longrightarrow> (glen data - off) mod 3 = 0 \<Longrightarrow> safe (parse_service_list data off)"
proof (induction data off rule: parse_service_list.induct)
  case (1 data off)
  show ?case
  proof (cases "off < glen data")
    case True
    with "1.prems" have "off + 2 < glen data" by presburger
    moreover have "(glen data - (off + 3)) mod 3 = 0" using "1.prems" by presburger
    ultimately show ?thesis
      using True "1.prems" "1.IH" [OF True] by (subst parse_service_list.simps) (auto intro!: safe_rbind)
  qed (subst parse_service_list.simps, simp)
qed

lemma parse_frequencies_safe:
  "0 \<le> off \<Longrightarrow> (glen data - off) mod 2 = 0 \<Longrightarrow> safe (parse_frequencies data off)"
proof (induction data off rule: parse_frequencies.induct)
  case (1 data off)
  show ?case
  proof (cases "off < glen data")
    case True
    with "1.prems" have "off + 1 < glen data" by presburger
    moreover have "(glen data - (off + 2)) mod 2 = 0" using "1.prems" by presburger
    ultimately show ?thesis
      using True "1.prems" "1.IH" [OF True] by (subst parse_frequencies.simps) (auto intro!: safe_rbind)
  qed (subst parse_frequencies.simps, simp)
qed

lemma parse_ratings_safe: "0 \<le> i \<Longrightarrow> safe (parse_ratings data i)"
proof (induction data i rule: parse_ratings.induct)
  case (1 data i)
  then show ?case by (subst parse_ratings.simps) (auto intro!: safe_rbind)
qed

lemma parse_affiliated_safe:
  "0 \<le> off \<Longrightarrow> off + int n * 3 \<le> glen data \<Longrightarrow> safe (parse_affiliated data off n)"
  by (induction n arbitrary: off) (auto intro!: safe_rbind)

lemma ParseDataComponentDescriptor_safe: "safe (ParseDataComponentDescriptor d)"
  by (cases rule: desc_truncated_cases [of d]) (auto simp: ParseDataComponentDescriptor_def)

lemma parse_entry_point_safe: "safe (parse_entry_point data b0)"
  by (auto simp: parse_entry_point_def Let_def)

lemma parse_entry_point_off: "parse_entry_point data b0 = Inr (entry, off) \<Longrightarrow> 0 \<le> off"
  by (auto simp: parse_entry_point_def Let_def rbind_eq_Inr_iff split: if_splits)

lemma ParseAdditionalAribBXMLInfo_safe: "safe (ParseAdditionalAribBXMLInfo data)"
proof (cases "glen data < 3")
  case False
  let ?b0 = "data ! 0"
  let ?entry = "if ?b0 AND 0x20 \<noteq> 0
      then rbind (parse_entry_point data ?b0) (\<lambda>(entry, off). Inr (Some entry, off))
      else Inr (None, 1)"
  have "safe ?entry"
    using parse_entry_point_safe [of data ?b0] by (auto intro!: safe_rbind)
  moreover have "0 \<le> off" if "?entry = Inr (entry, off)" for entry off
    using that by (auto simp: rbind_eq_Inr_iff dest: parse_entry_point_off split: if_splits)
  ultimately show ?thesis
    using False
    by (simp add: ParseAdditionalAribBXMLInfo_def Let_def) (auto intro!: safe_rbind split: if_splits)
qed (simp add: ParseAdditionalAribBXMLInfo_def)

lemma ParseTSInformationDescriptor_safe:
  assumes "\<And>raw. safe (dec raw)"
  shows "safe (ParseTSInformationDescriptor dec d)"
  using assms
  by (cases rule: desc_truncated_cases [of d])
    (auto simp: ParseTSInformationDescriptor_def Let_def
      intro!: safe_rbind parse_transmission_types_safe)

lemma ParseServiceListDescriptor_safe: "safe (ParseServiceListDescriptor d)"
  by (cases rule: desc_truncated_cases [of d])
    (auto simp: ParseServiceListDescriptor_def intro!: parse_service_list_safe)

lemma ParseTerrestrialDeliverySystemDescriptor_safe:
  "safe (ParseTerrestrialDeliverySystemDescriptor d)"
  by (cases rule: desc_truncated_cases [of d])
    (auto simp: ParseTerrestrialDeliverySystemDescriptor_def intro!: safe_rbind parse_frequencies_safe)

lemma ParseServiceDescriptor_safe:
  assumes "\<And>raw. safe (dec raw)" and "wf_desc d"
  shows "safe (ParseServiceDescriptor dec d)"
  using assms
  by (auto simp: ParseServiceDescriptor_def wf_desc_accessors Let_def intro!: safe_rbind)

lemma ParseParentalRatings_safe: "wf_desc d \<Longrightarrow> safe (ParseParentalRatings d)"
  by (auto simp: ParseParentalRatings_def wf_desc_accessors intro!: parse_ratings_safe)

lemma affiliation_bound:
  fixes a b :: byte
  shows "4 + uint a + uint b * 3 \<le> n \<Longrightarrow> 4 + uint a \<le> n"
  using uint_ge_0 [of b] by linarith

lemma ParseExtendedBroadcasterDescriptor_safe: "safe (ParseExtendedBroadcasterDescriptor d)"
proof (cases rule: desc_truncated_cases [of d])
  case (ok data)
  show ?thesis
  proof (cases "glen data < 1")
    case False
    then have ne: "1 \<le> glen data" "Suc 0 \<le> length data" by (simp_all add: Suc_le_eq)
    show ?thesis
      using ok ne
      by (auto simp: ParseExtendedBroadcasterDescriptor_def Let_def safe_gslice not_less
          intro!: safe_rbind parse_affiliated_safe dest: affiliation_bound)
  qed (simp add: ParseExtendedBroadcasterDescriptor_def ok)
qed (simp add: ParseExtendedBroadcasterDescriptor_def)

lemma ParseBroadcasterNameDescriptor_safe:
  "(\<And>raw. safe (dec raw)) \<Longrightarrow> safe (ParseBroadcasterNameDescriptor dec d)"
  by (cases rule: desc_truncated_cases [of d]) (auto simp: ParseBroadcasterNameDescriptor_def)

lemma caPID_safe: "wf_desc d \<Longrightarrow> safe (caPID d)"
  by (auto simp: caPID_def wf_desc_accessors)

lemmas descriptor_parsers_safe =
  ParseDataComponentDescriptor_safe ParseAdditionalAribBXMLInfo_safe
  ParseTSInformationDescriptor_safe ParseServiceListDescriptor_safe
  ParseTerrestrialDeliverySystemDescriptor_safe ParseServiceDescriptor_safe
  ParseParentalRatings_safe ParseExtendedBroadcasterDescriptor_safe
  ParseBroadcasterNameDescriptor_safe

subsection \<open>Properties\<close>

text \<open>
  C40. The strict descriptor-loop parser accepts exactly the concatenations of well-formed
  descriptors and returns those descriptors in order; the lenient parser agrees with it on them
  and otherwise returns the well-formed descriptors of a prefix.
\<close>

theorem descriptor_loop_parsers:
  "(parseDescriptorsStrict b = Inr ds \<longleftrightarrow> b = concat ds \<and> list_all wf_desc ds) \<and>
   (list_all wf_desc ds \<longrightarrow> ParseDescriptors (concat ds) = ds) \<and>
   list_all wf_desc (ParseDescriptors b) \<and>
   (\<exists>rest. b = concat (ParseDescriptors b) @ rest \<and> \<not> desc_ready rest)"
  using ParseDescriptors_concat [of ds] ParseDescriptors_wf [of _ b] ParseDescriptors_prefix [of b]
  by (auto simp: parseDescriptorsStrict_Inr list_all_iff)

theorem descriptor_loop_parsers_witness:
  "list_all wf_desc [[0x48, 1, 7], [0x52, 0]] \<and>
   ParseDescriptors (concat [[0x48, 1, 7], [0x52, 0]]) = [[0x48, 1, 7], [0x52, 0]]"
proof -
  have "list_all wf_desc [[0x48, 1, 7], [0x52, 0]]" by code_simp
  then show ?thesis using descriptor_loop_parsers [of _ "[[0x48, 1, 7], [0x52, 0]]"] by blast
qed

text \<open>
  No descriptor parser indexes or slices outside its descriptor: on every descriptor a
  descriptor loop yields, each parser returns a value or an error, whatever bytes it holds, as
  long as the ARIB string decoder it calls does.
\<close>

lemma descriptor_parsers_no_panic:
  assumes "\<And>raw. safe (dec raw)" and "d \<in> set (ParseDescriptors b)"
  shows "safe (ParseDataComponentDescriptor d) \<and> safe (ParseAdditionalAribBXMLInfo d) \<and>
    safe (ParseTSInformationDescriptor dec d) \<and> safe (ParseServiceListDescriptor d) \<and>
    safe (ParseTerrestrialDeliverySystemDescriptor d) \<and> safe (ParseServiceDescriptor dec d) \<and>
    safe (ParseParentalRatings d) \<and> safe (ParseExtendedBroadcasterDescriptor d) \<and>
    safe (ParseBroadcasterNameDescriptor dec d) \<and> safe (caPID d)"
  using assms ParseDescriptors_wf [OF assms(2)]
  by (simp add: descriptor_parsers_safe caPID_safe)

lemma descriptor_parsers_no_panic_instance:
  "[0x48, 3, 1, 9, 0] \<in> set (ParseDescriptors [0x48, 3, 1, 9, 0]) \<and>
   safe (ParseServiceDescriptor (\<lambda>raw. Inr ''x'') [0x48, 3, 1, 9, 0])"
proof -
  have m: "[0x48, 3, 1, 9, 0] \<in> set (ParseDescriptors [0x48, 3, 1, 9, 0])"
    by code_simp
  with descriptor_parsers_no_panic [OF _ m, of "\<lambda>raw. Inr ''x''"] show ?thesis by simp
qed

end
