(* ===== verification/Tables.thy ===== *)
theory Tables
  imports Descriptors
begin

text \<open>
  The PSI/SI table parsers: the long section header (\<open>ts/psi.go\<close>), PAT (\<open>ts/pat.go\<close>), PMT
  (\<open>ts/pmt.go\<close>), SDT (\<open>ts/sdt.go\<close>), NIT (\<open>ts/nit.go\<close>) and BIT (\<open>ts/bit.go\<close>), and the PAT
  builder. Go's offset loops are recursive functions over the offset.
\<close>

subsection \<open>Table identifiers and the section header\<close>

definition IsEITPF :: "byte \<Rightarrow> bool" where
  "IsEITPF tableID \<longleftrightarrow> tableID = 0x4E \<or> tableID = 0x4F"

definition IsEITS :: "byte \<Rightarrow> bool" where
  "IsEITS tableID \<longleftrightarrow>
     (tableID \<ge> 0x50 \<and> tableID \<le> 0x5F) \<or> (tableID \<ge> 0x60 \<and> tableID \<le> 0x6F)"

record section_header =
  SH_TableID :: byte
  SH_SectionSyntaxIndicator :: bool
  SH_SectionLength :: int
  SH_TransportStreamID :: uint16
  SH_OriginalNetworkID :: uint16
  SH_ServiceID :: uint16
  SH_VersionNumber :: byte
  SH_CurrentNextIndicator :: bool
  SH_SectionNumber :: byte
  SH_LastSectionNumber :: byte

definition ParseSectionHeader :: "bytes \<Rightarrow> ts_error fault + section_header" where
  "ParseSectionHeader s =
     (if glen s < 8 then Inl (Err ErrInvalidSection)
      else rbind (TotalLength s) (\<lambda>total.
        if total > glen s then Inl (Err ErrInvalidSection)
        else rbind (TableID s) (\<lambda>tid. rbind (SectionSyntaxIndicator s) (\<lambda>ssi.
          rbind (SectionLength s) (\<lambda>sl. rbind (be16_at s 3) (\<lambda>ext. rbind (idx s 5) (\<lambda>b5.
          rbind (idx s 6) (\<lambda>b6. rbind (idx s 7) (\<lambda>b7.
            Inr \<lparr>SH_TableID = tid, SH_SectionSyntaxIndicator = ssi, SH_SectionLength = sl,
                 SH_TransportStreamID = ext, SH_OriginalNetworkID = ext, SH_ServiceID = ext,
                 SH_VersionNumber = drop_bit 1 b5 AND 0x1f,
                 SH_CurrentNextIndicator = (b5 AND 0x01 \<noteq> 0),
                 SH_SectionNumber = b6, SH_LastSectionNumber = b7\<rparr>)))))))))"

text \<open>
  The condition every table parser starts with: long enough, the right table, inside the slice
  and a valid CRC. \<open>Inr False\<close> stands for the \<open>ErrInvalidSection\<close> return.
\<close>

definition table_check :: "bytes \<Rightarrow> int \<Rightarrow> (byte \<Rightarrow> bool) \<Rightarrow> ts_error fault + bool" where
  "table_check s minLen wanted =
     (if glen s < minLen then Inr False
      else rbind (TableID s) (\<lambda>tid. if \<not> wanted tid then Inr False
      else rbind (TotalLength s) (\<lambda>total. if total > glen s then Inr False
      else ValidateCRC s)))"

lemma table_check_eq:
  "3 \<le> minLen \<Longrightarrow> table_check s minLen wanted =
     Inr (minLen \<le> glen s \<and> wanted (s ! 0) \<and> total_len s \<le> glen s \<and> crc_ok s)"
  by (auto simp: table_check_def TableID_def TotalLength_eq)

definition header_of :: "bytes \<Rightarrow> section_header" where
  "header_of s = \<lparr>SH_TableID = s ! 0, SH_SectionSyntaxIndicator = (s ! 1 AND 0x80 \<noteq> 0),
     SH_SectionLength = total_len s - 3,
     SH_TransportStreamID = be16 (s ! 3) (s ! 4), SH_OriginalNetworkID = be16 (s ! 3) (s ! 4),
     SH_ServiceID = be16 (s ! 3) (s ! 4),
     SH_VersionNumber = drop_bit 1 (s ! 5) AND 0x1f,
     SH_CurrentNextIndicator = (s ! 5 AND 0x01 \<noteq> 0),
     SH_SectionNumber = s ! 6, SH_LastSectionNumber = s ! 7\<rparr>"

lemma ParseSectionHeader_eq:
  "ParseSectionHeader s =
     (if 8 \<le> length s \<and> total_len s \<le> glen s then Inr (header_of s) else Inl (Err ErrInvalidSection))"
  by (auto simp: ParseSectionHeader_def TotalLength_eq TableID_def SectionSyntaxIndicator_def
      SectionLength_def header_of_def total_len_def)

subsection \<open>PAT\<close>

record PAT =
  PAT_TransportStreamID :: uint16
  PAT_VersionNumber :: byte
  PAT_NetworkPID :: uint16
  PAT_Programs :: "uint16 \<rightharpoonup> uint16"

function parse_pat_loop :: "bytes \<Rightarrow> int \<Rightarrow> int \<Rightarrow> PAT \<Rightarrow> ts_error fault + PAT" where
  "parse_pat_loop s end off pat =
     (if off + 4 \<le> end then
        rbind (be16_at s off) (\<lambda>program. rbind (be16_mask_at 0x1f s (off + 2)) (\<lambda>pid.
          parse_pat_loop s end (off + 4)
            (if program = 0 then pat\<lparr>PAT_NetworkPID := pid\<rparr>
             else pat\<lparr>PAT_Programs := (PAT_Programs pat)(program \<mapsto> pid)\<rparr>)))
      else Inr pat)"
  by pat_completeness auto
termination
  by (relation "measure (\<lambda>(s, end, off, pat). nat (end - off))") auto

declare parse_pat_loop.simps [simp del]

definition ParsePAT :: "bytes \<Rightarrow> ts_error fault + PAT" where
  "ParsePAT s =
     rbind (table_check s 12 (\<lambda>t. t = 0x00)) (\<lambda>ok. if \<not> ok then Inl (Err ErrInvalidSection) else
     rbind (ParseSectionHeader s) (\<lambda>header.
     rbind (TotalLength s) (\<lambda>total.
       parse_pat_loop s (total - 4) 8
         \<lparr>PAT_TransportStreamID = SH_TransportStreamID header,
          PAT_VersionNumber = SH_VersionNumber header, PAT_NetworkPID = 0,
          PAT_Programs = Map.empty\<rparr>)))"

definition BuildPATSection :: "uint16 \<Rightarrow> uint16 \<Rightarrow> uint16 \<Rightarrow> byte \<Rightarrow> ts_error fault + bytes" where
  "BuildPATSection transportStreamID serviceID pmtPID version =
     (if pmtPID > 0x1fff then Inl (Err (InvalidPMTPID pmtPID))
      else
        let sectionLength = (5 + 4 + 4 :: uint16);
            s = [0x00, 0xb0 OR hi8 sectionLength, lo8 sectionLength,
                 hi8 transportStreamID, lo8 transportStreamID,
                 0xc1 OR push_bit 1 (version AND 0x1f), 0, 0,
                 hi8 serviceID, lo8 serviceID, 0xe0 OR hi8 pmtPID, lo8 pmtPID];
            crc = crc32MPEG2 s
        in Inr (s @ [ucast (drop_bit 24 crc), ucast (drop_bit 16 crc), ucast (drop_bit 8 crc),
                     ucast crc]))"

subsection \<open>PMT\<close>

record PMTElement =
  StreamType :: byte
  ElementaryPID :: uint16
  ESInfo :: bytes
  PE_Descriptors :: "bytes list"

record PMT =
  ProgramNumber :: uint16
  PMT_VersionNumber :: byte
  PCRPID :: uint16
  ProgramInfo :: bytes
  PMT_Descriptors :: "bytes list"
  Elements :: "PMTElement list"

function parse_pmt_loop :: "bytes \<Rightarrow> int \<Rightarrow> int \<Rightarrow> ts_error fault + PMTElement list" where
  "parse_pmt_loop s sectionEnd off =
     (if off + 5 \<le> sectionEnd then
        rbind (be16_mask_at 0x0f s (off + 3)) (\<lambda>n.
          if off + 5 + uint n > sectionEnd then Inl (Err ErrInvalidSection)
          else rbind (gslice s (off + 5) (off + 5 + uint n)) (\<lambda>esInfo.
            rbind (idx s off) (\<lambda>typ. rbind (be16_mask_at 0x1f s (off + 1)) (\<lambda>pid.
              rbind (parse_pmt_loop s sectionEnd (off + 5 + uint n)) (\<lambda>rest.
                Inr (\<lparr>StreamType = typ, ElementaryPID = pid, ESInfo = esInfo,
                      PE_Descriptors = ParseDescriptors esInfo\<rparr> # rest))))))
      else Inr [])"
  by pat_completeness auto
termination
  by (relation "measure (\<lambda>(s, sectionEnd, off). nat (sectionEnd - off))")
    (auto intro: order_less_le_trans [OF _ uint_ge_0] simp: add_strict_increasing)

declare parse_pmt_loop.simps [simp del]

definition ParsePMT :: "bytes \<Rightarrow> ts_error fault + PMT" where
  "ParsePMT s =
     rbind (table_check s 16 (\<lambda>t. t = 0x02)) (\<lambda>ok. if \<not> ok then Inl (Err ErrInvalidSection) else
     rbind (ParseSectionHeader s) (\<lambda>header.
     rbind (be16_mask_at 0x0f s 10) (\<lambda>programInfoLen.
     rbind (TotalLength s) (\<lambda>total.
       let infoEnd = 12 + uint programInfoLen; sectionEnd = total - 4
       in if infoEnd > sectionEnd then Inl (Err ErrInvalidSection)
          else rbind (be16_mask_at 0x1f s 8) (\<lambda>pcr. rbind (gslice s 12 infoEnd) (\<lambda>info.
            rbind (parse_pmt_loop s sectionEnd infoEnd) (\<lambda>elems.
              Inr \<lparr>ProgramNumber = SH_ServiceID header, PMT_VersionNumber = SH_VersionNumber header,
                   PCRPID = pcr, ProgramInfo = info, PMT_Descriptors = ParseDescriptors info,
                   Elements = elems\<rparr>)))))))"

subsection \<open>SDT\<close>

record SDTService =
  SDTS_ServiceID :: uint16
  EITScheduleFlag :: bool
  EITPresentFollowing :: bool
  SDTS_RunningStatus :: byte
  SDTS_FreeCAMode :: bool
  SDTS_Descriptors :: "bytes list"

record SDT =
  SDT_TransportStreamID :: uint16
  SDT_OriginalNetworkID :: uint16
  SDT_VersionNumber :: byte
  Services :: "SDTService list"

function parse_sdt_loop :: "bytes \<Rightarrow> int \<Rightarrow> int \<Rightarrow> ts_error fault + SDTService list" where
  "parse_sdt_loop s sectionEnd off =
     (if off + 5 \<le> sectionEnd then
        rbind (be16_mask_at 0x0f s (off + 3)) (\<lambda>n.
          if off + 5 + uint n > sectionEnd then Inl (Err ErrInvalidSection)
          else rbind (gslice s (off + 5) (off + 5 + uint n)) (\<lambda>descriptors.
            rbind (be16_at s off) (\<lambda>sid. rbind (idx s (off + 2)) (\<lambda>flags. rbind (idx s (off + 3)) (\<lambda>st.
              rbind (parse_sdt_loop s sectionEnd (off + 5 + uint n)) (\<lambda>rest.
                Inr (\<lparr>SDTS_ServiceID = sid, EITScheduleFlag = (flags AND 0x02 \<noteq> 0),
                      EITPresentFollowing = (flags AND 0x01 \<noteq> 0),
                      SDTS_RunningStatus = drop_bit 5 st AND 0x07,
                      SDTS_FreeCAMode = (st AND 0x10 \<noteq> 0),
                      SDTS_Descriptors = ParseDescriptors descriptors\<rparr> # rest)))))))
      else Inr [])"
  by pat_completeness auto
termination
  by (relation "measure (\<lambda>(s, sectionEnd, off). nat (sectionEnd - off))")
    (auto intro: order_less_le_trans [OF _ uint_ge_0] simp: add_strict_increasing)

declare parse_sdt_loop.simps [simp del]

definition ParseSDT :: "bytes \<Rightarrow> ts_error fault + SDT" where
  "ParseSDT s =
     rbind (table_check s 15 (\<lambda>t. t = 0x42 \<or> t = 0x46)) (\<lambda>ok. if \<not> ok then Inl (Err ErrInvalidSection) else
     rbind (ParseSectionHeader s) (\<lambda>header.
     rbind (TotalLength s) (\<lambda>total.
     rbind (be16_at s 8) (\<lambda>onid.
     rbind (parse_sdt_loop s (total - 4) 11) (\<lambda>services.
       Inr \<lparr>SDT_TransportStreamID = SH_TransportStreamID header, SDT_OriginalNetworkID = onid,
            SDT_VersionNumber = SH_VersionNumber header, Services = services\<rparr>)))))"

subsection \<open>NIT\<close>

record NITTransportStream =
  NTS_TransportStreamID :: uint16
  NTS_OriginalNetworkID :: uint16
  NTS_Descriptors :: "bytes list"

record NIT =
  NIT_NetworkID :: uint16
  NIT_TableID :: byte
  NIT_VersionNumber :: byte
  NIT_SectionNumber :: byte
  NIT_LastSectionNumber :: byte
  NetworkDescriptors :: "bytes list"
  TransportStreams :: "NITTransportStream list"

function parse_nit_loop :: "bytes \<Rightarrow> int \<Rightarrow> int \<Rightarrow> ts_error fault + NITTransportStream list" where
  "parse_nit_loop s loopEnd off =
     (if off + 6 \<le> loopEnd then
        rbind (be16_mask_at 0x0f s (off + 4)) (\<lambda>n.
          if off + 6 + uint n > loopEnd then Inl (Err ErrInvalidSection)
          else rbind (gslice s (off + 6) (off + 6 + uint n)) (\<lambda>d.
            rbind (parseDescriptorsStrict d) (\<lambda>descriptors.
            rbind (be16_at s off) (\<lambda>tsid. rbind (be16_at s (off + 2)) (\<lambda>onid.
              rbind (parse_nit_loop s loopEnd (off + 6 + uint n)) (\<lambda>rest.
                Inr (\<lparr>NTS_TransportStreamID = tsid, NTS_OriginalNetworkID = onid,
                      NTS_Descriptors = descriptors\<rparr> # rest)))))))
      else if off \<noteq> loopEnd then Inl (Err ErrInvalidSection)
      else Inr [])"
  by pat_completeness auto
termination
  by (relation "measure (\<lambda>(s, loopEnd, off). nat (loopEnd - off))")
    (auto intro: order_less_le_trans [OF _ uint_ge_0] simp: add_strict_increasing)

declare parse_nit_loop.simps [simp del]

definition ParseNIT :: "bytes \<Rightarrow> ts_error fault + NIT" where
  "ParseNIT s =
     rbind (table_check s 16 (\<lambda>t. t = 0x40 \<or> t = 0x41)) (\<lambda>ok. if \<not> ok then Inl (Err ErrInvalidSection) else
     rbind (ParseSectionHeader s) (\<lambda>header.
     rbind (TotalLength s) (\<lambda>total.
     rbind (be16_mask_at 0x0f s 8) (\<lambda>n.
       let sectionEnd = total - 4; descEnd = 10 + uint n
       in if descEnd + 2 > sectionEnd then Inl (Err ErrInvalidSection)
          else rbind (gslice s 10 descEnd) (\<lambda>d. rbind (parseDescriptorsStrict d) (\<lambda>networkDescriptors.
            rbind (be16_mask_at 0x0f s descEnd) (\<lambda>m.
              let loopEnd = descEnd + 2 + uint m
              in if loopEnd \<noteq> sectionEnd then Inl (Err ErrInvalidSection)
                 else rbind (be16_at s 3) (\<lambda>nid. rbind (parse_nit_loop s loopEnd (descEnd + 2)) (\<lambda>tss.
                   Inr \<lparr>NIT_NetworkID = nid, NIT_TableID = SH_TableID header,
                        NIT_VersionNumber = SH_VersionNumber header,
                        NIT_SectionNumber = SH_SectionNumber header,
                        NIT_LastSectionNumber = SH_LastSectionNumber header,
                        NetworkDescriptors = networkDescriptors, TransportStreams = tss\<rparr>)))))))))"

subsection \<open>BIT\<close>

record BITBroadcaster =
  BITB_BroadcasterID :: byte
  BITB_Descriptors :: "bytes list"

record BIT =
  BIT_OriginalNetworkID :: uint16
  BIT_VersionNumber :: byte
  BIT_CurrentNext :: bool
  BIT_SectionNumber :: byte
  BIT_LastSectionNumber :: byte
  BroadcastViewPropriety :: bool
  FirstDescriptors :: "bytes list"
  BIT_Broadcasters :: "BITBroadcaster list"

function parse_bit_loop :: "bytes \<Rightarrow> int \<Rightarrow> int \<Rightarrow> ts_error fault + BITBroadcaster list" where
  "parse_bit_loop s end off =
     (if off < end then
        if off + 3 > end then Inl (Err ErrInvalidSection)
        else rbind (be16_mask_at 0x0f s (off + 1)) (\<lambda>n.
          if off + 3 + uint n > end then Inl (Err ErrInvalidSection)
          else rbind (gslice s (off + 3) (off + 3 + uint n)) (\<lambda>d.
            let descriptors = ParseDescriptors d
            in if descriptorsLength descriptors \<noteq> uint n then Inl (Err ErrInvalidSection)
               else rbind (idx s off) (\<lambda>bid.
                 rbind (parse_bit_loop s end (off + 3 + uint n)) (\<lambda>rest.
                   Inr (\<lparr>BITB_BroadcasterID = bid, BITB_Descriptors = descriptors\<rparr> # rest)))))
      else Inr [])"
  by pat_completeness auto
termination
  by (relation "measure (\<lambda>(s, end, off). nat (end - off))")
    (auto intro: order_less_le_trans [OF _ uint_ge_0] simp: add_strict_increasing)

declare parse_bit_loop.simps [simp del]

definition ParseBIT :: "bytes \<Rightarrow> ts_error fault + BIT" where
  "ParseBIT s =
     (if glen s < 14 then Inl (Err ErrInvalidSection)
      else rbind (TableID s) (\<lambda>tid. if tid \<noteq> 0xC4 then Inl (Err ErrInvalidSection)
      else rbind (SectionSyntaxIndicator s) (\<lambda>ssi. if \<not> ssi then Inl (Err ErrInvalidSection)
      else rbind (TotalLength s) (\<lambda>total. if total > glen s then Inl (Err ErrInvalidSection)
      else rbind (ValidateCRC s) (\<lambda>valid. if \<not> valid then Inl (Err ErrInvalidSection)
      else rbind (be16_mask_at 0x0f s 8) (\<lambda>firstLen.
        let end = total - 4; firstEnd = 10 + uint firstLen
        in if firstEnd > end then Inl (Err ErrInvalidSection)
           else rbind (be16_at s 3) (\<lambda>onid. rbind (idx s 5) (\<lambda>b5. rbind (idx s 6) (\<lambda>b6.
             rbind (idx s 7) (\<lambda>b7. rbind (idx s 8) (\<lambda>b8. rbind (gslice s 10 firstEnd) (\<lambda>d.
             let first = ParseDescriptors d
             in if descriptorsLength first \<noteq> uint firstLen then Inl (Err ErrInvalidSection)
                else rbind (parse_bit_loop s end firstEnd) (\<lambda>bs.
                  Inr \<lparr>BIT_OriginalNetworkID = onid, BIT_VersionNumber = drop_bit 1 b5 AND 0x1f,
                       BIT_CurrentNext = (b5 AND 1 \<noteq> 0), BIT_SectionNumber = b6,
                       BIT_LastSectionNumber = b7, BroadcastViewPropriety = (b8 AND 0x10 \<noteq> 0),
                       FirstDescriptors = first, BIT_Broadcasters = bs\<rparr>)))))))))))))"

subsection \<open>No table parser can index outside its section\<close>

lemma parse_pat_loop_safe: "0 \<le> off \<Longrightarrow> end \<le> glen s \<Longrightarrow> safe (parse_pat_loop s end off pat)"
proof (induction s "end" off pat rule: parse_pat_loop.induct)
  case (1 s "end" off pat)
  then show ?case by (subst parse_pat_loop.simps) (auto intro!: safe_rbind)
qed

lemma parse_pmt_loop_safe: "0 \<le> off \<Longrightarrow> end \<le> glen s \<Longrightarrow> safe (parse_pmt_loop s end off)"
proof (induction s "end" off rule: parse_pmt_loop.induct)
  case (1 s "end" off)
  then show ?case by (subst parse_pmt_loop.simps) (auto intro!: safe_rbind simp: safe_gslice)
qed

lemma parse_sdt_loop_safe: "0 \<le> off \<Longrightarrow> end \<le> glen s \<Longrightarrow> safe (parse_sdt_loop s end off)"
proof (induction s "end" off rule: parse_sdt_loop.induct)
  case (1 s "end" off)
  then show ?case by (subst parse_sdt_loop.simps) (auto intro!: safe_rbind simp: safe_gslice)
qed

lemma parse_nit_loop_safe: "0 \<le> off \<Longrightarrow> end \<le> glen s \<Longrightarrow> safe (parse_nit_loop s end off)"
proof (induction s "end" off rule: parse_nit_loop.induct)
  case (1 s "end" off)
  then show ?case
    by (subst parse_nit_loop.simps)
      (auto intro!: safe_rbind parseDescriptorsStrict_safe simp: safe_gslice)
qed

lemma parse_bit_loop_safe: "0 \<le> off \<Longrightarrow> end \<le> glen s \<Longrightarrow> safe (parse_bit_loop s end off)"
proof (induction s "end" off rule: parse_bit_loop.induct)
  case (1 s "end" off)
  then show ?case
    by (subst parse_bit_loop.simps) (auto intro!: safe_rbind simp: safe_gslice Let_def)
qed

lemma ParseSectionHeader_safe: "safe (ParseSectionHeader s)"
  by (simp add: ParseSectionHeader_eq)

lemmas parse_loops_safe =
  parse_pat_loop_safe parse_pmt_loop_safe parse_sdt_loop_safe parse_nit_loop_safe
  parse_bit_loop_safe parseDescriptorsStrict_safe

lemma ParsePAT_safe: "safe (ParsePAT s)"
  by (auto simp: ParsePAT_def table_check_eq ParseSectionHeader_eq TotalLength_eq
      intro!: safe_rbind parse_loops_safe)

lemma ParsePMT_safe: "safe (ParsePMT s)"
  by (auto simp: ParsePMT_def table_check_eq ParseSectionHeader_eq TotalLength_eq Let_def safe_gslice
      intro!: safe_rbind parse_loops_safe)

lemma ParseSDT_safe: "safe (ParseSDT s)"
  by (auto simp: ParseSDT_def table_check_eq ParseSectionHeader_eq TotalLength_eq
      intro!: safe_rbind parse_loops_safe)

lemma ParseNIT_safe: "safe (ParseNIT s)"
  by (auto simp: ParseNIT_def table_check_eq ParseSectionHeader_eq TotalLength_eq Let_def safe_gslice
      intro!: safe_rbind parse_loops_safe)

lemma ParseBIT_safe: "safe (ParseBIT s)"
  by (auto simp: ParseBIT_def TableID_def SectionSyntaxIndicator_def TotalLength_eq ValidateCRC_eq
      Let_def safe_gslice intro!: safe_rbind parse_loops_safe)

subsection \<open>Properties\<close>

text \<open>
  No table parser indexes or slices outside its section: on every byte string, however
  malformed, PAT, PMT, SDT, NIT and BIT parsing and the section-header parser return a value or
  an error.
\<close>

lemma table_parsers_no_panic:
  "safe (ParseSectionHeader s) \<and> safe (ParsePAT s) \<and> safe (ParsePMT s) \<and> safe (ParseSDT s) \<and>
   safe (ParseNIT s) \<and> safe (ParseBIT s)"
  by (simp add: ParseSectionHeader_safe ParsePAT_safe ParsePMT_safe ParseSDT_safe ParseNIT_safe
      ParseBIT_safe)

end
