(* ===== verification/Eit.thy ===== *)
theory Eit
  imports Tables
begin

text \<open>
  Event information: \<open>ts/eit.go\<close> (the EIT parser and the MJD/BCD time fields) and \<open>ts/tot.go\<close>
  (the time offset table). A \<open>time.Time\<close> is its Unix time in seconds, the zero \<open>Time\<close> being
  January 1 of year 1; a \<open>time.Duration\<close> is its nanoseconds.
\<close>

subsection \<open>The calendar of the time package\<close>

definition is_leap :: "int \<Rightarrow> bool" where
  "is_leap y \<longleftrightarrow> y mod 4 = 0 \<and> (y mod 100 \<noteq> 0 \<or> y mod 400 = 0)"

definition days_before_year :: "int \<Rightarrow> int" where
  "days_before_year y = 365 * (y - 1) + (y - 1) div 4 - (y - 1) div 100 + (y - 1) div 400"

definition days_before_month :: "int \<Rightarrow> int \<Rightarrow> int" where
  "days_before_month y m =
     [0, 31, 59, 90, 120, 151, 181, 212, 243, 273, 304, 334] ! nat (m - 1) +
     (if m > 2 \<and> is_leap y then 1 else 0)"

text \<open>
  \<open>time.Date\<close>: months outside January to December carry into the year, every other value is
  simply added up; the offset of the zone is in seconds east of Greenwich.
\<close>

definition time_Date :: "int \<Rightarrow> int \<Rightarrow> int \<Rightarrow> int \<Rightarrow> int \<Rightarrow> int \<Rightarrow> int \<Rightarrow> int" where
  "time_Date year month day hour minute second zone =
     (let y = year + (month - 1) div 12; m = (month - 1) mod 12 + 1;
          days = days_before_year y + days_before_month y m + (day - 1) - 719162
      in days * 86400 + hour * 3600 + minute * 60 + second - zone)"

definition zeroTime :: int where
  "zeroTime = time_Date 1 1 1 0 0 0 0"

definition jst :: int where
  "jst = 9 * 60 * 60"

subsection \<open>BCD and MJD fields\<close>

definition allBytes :: "bytes \<Rightarrow> byte \<Rightarrow> bool" where
  "allBytes b want = list_all (\<lambda>v. v = want) b"

definition decodeBCDByte :: "byte \<Rightarrow> int option" where
  "decodeBCDByte b =
     (let high = uint (drop_bit 4 b); low = uint (b AND 0x0f)
      in if high > 9 \<or> low > 9 then None else Some (high * 10 + low))"

definition bcd_field :: "byte \<Rightarrow> int \<Rightarrow> ts_error fault + int" where
  "bcd_field b limit =
     (case decodeBCDByte b of
        None \<Rightarrow> Inl (Err ErrInvalidSection)
      | Some v \<Rightarrow> if v > limit then Inl (Err ErrInvalidSection) else Inr v)"

text \<open>
  \<open>int(x / y)\<close> on floats truncates towards zero. The quotients of \<open>parseMJDTime\<close> are computed
  here exactly, with numerator and denominator scaled to integers: none of them is an integer or
  within a rounding error of one (the scaled numerators are never multiples of the
  denominators for a 16-bit day number), so truncating the float gives the same value.
\<close>

definition trunc_div :: "int \<Rightarrow> int \<Rightarrow> int" where
  "trunc_div a b = (if a \<ge> 0 then a div b else - ((- a) div b))"

definition mjd_yp :: "int \<Rightarrow> int" where
  "mjd_yp mjd = trunc_div (100 * mjd - 1507820) 36525"

definition mjd_mp :: "int \<Rightarrow> int" where
  "mjd_mp mjd =
     trunc_div (10000 * (mjd - trunc_div (mjd_yp mjd * 36525) 100) - 149561000) 306001"

definition mjd_date :: "int \<Rightarrow> int \<times> int \<times> int" where
  "mjd_date mjd =
     (let yp = mjd_yp mjd; mp = mjd_mp mjd;
          day = mjd - 14956 - trunc_div (yp * 36525) 100 - trunc_div (mp * 306001) 10000;
          k = (if mp = 14 \<or> mp = 15 then 1 else 0)
      in (yp + k + 1900, mp - 1 - k * 12, day))"

definition parseMJDTime :: "bytes \<Rightarrow> ts_error fault + int" where
  "parseMJDTime b =
     (if glen b \<noteq> 5 then Inl (Err ErrInvalidSection)
      else if allBytes b 0xff then Inr zeroTime
      else rbind (be16_at b 0) (\<lambda>mjd.
        rbind (idx b 2) (\<lambda>h. rbind (bcd_field h 23) (\<lambda>hour.
        rbind (idx b 3) (\<lambda>m. rbind (bcd_field m 59) (\<lambda>minute.
        rbind (idx b 4) (\<lambda>s. rbind (bcd_field s 59) (\<lambda>second.
          case mjd_date (uint mjd) of (year, month, day) \<Rightarrow>
            Inr (time_Date year month day hour minute second jst)))))))))"

definition parseBCDDuration :: "bytes \<Rightarrow> ts_error fault + int" where
  "parseBCDDuration b =
     (if glen b \<noteq> 3 then Inl (Err ErrInvalidSection)
      else if allBytes b 0xff then Inr 0
      else rbind (idx b 0) (\<lambda>h.
        case decodeBCDByte h of None \<Rightarrow> Inl (Err ErrInvalidSection)
        | Some hour \<Rightarrow>
        rbind (idx b 1) (\<lambda>m. rbind (bcd_field m 59) (\<lambda>minute.
        rbind (idx b 2) (\<lambda>s. rbind (bcd_field s 59) (\<lambda>second.
          Inr ((hour * 3600 + minute * 60 + second) * 1000000000)))))))"

subsection \<open>EIT\<close>

record EITEvent =
  EventID :: uint16
  StartTime :: int
  Duration :: int
  EE_RunningStatus :: byte
  EE_FreeCAMode :: bool
  EE_Descriptors :: "bytes list"

record EIT =
  EIT_ServiceID :: uint16
  EIT_TransportStreamID :: uint16
  EIT_OriginalNetworkID :: uint16
  EIT_TableID :: byte
  EIT_VersionNumber :: byte
  EIT_SectionNumber :: byte
  EIT_LastSectionNumber :: byte
  SegmentLastSectionNumber :: byte
  LastTableID :: byte
  Events :: "EITEvent list"

function parse_eit_loop :: "bytes \<Rightarrow> int \<Rightarrow> int \<Rightarrow> ts_error fault + EITEvent list" where
  "parse_eit_loop s sectionEnd off =
     (if off + 12 \<le> sectionEnd then
        rbind (gslice s (off + 2) (off + 7)) (\<lambda>t. rbind (parseMJDTime t) (\<lambda>start.
        rbind (gslice s (off + 7) (off + 10)) (\<lambda>d. rbind (parseBCDDuration d) (\<lambda>duration.
        rbind (be16_mask_at 0x0f s (off + 10)) (\<lambda>n.
          if off + 12 + uint n > sectionEnd then Inl (Err ErrInvalidSection)
          else rbind (gslice s (off + 12) (off + 12 + uint n)) (\<lambda>descriptors.
            rbind (be16_at s off) (\<lambda>eid. rbind (idx s (off + 10)) (\<lambda>st.
              rbind (parse_eit_loop s sectionEnd (off + 12 + uint n)) (\<lambda>rest.
                Inr (\<lparr>EventID = eid, StartTime = start, Duration = duration,
                      EE_RunningStatus = drop_bit 5 st AND 0x07,
                      EE_FreeCAMode = (st AND 0x10 \<noteq> 0),
                      EE_Descriptors = ParseDescriptors descriptors\<rparr> # rest))))))))))
      else if off \<noteq> sectionEnd then Inl (Err ErrInvalidSection)
      else Inr [])"
  by pat_completeness auto
termination
  by (relation "measure (\<lambda>(s, sectionEnd, off). nat (sectionEnd - off))")
    (auto intro: order_less_le_trans [OF _ uint_ge_0] simp: add_strict_increasing)

declare parse_eit_loop.simps [simp del]

definition ParseEIT :: "bytes \<Rightarrow> ts_error fault + EIT" where
  "ParseEIT s =
     rbind (table_check s 18 (\<lambda>t. IsEITPF t \<or> IsEITS t)) (\<lambda>ok. if \<not> ok then Inl (Err ErrInvalidSection) else
     rbind (ParseSectionHeader s) (\<lambda>header.
     rbind (TotalLength s) (\<lambda>total.
     rbind (be16_at s 8) (\<lambda>tsid. rbind (be16_at s 10) (\<lambda>onid.
     rbind (idx s 12) (\<lambda>seg. rbind (idx s 13) (\<lambda>ltid.
     rbind (parse_eit_loop s (total - 4) 14) (\<lambda>events.
       Inr \<lparr>EIT_ServiceID = SH_ServiceID header, EIT_TransportStreamID = tsid,
            EIT_OriginalNetworkID = onid, EIT_TableID = SH_TableID header,
            EIT_VersionNumber = SH_VersionNumber header,
            EIT_SectionNumber = SH_SectionNumber header,
            EIT_LastSectionNumber = SH_LastSectionNumber header,
            SegmentLastSectionNumber = seg, LastTableID = ltid, Events = events\<rparr>))))))))"

subsection \<open>TOT\<close>

record TOT =
  JSTTime :: int
  TOT_Descriptors :: "bytes list"

definition ParseTOT :: "bytes \<Rightarrow> ts_error fault + TOT" where
  "ParseTOT s =
     (if glen s < 14 then Inl (Err ErrInvalidSection)
      else rbind (TableID s) (\<lambda>tid. if tid \<noteq> 0x73 then Inl (Err ErrInvalidSection)
      else rbind (SectionSyntaxIndicator s) (\<lambda>ssi. if ssi then Inl (Err ErrInvalidSection)
      else rbind (TotalLength s) (\<lambda>total. if total > glen s then Inl (Err ErrInvalidSection)
      else rbind (ValidateCRC s) (\<lambda>valid. if \<not> valid then Inl (Err ErrInvalidSection)
      else rbind (gslice s 3 8) (\<lambda>b.
        case parseMJDTime b of
          Inl Panic \<Rightarrow> Inl Panic
        | Inl (Err e) \<Rightarrow> Inl (Err ErrInvalidSection)
        | Inr jstTime \<Rightarrow>
            if jstTime = zeroTime then Inl (Err ErrInvalidSection)
            else rbind (be16_mask_at 0x0f s 8) (\<lambda>n.
              let descEnd = 10 + uint n
              in if descEnd \<noteq> total - 4 then Inl (Err ErrInvalidSection)
                 else rbind (gslice s 10 descEnd) (\<lambda>d.
                   Inr \<lparr>JSTTime = jstTime, TOT_Descriptors = ParseDescriptors d\<rparr>))))))))"

subsection \<open>Safety\<close>

lemma bcd_field_safe [simp]: "safe (bcd_field b limit)"
  by (auto simp: bcd_field_def split: option.splits)

lemma parseMJDTime_safe: "safe (parseMJDTime b)"
  by (auto simp: parseMJDTime_def intro!: safe_rbind split: prod.splits)

lemma parseBCDDuration_safe: "safe (parseBCDDuration b)"
  by (auto simp: parseBCDDuration_def intro!: safe_rbind split: option.splits)

lemma parse_eit_loop_safe: "0 \<le> off \<Longrightarrow> end \<le> glen s \<Longrightarrow> safe (parse_eit_loop s end off)"
proof (induction s "end" off rule: parse_eit_loop.induct)
  case (1 s "end" off)
  then show ?case
    by (subst parse_eit_loop.simps)
      (auto intro!: safe_rbind parseMJDTime_safe parseBCDDuration_safe simp: safe_gslice)
qed

lemma ParseEIT_safe: "safe (ParseEIT s)"
  by (auto simp: ParseEIT_def table_check_eq ParseSectionHeader_eq TotalLength_eq
      intro!: safe_rbind parse_eit_loop_safe)

lemma parseMJDTime_no_panic: "parseMJDTime b \<noteq> Inl Panic"
  using parseMJDTime_safe [of b] by (simp add: safe_def)

lemma ParseTOT_safe: "safe (ParseTOT s)"
  by (auto simp: ParseTOT_def TableID_def SectionSyntaxIndicator_def TotalLength_eq Let_def
      safe_gslice parseMJDTime_no_panic intro!: safe_rbind split: sum.splits fault.splits)

subsection \<open>The calendar arithmetic\<close>

lemma div_pred:
  fixes y n :: int
  assumes "0 < n"
  shows "(y - 1) div n = y div n - (if y mod n = 0 then 1 else 0)"
proof (cases "y mod n = 0")
  case True
  have "y - 1 = n * (y div n - 1) + (n - 1)"
    using True by (simp add: algebra_simps) (metis add.right_neutral mult_div_mod_eq)
  then have "(y - 1) div n = y div n - 1"
    using assms by (intro int_div_pos_eq [of _ _ _ "n - 1"]) simp_all
  with True show ?thesis by simp
next
  case False
  have "y - 1 = n * (y div n) + (y mod n - 1)" by simp
  moreover have "0 \<le> y mod n - 1" "y mod n - 1 < n"
    using False assms pos_mod_bound [of n y] pos_mod_sign [of n y] by linarith+
  ultimately have "(y - 1) div n = y div n" by (rule int_div_pos_eq)
  with False show ?thesis by simp
qed

lemma leap_day:
  "days_before_year y + 59 + (if is_leap y then 1 else 0) =
     365 * y + y div 4 - y div 100 + y div 400 - 306"
proof -
  have "y mod 100 = 0" if "y mod 400 = 0"
    using that mod_mod_cancel [of 100 400 y] by simp
  moreover have "y mod 4 = 0" if "y mod 100 = 0"
    using that mod_mod_cancel [of 4 100 y] by simp
  ultimately show ?thesis
    by (simp add: days_before_year_def is_leap_def div_pred)
qed

lemma days_before_month_eq:
  assumes "3 \<le> m" "m \<le> 12"
  shows "days_before_year y + days_before_month y m =
    365 * y + y div 4 - y div 100 + y div 400 + (153 * (m - 3) + 2) div 5 - 306"
proof -
  consider "m = 3" | "m = 4" | "m = 5" | "m = 6" | "m = 7" | "m = 8"
    | "m = 9" | "m = 10" | "m = 11" | "m = 12"
    using assms by atomize_elim presburger
  then show ?thesis
    by cases (use leap_day [of y] in \<open>simp_all add: days_before_month_def\<close>)
qed

lemma mjd_yp_eq:
  assumes "15079 \<le> mjd"
  shows "36525 * mjd_yp mjd \<le> 100 * mjd - 1507820" "100 * mjd - 1507820 < 36525 * mjd_yp mjd + 36525"
    "0 \<le> mjd_yp mjd"
proof -
  have eq: "mjd_yp mjd = (100 * mjd - 1507820) div 36525"
    using assms by (simp add: mjd_yp_def trunc_div_def)
  have "100 * mjd - 1507820 = 36525 * mjd_yp mjd + (100 * mjd - 1507820) mod 36525"
    unfolding eq by simp
  moreover have "0 \<le> (100 * mjd - 1507820) mod 36525" "(100 * mjd - 1507820) mod 36525 < 36525"
    by simp_all
  ultimately show "36525 * mjd_yp mjd \<le> 100 * mjd - 1507820"
    "100 * mjd - 1507820 < 36525 * mjd_yp mjd + 36525"
    by linarith+
  show "0 \<le> mjd_yp mjd" using assms by (simp add: eq pos_imp_zdiv_nonneg_iff)
qed

lemma year_days: "0 \<le> yp \<Longrightarrow> trunc_div (yp * 36525) 100 = 365 * yp + yp div 4"
proof -
  assume "0 \<le> yp"
  then have "trunc_div (yp * 36525) 100 = (25 * yp + 365 * yp * 100) div (25 * 4)"
    by (simp add: trunc_div_def)
  also have "\<dots> = 365 * yp + (25 * yp) div (25 * 4)" by simp
  also have "\<dots> = 365 * yp + yp div 4" by (simp only: div_mult_mult1_if) simp
  finally show ?thesis .
qed

text \<open>Days into the (March-based) year, counted from the day before November 1 of the year before.\<close>

lemma mjd_day_of_year:
  assumes "15079 \<le> mjd"
  defines "d \<equiv> mjd - 14956 - trunc_div (mjd_yp mjd * 36525) 100"
  shows "123 \<le> d" "d \<le> 488" "mjd_mp mjd = (10000 * d - 1000) div 306001"
    "4 \<le> mjd_mp mjd" "mjd_mp mjd \<le> 15"
proof -
  note yp = mjd_yp_eq [OF assms(1)]
  have d: "d = mjd - 14956 - 365 * mjd_yp mjd - mjd_yp mjd div 4"
    by (simp add: d_def year_days [OF yp(3)])
  have q: "4 * (mjd_yp mjd div 4) \<le> mjd_yp mjd" "mjd_yp mjd < 4 * (mjd_yp mjd div 4) + 4"
    by presburger+
  show b: "123 \<le> d" "d \<le> 488" using yp q d by linarith+
  show mp: "mjd_mp mjd = (10000 * d - 1000) div 306001"
    using b(1) by (simp add: mjd_mp_def d_def trunc_div_def algebra_simps)
  have "(10000 * 123 - 1000) div 306001 \<le> mjd_mp mjd" "mjd_mp mjd \<le> (10000 * 488 - 1000) div 306001"
    unfolding mp using b by (auto intro!: zdiv_mono1)
  then show "4 \<le> mjd_mp mjd" "mjd_mp mjd \<le> 15" by simp_all
qed

lemma days_of_year_1900:
  fixes yp :: int
  assumes "0 \<le> yp" "yp < 200"
  shows "365 * (1900 + yp) + (1900 + yp) div 4 - (1900 + yp) div 100 + (1900 + yp) div 400 =
    693960 + 365 * yp + yp div 4"
proof -
  have "(1900 + yp) div 4 = 475 + yp div 4" by presburger
  moreover have "(1900 + yp) div 400 - (1900 + yp) div 100 = - 15"
  proof (cases "yp < 100")
    case True
    have "(1900 + yp) div 100 = 19" using assms True by (intro int_div_pos_eq [of _ _ _ yp]) simp_all
    moreover have "(1900 + yp) div 400 = 4" using assms True by (intro int_div_pos_eq [of _ _ _ "300 + yp"]) simp_all
    ultimately show ?thesis by simp
  next
    case False
    have "(1900 + yp) div 100 = 20" using assms False by (intro int_div_pos_eq [of _ _ _ "yp - 100"]) simp_all
    moreover have "(1900 + yp) div 400 = 5" using assms False by (intro int_div_pos_eq [of _ _ _ "yp - 100"]) simp_all
    ultimately show ?thesis by simp
  qed
  ultimately show ?thesis by simp
qed

lemma month_days:
  fixes mp :: int
  assumes "4 \<le> mp" "mp \<le> 15"
  shows "trunc_div (mp * 306001) 10000 = (153 * (mp - 4) + 2) div 5 + 122"
proof -
  consider "mp = 4" | "mp = 5" | "mp = 6" | "mp = 7" | "mp = 8" | "mp = 9"
    | "mp = 10" | "mp = 11" | "mp = 12" | "mp = 13" | "mp = 14" | "mp = 15"
    using assms by atomize_elim presburger
  then show ?thesis by cases (simp_all add: trunc_div_def)
qed

text \<open>The date the formula gives for an MJD lies as many days after 1970-01-01 as the MJD does.\<close>

lemma mjd_date_days:
  assumes "15079 \<le> mjd" "mjd \<le> 65535" "mjd_date mjd = (y, m, d)"
  shows "days_before_year y + days_before_month y m + (d - 1) - 719162 = mjd - 40587"
    "1 \<le> m" "m \<le> 12"
proof -
  let ?yp = "mjd_yp mjd" and ?mp = "mjd_mp mjd"
  note yp = mjd_yp_eq [OF assms(1)]
  note mp = mjd_day_of_year(4,5) [OF assms(1)]
  have lt: "?yp < 200" using yp(1) assms(2) by linarith
  have d: "d = mjd - 14956 - (365 * ?yp + ?yp div 4) - ((153 * (?mp - 4) + 2) div 5 + 122)"
    using assms(3) by (auto simp: mjd_date_def Let_def year_days [OF yp(3)] month_days [OF mp])
  have ym: "y = 1900 + ?yp \<and> m = ?mp - 1" if "?mp \<le> 13"
    using assms(3) that by (auto simp: mjd_date_def Let_def)
  have ym': "y = 1901 + ?yp \<and> m = ?mp - 13" if "\<not> ?mp \<le> 13"
    using assms(3) that mp by (auto simp: mjd_date_def Let_def split: if_splits)
  note base = days_of_year_1900 [OF yp(3) lt]
  show "1 \<le> m" "m \<le> 12" using ym ym' mp by (cases "?mp \<le> 13"; force)+
  show "days_before_year y + days_before_month y m + (d - 1) - 719162 = mjd - 40587"
  proof (cases "?mp \<le> 13")
    case True
    have "days_before_year y + days_before_month y m =
        693960 + 365 * ?yp + ?yp div 4 + (153 * (?mp - 4) + 2) div 5 - 306"
      using days_before_month_eq [of "?mp - 1" y] ym [OF True] mp(1) True base by simp
    with d show ?thesis by simp
  next
    case False
    then have m: "m = 1 \<and> ?mp = 14 \<or> m = 2 \<and> ?mp = 15" using ym' mp by auto
    have "days_before_year y = 693960 + 365 * ?yp + ?yp div 4"
      using base ym' [OF False] by (simp add: days_before_year_def)
    with d m show ?thesis by (auto simp: days_before_month_def)
  qed
qed

lemma time_Date_mjd:
  assumes "15079 \<le> mjd" "mjd \<le> 65535" "mjd_date mjd = (y, m, d)"
  shows "time_Date y m d h mi sec zone = (mjd - 40587) * 86400 + h * 3600 + mi * 60 + sec - zone"
proof -
  note b = mjd_date_days [OF assms]
  have "(m - 1) div 12 = 0" "(m - 1) mod 12 = m - 1" using b(2,3) by simp_all
  then show ?thesis using b(1) by (simp add: time_Date_def Let_def)
qed

text \<open>The broadcast encoding of a two-digit number.\<close>

definition bcd :: "int \<Rightarrow> byte" where
  "bcd n = word_of_int (16 * (n div 10) + n mod 10)"

lemma decodeBCDByte_bcd: "0 \<le> n \<Longrightarrow> n \<le> 99 \<Longrightarrow> decodeBCDByte (bcd n) = Some n"
proof -
  assume n: "0 \<le> n" "n \<le> 99"
  have "list_all (\<lambda>n. decodeBCDByte (bcd n) = Some n) [0..99]" by code_simp
  with n show ?thesis by (simp add: list_all_iff)
qed

lemma bcd_field_bcd: "0 \<le> n \<Longrightarrow> n \<le> limit \<Longrightarrow> limit \<le> 99 \<Longrightarrow> bcd_field (bcd n) limit = Inr n"
  by (simp add: bcd_field_def decodeBCDByte_bcd)

lemma bcd_not_ff: "0 \<le> n \<Longrightarrow> n \<le> 99 \<Longrightarrow> bcd n \<noteq> 0xff"
proof
  assume n: "0 \<le> n" "n \<le> 99" and "bcd n = 0xff"
  then have "decodeBCDByte 0xff = Some n" using decodeBCDByte_bcd by metis
  moreover have "decodeBCDByte 0xff = None" by code_simp
  ultimately show False by simp
qed

definition encode_time :: "uint16 \<Rightarrow> int \<Rightarrow> int \<Rightarrow> int \<Rightarrow> bytes" where
  "encode_time mjd h m s = [hi8 mjd, lo8 mjd, bcd h, bcd m, bcd s]"

lemma parseMJDTime_encode:
  assumes "15079 \<le> uint mjd" "0 \<le> h" "h \<le> 23" "0 \<le> m" "m \<le> 59" "0 \<le> s" "s \<le> 59"
  shows "parseMJDTime (encode_time mjd h m s) =
    Inr ((uint mjd - 40587) * 86400 + h * 3600 + m * 60 + s - 9 * 3600)"
proof -
  obtain y mo d where date: "mjd_date (uint mjd) = (y, mo, d)" by (metis prod_cases3)
  have "uint mjd \<le> 65535" using uint_bounded [of mjd] by simp
  from time_Date_mjd [OF assms(1) this date] assms show ?thesis
    by (simp add: parseMJDTime_def encode_time_def allBytes_def bcd_not_ff bcd_field_bcd
        be16_hi_lo date jst_def)
qed

definition encode_duration :: "int \<Rightarrow> int \<Rightarrow> int \<Rightarrow> bytes" where
  "encode_duration h m s = [bcd h, bcd m, bcd s]"

lemma parseBCDDuration_encode:
  assumes "0 \<le> h" "h \<le> 99" "0 \<le> m" "m \<le> 59" "0 \<le> s" "s \<le> 59"
  shows "parseBCDDuration (encode_duration h m s) = Inr ((h * 3600 + m * 60 + s) * 1000000000)"
  using assms
  by (simp add: parseBCDDuration_def encode_duration_def allBytes_def bcd_not_ff
      decodeBCDByte_bcd bcd_field_bcd)

subsection \<open>Properties\<close>

text \<open>
  C30. Broadcast time fields are decoded correctly on their whole range: for every Modified Julian
  Date from March 1, 1900 on and every time of day, the floating-point calendar formula gives
  the instant that lies (MJD - 40587) days after the Unix epoch, at that time of day in JST.
\<close>

theorem parseMJDTime_correct:
  assumes "15079 \<le> uint mjd" "0 \<le> h" "h \<le> 23" "0 \<le> m" "m \<le> 59" "0 \<le> s" "s \<le> 59"
  shows "parseMJDTime [hi8 mjd, lo8 mjd, bcd h, bcd m, bcd s] =
    Inr ((uint mjd - 40587) * 86400 + h * 3600 + m * 60 + s - 9 * 3600)"
  using parseMJDTime_encode [OF assms] by (simp add: encode_time_def)

theorem parseMJDTime_correct_witness:
  "parseMJDTime [hi8 60310, lo8 60310, bcd 12, bcd 34, bcd 56] = Inr 1704080096"
  using parseMJDTime_correct [of 60310 12 34 56] by simp

text \<open>
  The EIT and TOT parsers and their time fields never index or slice outside their input,
  whatever the bytes are.
\<close>

lemma event_parsers_no_panic:
  "safe (ParseEIT s) \<and> safe (ParseTOT s) \<and> safe (parseMJDTime s) \<and> safe (parseBCDDuration s)"
  by (simp add: ParseEIT_safe ParseTOT_safe parseMJDTime_safe parseBCDDuration_safe)

end
