(* ===== verification/TableCodec.thy ===== *)
theory TableCodec
  imports Eit
begin

text \<open>
  The tables as broadcast: reference encoders for the PAT, PMT, SDT, NIT, BIT and EIT sections
  of ISO/IEC 13818-1 and ARIB STD-B10, and the proofs that the parsers of \<open>ts/\<close> read every
  encoded table back exactly.
\<close>

subsection \<open>Reading behind a prefix\<close>

lemma nat_glen_plus [simp]:
  "nat (int n + numeral k) = n + numeral k" "nat (int n + 1) = n + 1"
  by (simp_all add: nat_add_distrib)

lemma nth_append_Suc_length [simp]:
  "(pre @ xs) ! Suc (length pre) = xs ! 1" "(pre @ xs) ! Suc (Suc (length pre)) = xs ! 2"
  by (simp_all add: nth_append numeral_2_eq_2)

lemma be16_mask_at_append: "be16_mask_at m (pre @ a # b # xs) (glen pre) = Inr (be16 (a AND m) b)"
  by simp

lemma gslice_append_off:
  "0 \<le> a \<Longrightarrow> gslice (pre @ xs) (glen pre + a) (glen pre + b) = gslice xs a b"
  by (auto simp: gslice_def nat_add_distrib)

lemma gslice_middle: "gslice (pre @ xs @ post) (glen pre) (glen pre + glen xs) = Inr xs"
  by (simp add: gslice_def)

subsection \<open>Length fields, PIDs and the long section\<close>

definition len12 :: "byte \<Rightarrow> nat \<Rightarrow> bytes" where
  "len12 flags n = [flags OR hi8 (of_nat n), lo8 (of_nat n)]"

lemma length_len12 [simp]: "length (len12 flags n) = 2"
  by (simp add: len12_def)

lemma unat_len12: "n < 4096 \<Longrightarrow> unat (of_nat n :: uint16) = n"
  by (simp add: unat_of_nat)

lemma uint_len12: "n < 4096 \<Longrightarrow> uint (of_nat n :: uint16) = int n"
  using unat_len12 [of n] by (metis uint_nat)

lemma hi8_small:
  assumes "unat w < 4096" "4 \<le> i"
  shows "\<not> bit (hi8 w) i"
  using bit_less_unat [of w 12 "8 + i"] assms by (auto simp: hi8_def bit_simps)

lemma len12_fields:
  assumes "unat w < 4096" "flags AND 0x0f = 0"
  shows "be16 ((flags OR hi8 w) AND 0x0f) (lo8 w) = w"
    "drop_bit 5 (flags OR hi8 w) = drop_bit 5 flags"
    "(flags OR hi8 w) AND 0x10 = flags AND 0x10"
    "(flags OR hi8 w) AND 0x80 = flags AND 0x80"
proof -
  note hi = hi8_small [OF assms(1)]
  have low: "\<not> bit flags i" if "i < 4" for i
  proof -
    have "bit (flags AND 0x0f) i \<longleftrightarrow> bit flags i"
      using that by (auto simp: bit_simps numeral_eq_Suc less_Suc_eq)
    with assms(2) show ?thesis by simp
  qed
  have "(flags OR hi8 w) AND 0x0f = hi8 w"
    by (rule byte_eqI) (simp_all add: bit_simps hi low)
  then show "be16 ((flags OR hi8 w) AND 0x0f) (lo8 w) = w" by simp
  show "drop_bit 5 (flags OR hi8 w) = drop_bit 5 flags"
    by (rule bit_word_eqI) (simp add: bit_simps hi)
  show "(flags OR hi8 w) AND 0x10 = flags AND 0x10" "(flags OR hi8 w) AND 0x80 = flags AND 0x80"
    by (rule byte_eqI; simp add: bit_simps hi)+
qed

lemma pid13_field:
  assumes "unat pid < 8192"
  shows "be16 ((0xe0 OR hi8 pid) AND 0x1f) (lo8 pid) = pid"
proof -
  have hi: "\<not> bit (hi8 pid) i" if "5 \<le> i" for i
    using bit_less_unat [of pid 13 "8 + i"] assms that by (auto simp: hi8_def bit_simps)
  have "(0xe0 OR hi8 pid) AND 0x1f = hi8 pid"
    by (rule byte_eqI) (simp_all add: bit_simps hi)
  then show ?thesis by simp
qed

lemma version_field:
  fixes ver :: byte
  assumes "unat ver < 32"
  shows "drop_bit 1 (0xc0 OR push_bit 1 ver OR of_bool c) AND 0x1f = ver"
    "(0xc0 OR push_bit 1 ver OR of_bool c) AND 1 = of_bool c"
proof -
  have hi: "\<not> bit ver i" if "5 \<le> i" for i
    using bit_less_unat [of ver 5 i] assms that by auto
  show "drop_bit 1 (0xc0 OR push_bit 1 ver OR of_bool c) AND 0x1f = ver"
    by (rule byte_eqI) (simp_all add: bit_simps hi mult.commute [of ver 2] bit_double_iff numeral_2_eq_2)
  show "(0xc0 OR push_bit 1 ver OR of_bool c) AND 1 = of_bool c"
    by (rule byte_eqI) (simp_all add: bit_simps hi mult.commute [of ver 2] bit_double_iff numeral_2_eq_2)
qed

definition long_header :: "byte \<Rightarrow> uint16 \<Rightarrow> byte \<Rightarrow> bool \<Rightarrow> byte \<Rightarrow> byte \<Rightarrow> nat \<Rightarrow> bytes" where
  "long_header tid ext ver cur sn lsn n =
     [tid] @ len12 0xb0 (n + 9) @
     [hi8 ext, lo8 ext, 0xc0 OR push_bit 1 ver OR of_bool cur, sn, lsn]"

definition long_section :: "byte \<Rightarrow> uint16 \<Rightarrow> byte \<Rightarrow> bool \<Rightarrow> byte \<Rightarrow> byte \<Rightarrow> bytes \<Rightarrow> bytes" where
  "long_section tid ext ver cur sn lsn body =
     (let s = long_header tid ext ver cur sn lsn (length body) @ body
      in s @ crc_be (crc32MPEG2 s))"

lemma length_long_header [simp]: "length (long_header tid ext ver cur sn lsn n) = 8"
  by (simp add: long_header_def)

lemma length_long_section [simp]:
  "length (long_section tid ext ver cur sn lsn body) = length body + 12"
  by (simp add: long_section_def Let_def)

lemma long_section_complete:
  assumes "length body + 9 < 4096"
  shows "complete_section (long_section tid ext ver cur sn lsn body)"
    "total_len (long_section tid ext ver cur sn lsn body) = glen body + 12"
proof -
  let ?s = "long_header tid ext ver cur sn lsn (length body) @ body"
  let ?n = "of_nat (length body + 9) :: uint16"
  have n: "unat ?n < 4096" "uint ?n = glen body + 9"
    using unat_len12 [OF assms] uint_len12 [OF assms] assms by simp_all
  have "total_len ?s = 3 + uint (be16 ((0xb0 OR hi8 ?n) AND 0x0f) (lo8 ?n))"
    by (simp add: total_len_def long_header_def len12_def)
  also have "\<dots> = 3 + uint ?n" using n(1) by (subst len12_fields(1)) simp_all
  finally have "total_len ?s = glen ?s + 4" using n(2) by simp
  then show c: "complete_section (long_section tid ext ver cur sn lsn body)"
    unfolding long_section_def Let_def by (intro complete_section_append_crc) simp_all
  then show "total_len (long_section tid ext ver cur sn lsn body) = glen body + 12"
    by (simp add: complete_section_def)
qed

text \<open>The bytes of a long section from offset 8 on, as seen by the parsers.\<close>

lemma long_section_split:
  obtains crc where "long_section tid ext ver cur sn lsn body =
      long_header tid ext ver cur sn lsn (length body) @ body @ crc" "length crc = 4"
  by (simp add: long_section_def Let_def that)

definition long_header_fields ::
  "byte \<Rightarrow> uint16 \<Rightarrow> byte \<Rightarrow> bool \<Rightarrow> byte \<Rightarrow> byte \<Rightarrow> int \<Rightarrow> section_header" where
  "long_header_fields tid ext ver cur sn lsn n =
     \<lparr>SH_TableID = tid, SH_SectionSyntaxIndicator = True, SH_SectionLength = n,
      SH_TransportStreamID = ext, SH_OriginalNetworkID = ext, SH_ServiceID = ext,
      SH_VersionNumber = ver, SH_CurrentNextIndicator = cur,
      SH_SectionNumber = sn, SH_LastSectionNumber = lsn\<rparr>"

lemma long_section_facts:
  fixes tid ver sn lsn :: byte and ext :: uint16 and cur :: bool and body :: bytes
  assumes "length body + 9 < 4096" "unat ver < 32"
  defines "s \<equiv> long_section tid ext ver cur sn lsn body"
  shows "s ! 0 = tid" "crc_ok s" "total_len s = glen body + 12" "length s = length body + 12"
    "TableID s = Inr tid" "SectionSyntaxIndicator s = Inr True"
    "be16_at s 3 = (Inr ext :: ts_error fault + uint16)"
    "s ! 5 = 0xc0 OR push_bit 1 ver OR of_bool cur" "s ! 6 = sn" "s ! 7 = lsn"
    "TotalLength s = Inr (glen body + 12)"
    "ParseSectionHeader s = Inr (long_header_fields tid ext ver cur sn lsn (glen body + 9))"
    "3 \<le> minLen \<Longrightarrow> minLen \<le> glen body + 12 \<Longrightarrow> table_check s minLen wanted = Inr (wanted tid)"
proof -
  note c = long_section_complete [OF assms(1), of tid ext ver cur sn lsn, folded s_def]
  let ?n = "of_nat (length body + 9) :: uint16"
  have top: "(0xb0 OR hi8 ?n) AND 0x80 = 0xb0 AND 0x80"
    using unat_len12 [OF assms(1)] assms(1) by (intro len12_fields(4)) simp_all
  obtain crc where "s = long_header tid ext ver cur sn lsn (length body) @ body @ crc"
    unfolding s_def by (rule long_section_split)
  then have hdr: "s = tid # (0xb0 OR hi8 ?n) # lo8 ?n # hi8 ext # lo8 ext #
      (0xc0 OR push_bit 1 ver OR of_bool cur) # sn # lsn # body @ crc"
    by (simp only: long_header_def len12_def append.simps)
  have nth: "s ! 0 = tid" "s ! 1 = 0xb0 OR hi8 ?n" "s ! 3 = hi8 ext" "s ! 4 = lo8 ext"
    "s ! 5 = 0xc0 OR push_bit 1 ver OR of_bool cur" "s ! 6 = sn" "s ! 7 = lsn"
    unfolding hdr by simp_all
  show "s ! 0 = tid" "crc_ok s" "total_len s = glen body + 12" "length s = length body + 12"
    using c nth by (simp_all add: complete_section_def s_def)
  then show "TableID s = Inr tid" "TotalLength s = Inr (glen body + 12)"
    by (simp_all add: TableID_def TotalLength_eq)
  show "be16_at s 3 = Inr ext" using \<open>length s = _\<close> nth by simp
  show "s ! 5 = 0xc0 OR push_bit 1 ver OR of_bool cur" "s ! 6 = sn" "s ! 7 = lsn" by (rule nth)+
  show "SectionSyntaxIndicator s = Inr True"
    using \<open>length s = _\<close> nth(2) top by (simp add: SectionSyntaxIndicator_def)
  show "ParseSectionHeader s = Inr (long_header_fields tid ext ver cur sn lsn (glen body + 9))"
    using \<open>length s = _\<close> c(2) nth top version_field [OF assms(2), of cur]
    by (simp add: ParseSectionHeader_eq header_of_def long_header_fields_def)
  show "table_check s minLen wanted = Inr (wanted tid)"
    if "3 \<le> minLen" "minLen \<le> glen body + 12"
    using that \<open>length s = _\<close> \<open>crc_ok s\<close> c(2) nth(1) by (simp add: table_check_eq)
qed

subsection \<open>PMT\<close>

definition encode_element :: "PMTElement \<Rightarrow> bytes" where
  "encode_element e =
     [StreamType e, 0xe0 OR hi8 (ElementaryPID e), lo8 (ElementaryPID e)] @
     len12 0xf0 (length (ESInfo e)) @ ESInfo e"

definition wf_element :: "PMTElement \<Rightarrow> bool" where
  "wf_element e \<longleftrightarrow> unat (ElementaryPID e) < 8192 \<and> length (ESInfo e) < 4096 \<and>
     PE_Descriptors e = ParseDescriptors (ESInfo e)"

lemma parse_pmt_loop_encode:
  "list_all wf_element es \<Longrightarrow>
   parse_pmt_loop (pre @ concat (map encode_element es) @ post)
     (glen pre + glen (concat (map encode_element es))) (glen pre) = Inr es"
proof (induction es arbitrary: pre)
  case Nil
  then show ?case by (subst parse_pmt_loop.simps) simp
next
  case (Cons e es)
  let ?rest = "concat (map encode_element es)"
  let ?n = "of_nat (length (ESInfo e)) :: uint16"
  from Cons.prems have wf: "unat (ElementaryPID e) < 8192" "length (ESInfo e) < 4096"
    "PE_Descriptors e = ParseDescriptors (ESInfo e)" by (simp_all add: wf_element_def)
  have n: "unat ?n < 4096" "uint ?n = glen (ESInfo e)"
    using wf(2) unat_len12 [OF wf(2)] uint_len12 [OF wf(2)] by simp_all
  have enc: "encode_element e = StreamType e # (0xe0 OR hi8 (ElementaryPID e)) # lo8 (ElementaryPID e) #
      (0xf0 OR hi8 ?n) # lo8 ?n # ESInfo e"
    by (simp add: encode_element_def len12_def)
  let ?s = "pre @ encode_element e @ ?rest @ post"
  let ?fin = "glen pre + (5 + (glen (ESInfo e) + glen ?rest))"
  have IH: "parse_pmt_loop ?s ?fin (glen pre + 5 + glen (ESInfo e)) = Inr es"
    using Cons.IH [of "pre @ encode_element e"] Cons.prems by (simp add: enc ac_simps)
  have reads: "be16_mask_at 0x0f ?s (glen pre + 3) = (Inr ?n :: ts_error fault + uint16)"
    "idx ?s (glen pre) = (Inr (StreamType e) :: ts_error fault + byte)"
    "be16_mask_at 0x1f ?s (glen pre + 1) = (Inr (ElementaryPID e) :: ts_error fault + uint16)"
    "gslice ?s (glen pre + 5) (glen pre + 5 + uint ?n) = (Inr (ESInfo e) :: ts_error fault + bytes)"
    using n wf(1) gslice_append_off [of 5 pre "encode_element e @ ?rest @ post" "5 + uint ?n"]
    by (simp_all add: enc len12_fields pid13_field add.assoc)
  show ?case
    using IH reads n(2) wf(3) by (subst parse_pmt_loop.simps) (simp add: enc add.assoc)
qed

definition encode_pmt :: "PMT \<Rightarrow> bytes" where
  "encode_pmt pmt = long_section 0x02 (ProgramNumber pmt) (PMT_VersionNumber pmt) True 0 0
     ([0xe0 OR hi8 (PCRPID pmt), lo8 (PCRPID pmt)] @ len12 0xf0 (length (ProgramInfo pmt)) @
      ProgramInfo pmt @ concat (map encode_element (Elements pmt)))"

definition wf_pmt :: "PMT \<Rightarrow> bool" where
  "wf_pmt pmt \<longleftrightarrow> unat (PMT_VersionNumber pmt) < 32 \<and> unat (PCRPID pmt) < 8192 \<and>
     PMT_Descriptors pmt = ParseDescriptors (ProgramInfo pmt) \<and>
     list_all wf_element (Elements pmt) \<and> length (encode_pmt pmt) \<le> 4098"

lemma ParsePMT_encode:
  assumes "wf_pmt pmt"
  shows "ParsePMT (encode_pmt pmt) = Inr pmt"
proof -
  let ?n = "of_nat (length (ProgramInfo pmt)) :: uint16"
  let ?elems = "concat (map encode_element (Elements pmt))"
  let ?pre = "[0xe0 OR hi8 (PCRPID pmt), lo8 (PCRPID pmt), 0xf0 OR hi8 ?n, lo8 ?n]"
  let ?body = "?pre @ ProgramInfo pmt @ ?elems"
  have s: "encode_pmt pmt = long_section 0x02 (ProgramNumber pmt) (PMT_VersionNumber pmt) True 0 0 ?body"
    by (simp add: encode_pmt_def len12_def)
  have wf: "unat (PMT_VersionNumber pmt) < 32" "unat (PCRPID pmt) < 8192" "length ?body + 9 < 4096"
    "length (ProgramInfo pmt) < 4096"
    using assms by (simp_all add: wf_pmt_def s)
  note facts = long_section_facts [where tid = 2 and ext = "ProgramNumber pmt" and cur = True and sn = 0
      and lsn = 0, OF wf(3,1), folded s]
  have n: "unat ?n < 4096" "uint ?n = glen (ProgramInfo pmt)"
    using wf(4) unat_len12 [OF wf(4)] uint_len12 [OF wf(4)] by simp_all
  obtain hdr crc where sp: "encode_pmt pmt = hdr @ ?body @ crc" "length hdr = 8" "length crc = 4"
    unfolding s by (metis long_section_split length_long_header)
  have elems: "parse_pmt_loop (encode_pmt pmt) (8 + glen ?body) (12 + uint ?n) = Inr (Elements pmt)"
    using parse_pmt_loop_encode [of "Elements pmt" "hdr @ ?pre @ ProgramInfo pmt" crc] assms sp n(2)
    by (simp add: wf_pmt_def ac_simps)
  have reads: "be16_mask_at 0x0f (encode_pmt pmt) 10 = (Inr ?n :: ts_error fault + uint16)"
    "be16_mask_at 0x1f (encode_pmt pmt) 8 = (Inr (PCRPID pmt) :: ts_error fault + uint16)"
    "gslice (encode_pmt pmt) 12 (12 + uint ?n) = (Inr (ProgramInfo pmt) :: ts_error fault + bytes)"
    using sp(2,3) n wf(2) by (simp_all add: sp(1) nth_append len12_fields pid13_field)
  show ?thesis
    using facts elems reads n(2) assms
    by (simp add: ParsePMT_def long_header_fields_def Let_def wf_pmt_def)
qed

subsection \<open>SDT\<close>

lemma status_flags:
  fixes rs :: byte and ca :: bool
  assumes "unat rs < 8"
  defines "st \<equiv> push_bit 5 rs OR (if ca then 0x10 else 0 :: byte)"
  shows "st AND 0x0f = 0" "drop_bit 5 st AND 0x07 = rs" "st AND 0x10 \<noteq> 0 \<longleftrightarrow> ca"
proof -
  have hi: "\<not> bit rs i" if "3 \<le> i" for i
    using bit_less_unat [of rs 3 i] assms(1) that by auto
  show "st AND 0x0f = 0" "drop_bit 5 st AND 0x07 = rs"
    unfolding st_def by (rule byte_eqI; simp add: bit_simps hi)+
  have "st AND 0x10 = (if ca then 0x10 else 0)"
    unfolding st_def by (rule byte_eqI; simp add: bit_simps hi)
  then show "st AND 0x10 \<noteq> 0 \<longleftrightarrow> ca" by simp
qed

lemma status_len12:
  fixes rs :: byte and ca :: bool
  assumes "unat rs < 8" "n < 4096"
  obtains st where "len12 (push_bit 5 rs OR (if ca then 0x10 else 0)) n = [st, lo8 (of_nat n)]"
    "be16 (st AND 0x0f) (lo8 (of_nat n)) = of_nat n" "drop_bit 5 st AND 0x07 = rs"
    "st AND 0x10 \<noteq> 0 \<longleftrightarrow> ca"
proof -
  note st = status_flags [OF assms(1), of ca]
  have "unat (of_nat n :: uint16) < 4096" using assms(2) by (simp add: unat_len12)
  note f = len12_fields [OF this st(1)]
  show thesis
    by (rule that [OF len12_def f(1)]) (simp_all only: f st)
qed

definition encode_service :: "SDTService \<Rightarrow> bytes" where
  "encode_service v =
     [hi8 (SDTS_ServiceID v), lo8 (SDTS_ServiceID v),
      0xfc OR (if EITScheduleFlag v then 2 else 0) OR (if EITPresentFollowing v then 1 else 0)] @
     len12 (push_bit 5 (SDTS_RunningStatus v) OR (if SDTS_FreeCAMode v then 0x10 else 0))
       (length (concat (SDTS_Descriptors v))) @ concat (SDTS_Descriptors v)"

definition wf_service :: "SDTService \<Rightarrow> bool" where
  "wf_service v \<longleftrightarrow> unat (SDTS_RunningStatus v) < 8 \<and> list_all wf_desc (SDTS_Descriptors v) \<and>
     length (concat (SDTS_Descriptors v)) < 4096"

lemma ParseDescriptors_wf_concat: "list_all wf_desc ds \<Longrightarrow> ParseDescriptors (concat ds) = ds"
  by (simp add: ParseDescriptors_concat list_all_iff)

lemma parse_sdt_loop_encode:
  "list_all wf_service vs \<Longrightarrow>
   parse_sdt_loop (pre @ concat (map encode_service vs) @ post)
     (glen pre + glen (concat (map encode_service vs))) (glen pre) = Inr vs"
proof (induction vs arbitrary: pre)
  case Nil
  then show ?case by (subst parse_sdt_loop.simps) simp
next
  case (Cons v vs)
  let ?rest = "concat (map encode_service vs)"
  let ?ds = "concat (SDTS_Descriptors v)"
  let ?n = "of_nat (length ?ds) :: uint16"
  let ?fl = "0xfc OR (if EITScheduleFlag v then 2 else 0) OR (if EITPresentFollowing v then 1 else 0) :: byte"
  from Cons.prems have wf: "unat (SDTS_RunningStatus v) < 8" "length ?ds < 4096"
    "ParseDescriptors ?ds = SDTS_Descriptors v"
    by (simp_all add: wf_service_def ParseDescriptors_wf_concat)
  obtain st where st: "len12 (push_bit 5 (SDTS_RunningStatus v) OR (if SDTS_FreeCAMode v then 0x10 else 0))
      (length ?ds) = [st, lo8 ?n]" "be16 (st AND 0x0f) (lo8 ?n) = ?n"
    "drop_bit 5 st AND 0x07 = SDTS_RunningStatus v" "st AND 0x10 \<noteq> 0 \<longleftrightarrow> SDTS_FreeCAMode v"
    using wf(1,2) by (rule status_len12)
  have n: "uint ?n = glen ?ds" by (rule uint_len12 [OF wf(2)])
  have fl: "?fl AND 2 \<noteq> 0 \<longleftrightarrow> EITScheduleFlag v" "?fl AND 1 \<noteq> 0 \<longleftrightarrow> EITPresentFollowing v"
    by simp_all
  have enc: "encode_service v = hi8 (SDTS_ServiceID v) # lo8 (SDTS_ServiceID v) # ?fl #
      st # lo8 ?n # ?ds"
    by (simp add: encode_service_def st(1))
  let ?s = "pre @ encode_service v @ ?rest @ post"
  let ?fin = "glen pre + (5 + (glen ?ds + glen ?rest))"
  have IH: "parse_sdt_loop ?s ?fin (glen pre + 5 + glen ?ds) = Inr vs"
    using Cons.IH [of "pre @ encode_service v"] Cons.prems by (simp add: enc ac_simps)
  have reads: "be16_mask_at 0x0f ?s (glen pre + 3) = (Inr ?n :: ts_error fault + uint16)"
    "be16_at ?s (glen pre) = (Inr (SDTS_ServiceID v) :: ts_error fault + uint16)"
    "idx ?s (glen pre + 2) = (Inr ?fl :: ts_error fault + byte)"
    "idx ?s (glen pre + 3) = (Inr st :: ts_error fault + byte)"
    "gslice ?s (glen pre + 5) (glen pre + (5 + glen ?ds)) = (Inr ?ds :: ts_error fault + bytes)"
    using n st(2) gslice_append_off [of 5 pre "encode_service v @ ?rest @ post" "5 + glen ?ds"]
    by (simp_all add: enc add.assoc)
  have len: "length (encode_service v) = 5 + length ?ds" by (simp add: enc)
  show ?case
    using IH n wf(3)
    by (subst parse_sdt_loop.simps)
      (simp add: reads st(3,4) fl len add.assoc del: gslice_ok idx_ok be16_at_ok be16_mask_at_ok)
qed

definition encode_sdt :: "byte \<Rightarrow> byte \<Rightarrow> byte \<Rightarrow> SDT \<Rightarrow> bytes" where
  "encode_sdt tid sn lsn sdt = long_section tid (SDT_TransportStreamID sdt) (SDT_VersionNumber sdt) True sn lsn
     ([hi8 (SDT_OriginalNetworkID sdt), lo8 (SDT_OriginalNetworkID sdt), 0xff] @
      concat (map encode_service (Services sdt)))"

definition wf_sdt :: "SDT \<Rightarrow> bool" where
  "wf_sdt sdt \<longleftrightarrow> unat (SDT_VersionNumber sdt) < 32 \<and> list_all wf_service (Services sdt) \<and>
     length (concat (map encode_service (Services sdt))) < 4084"

lemma ParseSDT_encode:
  assumes "wf_sdt sdt" "tid = 0x42 \<or> tid = 0x46"
  shows "ParseSDT (encode_sdt tid sn lsn sdt) = Inr sdt"
proof -
  let ?s = "encode_sdt tid sn lsn sdt"
  let ?services = "concat (map encode_service (Services sdt))"
  let ?pre = "[hi8 (SDT_OriginalNetworkID sdt), lo8 (SDT_OriginalNetworkID sdt), 0xff]"
  let ?body = "?pre @ ?services"
  have s: "?s = long_section tid (SDT_TransportStreamID sdt) (SDT_VersionNumber sdt) True sn lsn ?body"
    by (simp only: encode_sdt_def)
  have wf: "unat (SDT_VersionNumber sdt) < 32" "length ?body + 9 < 4096"
    using assms by (simp_all add: wf_sdt_def)
  note facts = long_section_facts [where tid = tid and ext = "SDT_TransportStreamID sdt" and cur = True
      and sn = sn and lsn = lsn, OF wf(2,1), folded s]
  obtain hdr crc where sp: "?s = hdr @ ?body @ crc" "length hdr = 8" "length crc = 4"
    unfolding s by (metis long_section_split length_long_header)
  have loop: "parse_sdt_loop ?s (8 + glen ?body) 11 = Inr (Services sdt)"
    using parse_sdt_loop_encode [of "Services sdt" "hdr @ ?pre" crc] assms sp
    by (simp add: wf_sdt_def)
  have reads: "be16_at ?s 8 = (Inr (SDT_OriginalNetworkID sdt) :: ts_error fault + uint16)"
    using sp(2,3) by (simp add: sp(1) nth_append)
  show ?thesis
    using facts loop reads assms by (simp add: ParseSDT_def long_header_fields_def)
qed

subsection \<open>NIT\<close>

definition encode_stream :: "NITTransportStream \<Rightarrow> bytes" where
  "encode_stream t =
     [hi8 (NTS_TransportStreamID t), lo8 (NTS_TransportStreamID t),
      hi8 (NTS_OriginalNetworkID t), lo8 (NTS_OriginalNetworkID t)] @
     len12 0xf0 (length (concat (NTS_Descriptors t))) @ concat (NTS_Descriptors t)"

definition wf_stream :: "NITTransportStream \<Rightarrow> bool" where
  "wf_stream t \<longleftrightarrow> list_all wf_desc (NTS_Descriptors t) \<and> length (concat (NTS_Descriptors t)) < 4096"

lemma parseDescriptorsStrict_wf_concat:
  "list_all wf_desc ds \<Longrightarrow> parseDescriptorsStrict (concat ds) = Inr ds"
  by (simp add: parseDescriptorsStrict_Inr list_all_iff)

lemma parse_nit_loop_encode:
  "list_all wf_stream ts \<Longrightarrow>
   parse_nit_loop (pre @ concat (map encode_stream ts) @ post)
     (glen pre + glen (concat (map encode_stream ts))) (glen pre) = Inr ts"
proof (induction ts arbitrary: pre)
  case Nil
  then show ?case by (subst parse_nit_loop.simps) simp
next
  case (Cons t ts)
  let ?rest = "concat (map encode_stream ts)"
  let ?ds = "concat (NTS_Descriptors t)"
  let ?n = "of_nat (length ?ds) :: uint16"
  from Cons.prems have wf: "length ?ds < 4096" "parseDescriptorsStrict ?ds = Inr (NTS_Descriptors t)"
    by (simp_all add: wf_stream_def parseDescriptorsStrict_wf_concat)
  have n: "unat ?n < 4096" "uint ?n = glen ?ds"
    using wf(1) unat_len12 [OF wf(1)] uint_len12 [OF wf(1)] by simp_all
  have enc: "encode_stream t = hi8 (NTS_TransportStreamID t) # lo8 (NTS_TransportStreamID t) #
      hi8 (NTS_OriginalNetworkID t) # lo8 (NTS_OriginalNetworkID t) # (0xf0 OR hi8 ?n) # lo8 ?n # ?ds"
    by (simp add: encode_stream_def len12_def)
  let ?s = "pre @ encode_stream t @ ?rest @ post"
  let ?fin = "glen pre + (6 + (glen ?ds + glen ?rest))"
  have IH: "parse_nit_loop ?s ?fin (glen pre + 6 + glen ?ds) = Inr ts"
    using Cons.IH [of "pre @ encode_stream t"] Cons.prems by (simp add: enc ac_simps)
  have reads: "be16_mask_at 0x0f ?s (glen pre + 4) = (Inr ?n :: ts_error fault + uint16)"
    "be16_at ?s (glen pre) = (Inr (NTS_TransportStreamID t) :: ts_error fault + uint16)"
    "be16_at ?s (glen pre + 2) = (Inr (NTS_OriginalNetworkID t) :: ts_error fault + uint16)"
    "gslice ?s (glen pre + 6) (glen pre + (6 + glen ?ds)) = (Inr ?ds :: ts_error fault + bytes)"
    using n gslice_append_off [of 6 pre "encode_stream t @ ?rest @ post" "6 + glen ?ds"]
    by (simp_all add: enc len12_fields add.assoc)
  have len: "length (encode_stream t) = 6 + length ?ds" by (simp add: enc)
  show ?case
    using IH n(2) wf(2)
    by (subst parse_nit_loop.simps)
      (simp add: reads len add.assoc del: gslice_ok idx_ok be16_at_ok be16_mask_at_ok)
qed

definition encode_nit :: "NIT \<Rightarrow> bytes" where
  "encode_nit nit = long_section (NIT_TableID nit) (NIT_NetworkID nit) (NIT_VersionNumber nit) True
     (NIT_SectionNumber nit) (NIT_LastSectionNumber nit)
     (len12 0xf0 (length (concat (NetworkDescriptors nit))) @ concat (NetworkDescriptors nit) @
      len12 0xf0 (length (concat (map encode_stream (TransportStreams nit)))) @
      concat (map encode_stream (TransportStreams nit)))"

definition wf_nit :: "NIT \<Rightarrow> bool" where
  "wf_nit nit \<longleftrightarrow> (NIT_TableID nit = 0x40 \<or> NIT_TableID nit = 0x41) \<and> unat (NIT_VersionNumber nit) < 32 \<and>
     list_all wf_desc (NetworkDescriptors nit) \<and> list_all wf_stream (TransportStreams nit) \<and>
     length (encode_nit nit) \<le> 4098"

lemma ParseNIT_encode:
  assumes "wf_nit nit"
  shows "ParseNIT (encode_nit nit) = Inr nit"
proof -
  let ?s = "encode_nit nit"
  let ?nds = "concat (NetworkDescriptors nit)" and ?tss = "concat (map encode_stream (TransportStreams nit))"
  let ?n = "of_nat (length ?nds) :: uint16" and ?m = "of_nat (length ?tss) :: uint16"
  let ?pre = "[0xf0 OR hi8 ?n, lo8 ?n] @ ?nds @ [0xf0 OR hi8 ?m, lo8 ?m]"
  let ?body = "?pre @ ?tss"
  have s: "?s = long_section (NIT_TableID nit) (NIT_NetworkID nit) (NIT_VersionNumber nit) True
      (NIT_SectionNumber nit) (NIT_LastSectionNumber nit) ?body"
    by (simp add: encode_nit_def len12_def)
  have wf: "unat (NIT_VersionNumber nit) < 32" "length ?body + 9 < 4096"
    using assms by (simp_all add: wf_nit_def s)
  note facts = long_section_facts [where tid = "NIT_TableID nit" and ext = "NIT_NetworkID nit" and cur = True
      and sn = "NIT_SectionNumber nit" and lsn = "NIT_LastSectionNumber nit", OF wf(2,1), folded s]
  have lt: "length ?nds < 4096" "length ?tss < 4096" using wf(2) by simp_all
  have n: "unat ?n < 4096" "uint ?n = glen ?nds" "unat ?m < 4096" "uint ?m = glen ?tss"
    using lt unat_len12 [OF lt(1)] uint_len12 [OF lt(1)] unat_len12 [OF lt(2)] uint_len12 [OF lt(2)]
    by simp_all
  obtain hdr crc where sp: "?s = hdr @ ?body @ crc" "length hdr = 8" "length crc = 4"
    unfolding s by (metis long_section_split length_long_header)
  have loop: "parse_nit_loop ?s (12 + (glen ?nds + glen ?tss)) (12 + glen ?nds) = Inr (TransportStreams nit)"
    using parse_nit_loop_encode [of "TransportStreams nit" "hdr @ ?pre" crc] assms sp
    by (simp add: wf_nit_def ac_simps)
  have reads: "be16_mask_at 0x0f ?s 8 = (Inr ?n :: ts_error fault + uint16)"
    "gslice ?s 10 (10 + glen ?nds) = (Inr ?nds :: ts_error fault + bytes)"
    "be16_mask_at 0x0f ?s (10 + glen ?nds) = (Inr ?m :: ts_error fault + uint16)"
    using sp(2,3) n be16_mask_at_append [of "0x0f" "hdr @ [0xf0 OR hi8 ?n, lo8 ?n] @ ?nds"
        "0xf0 OR hi8 ?m" "lo8 ?m" "?tss @ crc"]
    by (simp_all add: sp(1) nth_append len12_fields del: be16_mask_at_ok)
      (simp_all add: nth_append len12_fields)
  have ds: "parseDescriptorsStrict ?nds = Inr (NetworkDescriptors nit)"
    using assms by (simp add: wf_nit_def parseDescriptorsStrict_wf_concat)
  show ?thesis
    using facts loop reads n assms ds
    by (simp add: ParseNIT_def long_header_fields_def Let_def wf_nit_def add.assoc
        del: be16_mask_at_ok gslice_ok)
qed

subsection \<open>BIT\<close>

definition encode_broadcaster :: "BITBroadcaster \<Rightarrow> bytes" where
  "encode_broadcaster b =
     [BITB_BroadcasterID b] @ len12 0xf0 (length (concat (BITB_Descriptors b))) @ concat (BITB_Descriptors b)"

definition wf_broadcaster :: "BITBroadcaster \<Rightarrow> bool" where
  "wf_broadcaster b \<longleftrightarrow>
     list_all wf_desc (BITB_Descriptors b) \<and> length (concat (BITB_Descriptors b)) < 4096"

lemma parse_bit_loop_encode:
  "list_all wf_broadcaster bs \<Longrightarrow>
   parse_bit_loop (pre @ concat (map encode_broadcaster bs) @ post)
     (glen pre + glen (concat (map encode_broadcaster bs))) (glen pre) = Inr bs"
proof (induction bs arbitrary: pre)
  case Nil
  then show ?case by (subst parse_bit_loop.simps) simp
next
  case (Cons b bs)
  let ?rest = "concat (map encode_broadcaster bs)"
  let ?ds = "concat (BITB_Descriptors b)"
  let ?n = "of_nat (length ?ds) :: uint16"
  from Cons.prems have wf: "length ?ds < 4096" "ParseDescriptors ?ds = BITB_Descriptors b"
    by (simp_all add: wf_broadcaster_def ParseDescriptors_wf_concat)
  have n: "unat ?n < 4096" "uint ?n = glen ?ds"
    using wf(1) unat_len12 [OF wf(1)] uint_len12 [OF wf(1)] by simp_all
  have enc: "encode_broadcaster b = BITB_BroadcasterID b # (0xf0 OR hi8 ?n) # lo8 ?n # ?ds"
    by (simp add: encode_broadcaster_def len12_def)
  let ?s = "pre @ encode_broadcaster b @ ?rest @ post"
  let ?fin = "glen pre + (3 + (glen ?ds + glen ?rest))"
  have IH: "parse_bit_loop ?s ?fin (glen pre + 3 + glen ?ds) = Inr bs"
    using Cons.IH [of "pre @ encode_broadcaster b"] Cons.prems by (simp add: enc ac_simps)
  have reads: "be16_mask_at 0x0f ?s (glen pre + 1) = (Inr ?n :: ts_error fault + uint16)"
    "idx ?s (glen pre) = (Inr (BITB_BroadcasterID b) :: ts_error fault + byte)"
    "gslice ?s (glen pre + 3) (glen pre + (3 + glen ?ds)) = (Inr ?ds :: ts_error fault + bytes)"
    using n gslice_append_off [of 3 pre "encode_broadcaster b @ ?rest @ post" "3 + glen ?ds"]
    by (simp_all add: enc len12_fields add.assoc)
  have len: "length (encode_broadcaster b) = 3 + length ?ds" by (simp add: enc)
  show ?case
    using IH n(2) wf(2)
    by (subst parse_bit_loop.simps)
      (simp add: reads len add.assoc Let_def descriptorsLength_eq
        del: gslice_ok idx_ok be16_at_ok be16_mask_at_ok)
qed

definition encode_bit :: "BIT \<Rightarrow> bytes" where
  "encode_bit t = long_section 0xC4 (BIT_OriginalNetworkID t) (BIT_VersionNumber t) (BIT_CurrentNext t)
     (BIT_SectionNumber t) (BIT_LastSectionNumber t)
     (len12 (0xe0 OR (if BroadcastViewPropriety t then 0x10 else 0)) (length (concat (FirstDescriptors t))) @
      concat (FirstDescriptors t) @ concat (map encode_broadcaster (BIT_Broadcasters t)))"

definition wf_bit :: "BIT \<Rightarrow> bool" where
  "wf_bit t \<longleftrightarrow> unat (BIT_VersionNumber t) < 32 \<and> list_all wf_desc (FirstDescriptors t) \<and>
     list_all wf_broadcaster (BIT_Broadcasters t) \<and> length (encode_bit t) \<le> 4098"

lemma ParseBIT_encode:
  assumes "wf_bit t"
  shows "ParseBIT (encode_bit t) = Inr t"
proof -
  let ?s = "encode_bit t"
  let ?fds = "concat (FirstDescriptors t)" and ?bs = "concat (map encode_broadcaster (BIT_Broadcasters t))"
  let ?n = "of_nat (length ?fds) :: uint16"
  let ?fl = "0xe0 OR (if BroadcastViewPropriety t then 0x10 else 0) :: byte"
  obtain b8 where b8: "b8 = ?fl OR hi8 ?n" by simp
  let ?body = "[b8, lo8 ?n] @ ?fds @ ?bs"
  have s: "?s = long_section 0xC4 (BIT_OriginalNetworkID t) (BIT_VersionNumber t) (BIT_CurrentNext t)
      (BIT_SectionNumber t) (BIT_LastSectionNumber t) ?body"
    by (simp add: encode_bit_def len12_def b8)
  have wf: "unat (BIT_VersionNumber t) < 32" "length ?body + 9 < 4096" "length ?fds < 4096"
    using assms by (simp_all add: wf_bit_def s)
  note facts = long_section_facts [where tid = "0xC4" and ext = "BIT_OriginalNetworkID t"
      and cur = "BIT_CurrentNext t" and sn = "BIT_SectionNumber t" and lsn = "BIT_LastSectionNumber t",
      OF wf(2,1), folded s]
  have n: "unat ?n < 4096" "uint ?n = glen ?fds"
    using wf(3) unat_len12 [OF wf(3)] uint_len12 [OF wf(3)] by simp_all
  have fl: "?fl AND 0x0f = 0" "?fl AND 0x10 \<noteq> 0 \<longleftrightarrow> BroadcastViewPropriety t" by simp_all
  have v: "be16 (b8 AND 0x0f) (lo8 ?n) = ?n" "b8 AND 0x10 \<noteq> 0 \<longleftrightarrow> BroadcastViewPropriety t"
    unfolding b8 using len12_fields [OF n(1) fl(1)] fl(2) by (simp_all only:)
  obtain hdr crc where sp: "?s = hdr @ ?body @ crc" "length hdr = 8" "length crc = 4"
    unfolding s by (metis long_section_split length_long_header)
  have loop: "parse_bit_loop ?s (10 + (glen ?fds + glen ?bs)) (10 + glen ?fds) = Inr (BIT_Broadcasters t)"
    using parse_bit_loop_encode [of "BIT_Broadcasters t" "hdr @ [b8, lo8 ?n] @ ?fds" crc] assms sp
    by (simp add: wf_bit_def ac_simps)
  have reads: "be16_mask_at 0x0f ?s 8 = (Inr ?n :: ts_error fault + uint16)"
    "?s ! 8 = b8" "gslice ?s 10 (10 + glen ?fds) = (Inr ?fds :: ts_error fault + bytes)"
    using sp(2,3) n v by (simp_all add: sp(1) nth_append)
  have ds: "ParseDescriptors ?fds = FirstDescriptors t"
    using assms by (simp add: wf_bit_def ParseDescriptors_wf_concat)
  show ?thesis
    using facts(2-11) loop reads n v ds version_field [OF wf(1), of "BIT_CurrentNext t"]
    by (simp add: ParseBIT_def Let_def descriptorsLength_eq add.assoc
        del: be16_mask_at_ok be16_at_ok gslice_ok)
qed

subsection \<open>EIT\<close>

definition encode_start :: "int \<Rightarrow> bytes" where
  "encode_start t =
     (let u = t + 9 * 3600; r = u mod 86400
      in encode_time (word_of_int (u div 86400 + 40587)) (r div 3600) (r mod 3600 div 60) (r mod 60))"

definition wf_start :: "int \<Rightarrow> bool" where
  "wf_start t \<longleftrightarrow> 15079 \<le> (t + 9 * 3600) div 86400 + 40587 \<and> (t + 9 * 3600) div 86400 + 40587 < 65536"

lemma split_day:
  fixes r :: int
  assumes "0 \<le> r"
  shows "r div 3600 * 3600 + r mod 3600 div 60 * 60 + r mod 60 = r"
proof -
  have "r mod 60 = r mod 3600 mod 60" by (simp add: mod_mod_cancel)
  then show ?thesis by simp
qed

lemma uint_uint16_of_int: "0 \<le> k \<Longrightarrow> k < 65536 \<Longrightarrow> uint (word_of_int k :: uint16) = k"
  by (simp add: uint_word_of_int)

lemma parseMJDTime_start:
  assumes "wf_start t"
  shows "parseMJDTime (encode_start t) = Inr t"
proof -
  let ?u = "t + 9 * 3600"
  let ?r = "?u mod 86400"
  let ?mjd = "word_of_int (?u div 86400 + 40587) :: uint16"
  have mjd: "uint ?mjd = ?u div 86400 + 40587"
    using assms by (intro uint_uint16_of_int) (simp_all add: wf_start_def)
  have lo: "15079 \<le> uint ?mjd" unfolding mjd using assms by (simp add: wf_start_def)
  have r: "0 \<le> ?r" "?r < 86400" by simp_all
  then have "?r div 3600 \<le> (86400 - 1) div 3600" by (intro zdiv_mono1) simp_all
  moreover have "?r mod 3600 div 60 \<le> (3600 - 1) div 60"
    using pos_mod_bound [of 3600 ?r] by (intro zdiv_mono1) simp_all
  moreover have "?r mod 60 \<le> 59" using pos_mod_bound [of 60 ?r] by linarith
  ultimately have "parseMJDTime (encode_start t) =
      Inr ((uint ?mjd - 40587) * 86400 + ?r div 3600 * 3600 + ?r mod 3600 div 60 * 60 + ?r mod 60 - 9 * 3600)"
    unfolding encode_start_def Let_def using r
    by (intro parseMJDTime_encode [OF lo]) (simp_all add: pos_imp_zdiv_nonneg_iff)
  moreover have "(uint ?mjd - 40587) * 86400 + ?r = ?u" unfolding mjd by simp
  then have "(uint ?mjd - 40587) * 86400 + ?r div 3600 * 3600 + ?r mod 3600 div 60 * 60 + ?r mod 60 -
      9 * 3600 = t"
    using split_day [OF r(1)] by linarith
  ultimately show ?thesis by (simp only:)
qed

definition encode_length :: "int \<Rightarrow> bytes" where
  "encode_length d =
     (let r = d div 1000000000 in encode_duration (r div 3600) (r mod 3600 div 60) (r mod 60))"

definition wf_length :: "int \<Rightarrow> bool" where
  "wf_length d \<longleftrightarrow> d mod 1000000000 = 0 \<and> 0 \<le> d \<and> d div 1000000000 < 360000"

lemma parseBCDDuration_length:
  assumes "wf_length d"
  shows "parseBCDDuration (encode_length d) = Inr d"
proof -
  let ?r = "d div 1000000000"
  have r: "0 \<le> ?r" "?r < 360000" using assms by (simp_all add: wf_length_def pos_imp_zdiv_nonneg_iff)
  then have "?r div 3600 \<le> (360000 - 1) div 3600" by (intro zdiv_mono1) simp_all
  moreover have "?r mod 3600 div 60 \<le> (3600 - 1) div 60"
    using pos_mod_bound [of 3600 ?r] by (intro zdiv_mono1) simp_all
  moreover have "?r mod 60 \<le> 59" using pos_mod_bound [of 60 ?r] by linarith
  ultimately have "parseBCDDuration (encode_length d) =
      Inr ((?r div 3600 * 3600 + ?r mod 3600 div 60 * 60 + ?r mod 60) * 1000000000)"
    unfolding encode_length_def Let_def using r
    by (intro parseBCDDuration_encode) (simp_all add: pos_imp_zdiv_nonneg_iff)
  moreover have "?r * 1000000000 = d"
    using assms div_mult_mod_eq [of d 1000000000] by (simp add: wf_length_def)
  ultimately show ?thesis by (simp only: split_day [OF r(1)])
qed

definition encode_event :: "EITEvent \<Rightarrow> bytes" where
  "encode_event e =
     [hi8 (EventID e), lo8 (EventID e)] @ encode_start (StartTime e) @ encode_length (Duration e) @
     len12 (push_bit 5 (EE_RunningStatus e) OR (if EE_FreeCAMode e then 0x10 else 0))
       (length (concat (EE_Descriptors e))) @ concat (EE_Descriptors e)"

definition wf_event :: "EITEvent \<Rightarrow> bool" where
  "wf_event e \<longleftrightarrow> wf_start (StartTime e) \<and> wf_length (Duration e) \<and> unat (EE_RunningStatus e) < 8 \<and>
     list_all wf_desc (EE_Descriptors e) \<and> length (concat (EE_Descriptors e)) < 4096"

lemma encode_event_parts:
  obtains a b c d e where "encode_start t = [a, b, c, d, e]"
  using that by (simp add: encode_start_def encode_time_def Let_def)

lemma encode_length_parts:
  obtains a b c where "encode_length t = [a, b, c]"
  using that by (simp add: encode_length_def encode_duration_def Let_def)

lemma parse_eit_loop_encode:
  "list_all wf_event es \<Longrightarrow>
   parse_eit_loop (pre @ concat (map encode_event es) @ post)
     (glen pre + glen (concat (map encode_event es))) (glen pre) = Inr es"
proof (induction es arbitrary: pre)
  case Nil
  then show ?case by (subst parse_eit_loop.simps) simp
next
  case (Cons e es)
  let ?rest = "concat (map encode_event es)"
  let ?ds = "concat (EE_Descriptors e)"
  let ?n = "of_nat (length ?ds) :: uint16"
  from Cons.prems have wf: "unat (EE_RunningStatus e) < 8" "length ?ds < 4096"
    "ParseDescriptors ?ds = EE_Descriptors e" "wf_start (StartTime e)" "wf_length (Duration e)"
    by (simp_all add: wf_event_def ParseDescriptors_wf_concat)
  obtain st where st: "len12 (push_bit 5 (EE_RunningStatus e) OR (if EE_FreeCAMode e then 0x10 else 0))
      (length ?ds) = [st, lo8 ?n]" "be16 (st AND 0x0f) (lo8 ?n) = ?n"
    "drop_bit 5 st AND 0x07 = EE_RunningStatus e" "st AND 0x10 \<noteq> 0 \<longleftrightarrow> EE_FreeCAMode e"
    using wf(1,2) by (rule status_len12)
  obtain t0 t1 t2 t3 t4 where t: "encode_start (StartTime e) = [t0, t1, t2, t3, t4]"
    by (rule encode_event_parts)
  obtain d0 d1 d2 where d: "encode_length (Duration e) = [d0, d1, d2]" by (rule encode_length_parts)
  have n: "uint ?n = glen ?ds" by (rule uint_len12 [OF wf(2)])
  have enc: "encode_event e = hi8 (EventID e) # lo8 (EventID e) # t0 # t1 # t2 # t3 # t4 #
      d0 # d1 # d2 # st # lo8 ?n # ?ds"
    by (simp add: encode_event_def st(1) t d)
  let ?s = "pre @ encode_event e @ ?rest @ post"
  let ?fin = "glen pre + (12 + (glen ?ds + glen ?rest))"
  have IH: "parse_eit_loop ?s ?fin (glen pre + 12 + glen ?ds) = Inr es"
    using Cons.IH [of "pre @ encode_event e"] Cons.prems by (simp add: enc ac_simps)
  have slices: "gslice ?s (glen pre + 2) (glen pre + 7) = (Inr [t0, t1, t2, t3, t4] :: ts_error fault + bytes)"
    "gslice ?s (glen pre + 7) (glen pre + 10) = (Inr [d0, d1, d2] :: ts_error fault + bytes)"
    "gslice ?s (glen pre + 12) (glen pre + (12 + glen ?ds)) = (Inr ?ds :: ts_error fault + bytes)"
    by (simp_all only: gslice_append_off enc) (simp_all add: numeral_eq_Suc)
  have reads: "be16_mask_at 0x0f ?s (glen pre + 10) = (Inr ?n :: ts_error fault + uint16)"
    "be16_at ?s (glen pre) = (Inr (EventID e) :: ts_error fault + uint16)"
    "idx ?s (glen pre + 10) = (Inr st :: ts_error fault + byte)"
    using n st(2) by (simp_all add: enc add.assoc)
  have len: "length (encode_event e) = 12 + length ?ds" by (simp add: enc)
  show ?case
    using IH n wf(3) parseMJDTime_start [OF wf(4), unfolded t] parseBCDDuration_length [OF wf(5), unfolded d]
    by (subst parse_eit_loop.simps)
      (simp add: slices reads st(3,4) len add.assoc del: gslice_ok idx_ok be16_at_ok be16_mask_at_ok)
qed

definition encode_eit :: "EIT \<Rightarrow> bytes" where
  "encode_eit t = long_section (EIT_TableID t) (EIT_ServiceID t) (EIT_VersionNumber t) True
     (EIT_SectionNumber t) (EIT_LastSectionNumber t)
     ([hi8 (EIT_TransportStreamID t), lo8 (EIT_TransportStreamID t),
       hi8 (EIT_OriginalNetworkID t), lo8 (EIT_OriginalNetworkID t),
       SegmentLastSectionNumber t, LastTableID t] @ concat (map encode_event (Events t)))"

definition wf_eit :: "EIT \<Rightarrow> bool" where
  "wf_eit t \<longleftrightarrow> (IsEITPF (EIT_TableID t) \<or> IsEITS (EIT_TableID t)) \<and> unat (EIT_VersionNumber t) < 32 \<and>
     list_all wf_event (Events t) \<and> length (encode_eit t) \<le> 4098"

lemma ParseEIT_encode:
  assumes "wf_eit t"
  shows "ParseEIT (encode_eit t) = Inr t"
proof -
  let ?s = "encode_eit t"
  let ?es = "concat (map encode_event (Events t))"
  let ?pre = "[hi8 (EIT_TransportStreamID t), lo8 (EIT_TransportStreamID t),
       hi8 (EIT_OriginalNetworkID t), lo8 (EIT_OriginalNetworkID t),
       SegmentLastSectionNumber t, LastTableID t]"
  let ?body = "?pre @ ?es"
  note s = encode_eit_def [of t]
  have wf: "unat (EIT_VersionNumber t) < 32" "length ?body + 9 < 4096"
    using assms by (simp_all add: wf_eit_def s)
  note facts = long_section_facts [where tid = "EIT_TableID t" and ext = "EIT_ServiceID t" and cur = True
      and sn = "EIT_SectionNumber t" and lsn = "EIT_LastSectionNumber t", OF wf(2,1), folded s]
  obtain hdr crc where sp: "?s = hdr @ ?body @ crc" "length hdr = 8" "length crc = 4"
    unfolding s by (metis long_section_split length_long_header)
  have loop: "parse_eit_loop ?s (8 + glen ?body) 14 = Inr (Events t)"
    using parse_eit_loop_encode [of "Events t" "hdr @ ?pre" crc] assms sp by (simp add: wf_eit_def)
  have reads: "be16_at ?s 8 = (Inr (EIT_TransportStreamID t) :: ts_error fault + uint16)"
    "be16_at ?s 10 = (Inr (EIT_OriginalNetworkID t) :: ts_error fault + uint16)"
    "?s ! 12 = SegmentLastSectionNumber t" "?s ! 13 = LastTableID t"
    using sp(2,3) by (simp_all add: sp(1) nth_append)
  show ?thesis
    using facts loop reads assms
    by (simp add: ParseEIT_def long_header_fields_def wf_eit_def del: be16_at_ok)
qed

subsection \<open>PAT\<close>

lemma BuildPATSection_eq:
  assumes "unat pmtPID < 8192"
  shows "BuildPATSection tsid sid pmtPID ver =
    Inr (long_section 0 tsid (ver AND 0x1f) True 0 0 [hi8 sid, lo8 sid, 0xe0 OR hi8 pmtPID, lo8 pmtPID])"
proof -
  have "\<not> pmtPID > 0x1fff" using assms by (simp add: word_less_nat_alt)
  moreover have "0xc1 OR push_bit 1 (ver AND 0x1f) = 0xc0 OR push_bit 1 (ver AND 0x1f) OR of_bool True"
    by (rule byte_eqI) (simp_all add: bit_simps mult.commute [of _ 2] bit_double_iff numeral_2_eq_2)
  ultimately show ?thesis
    by (simp add: BuildPATSection_def long_section_def long_header_def len12_def crc_be_def Let_def)
qed

lemma version_mask: "unat (ver AND 0x1f :: byte) < 32"
  using and_le_mask [of ver "0x1f"] by simp

lemma BuildPATSection_facts:
  assumes "unat pmtPID < 8192" "sid \<noteq> 0"
  obtains s where "BuildPATSection tsid sid pmtPID ver = Inr s" "complete_section s" "length s = 16" "s ! 0 = 0"
    "ParsePAT s = Inr \<lparr>PAT_TransportStreamID = tsid, PAT_VersionNumber = ver AND 0x1f,
       PAT_NetworkPID = 0, PAT_Programs = [sid \<mapsto> pmtPID]\<rparr>"
proof -
  let ?body = "[hi8 sid, lo8 sid, 0xe0 OR hi8 pmtPID, lo8 pmtPID]"
  let ?s = "long_section 0 tsid (ver AND 0x1f) True 0 0 ?body"
  have wf: "length ?body + 9 < 4096" by simp
  note facts = long_section_facts [where tid = 0 and ext = tsid and cur = True and sn = 0 and lsn = 0,
      OF wf version_mask [of ver]]
  obtain hdr crc where sp: "?s = hdr @ ?body @ crc" "length hdr = 8" "length crc = 4"
    by (metis long_section_split length_long_header)
  have reads: "be16_at ?s 8 = (Inr sid :: ts_error fault + uint16)"
    "be16_mask_at 0x1f ?s 10 = (Inr pmtPID :: ts_error fault + uint16)"
    using sp(2,3) by (simp_all add: sp(1) nth_append pid13_field assms(1))
  have loop: "parse_pat_loop ?s 12 8 pat = Inr (pat\<lparr>PAT_Programs := (PAT_Programs pat)(sid \<mapsto> pmtPID)\<rparr>)" for pat
    using reads assms(2)
    by (subst parse_pat_loop.simps) (simp del: be16_at_ok be16_mask_at_ok, subst parse_pat_loop.simps, simp)
  have parse: "ParsePAT ?s = Inr \<lparr>PAT_TransportStreamID = tsid, PAT_VersionNumber = ver AND 0x1f,
       PAT_NetworkPID = 0, PAT_Programs = [sid \<mapsto> pmtPID]\<rparr>"
    using facts by (simp add: ParsePAT_def long_header_fields_def loop)
  show thesis
    by (rule that [OF BuildPATSection_eq [OF assms(1)] _ _ _ parse])
      (use facts(1) long_section_complete(1) [OF wf] in simp_all)
qed

subsection \<open>Properties\<close>

text \<open>
  A PAT built for one service reads back as that service alone: for every transport stream
  id, every service id but 0, every 13-bit PMT PID and every version, the built section is
  complete (length and CRC) and parses to exactly that program.
\<close>

lemma BuildPATSection_roundtrip:
  assumes "unat pmtPID < 8192" "sid \<noteq> 0"
  shows "\<exists>s. BuildPATSection tsid sid pmtPID ver = Inr s \<and> complete_section s \<and>
    ParsePAT s = Inr \<lparr>PAT_TransportStreamID = tsid, PAT_VersionNumber = ver AND 0x1f,
       PAT_NetworkPID = 0, PAT_Programs = [sid \<mapsto> pmtPID]\<rparr>"
  by (rule BuildPATSection_facts [OF assms, of tsid ver]) blast

lemma BuildPATSection_roundtrip_instance:
  "\<exists>s. BuildPATSection 0x7fe1 1024 0x1f0 33 = Inr s \<and> complete_section s \<and>
    ParsePAT s = Inr \<lparr>PAT_TransportStreamID = 0x7fe1, PAT_VersionNumber = 33 AND 0x1f,
       PAT_NetworkPID = 0, PAT_Programs = [1024 \<mapsto> 0x1f0]\<rparr>"
  by (rule BuildPATSection_roundtrip) simp_all

text \<open>
  C32. The PMT, SDT, NIT and BIT parsers are exact: every well-formed table of the broadcast
  format (13-bit PIDs, 5-bit versions, descriptor loops that fit their 12-bit length fields,
  a section of at most 4098 bytes), encoded to a section, is read back field by field.
\<close>

theorem table_parsers_roundtrip:
  "(wf_pmt pmt \<longrightarrow> ParsePMT (encode_pmt pmt) = Inr pmt) \<and>
   (wf_sdt sdt \<and> (tid = 0x42 \<or> tid = 0x46) \<longrightarrow> ParseSDT (encode_sdt tid sn lsn sdt) = Inr sdt) \<and>
   (wf_nit nit \<longrightarrow> ParseNIT (encode_nit nit) = Inr nit) \<and>
   (wf_bit t \<longrightarrow> ParseBIT (encode_bit t) = Inr t)"
  using ParsePMT_encode ParseSDT_encode ParseNIT_encode ParseBIT_encode by blast

definition demo_pmt :: PMT where
  "demo_pmt = \<lparr>ProgramNumber = 1024, PMT_VersionNumber = 3, PCRPID = 0x1ff, ProgramInfo = [9, 4, 0, 5, 0xe9, 1],
     PMT_Descriptors = [[9, 4, 0, 5, 0xe9, 1]],
     Elements = [\<lparr>StreamType = 2, ElementaryPID = 0x111, ESInfo = [0x52, 1, 0],
       PE_Descriptors = [[0x52, 1, 0]]\<rparr>]\<rparr>"

definition demo_sdt :: SDT where
  "demo_sdt = \<lparr>SDT_TransportStreamID = 0x7fe1, SDT_OriginalNetworkID = 0x7fe1, SDT_VersionNumber = 1,
     Services = [\<lparr>SDTS_ServiceID = 1024, EITScheduleFlag = True, EITPresentFollowing = True,
       SDTS_RunningStatus = 4, SDTS_FreeCAMode = False, SDTS_Descriptors = [[0x48, 3, 1, 0, 0]]\<rparr>]\<rparr>"

definition demo_nit :: NIT where
  "demo_nit = \<lparr>NIT_NetworkID = 4, NIT_TableID = 0x40, NIT_VersionNumber = 2, NIT_SectionNumber = 0,
     NIT_LastSectionNumber = 0, NetworkDescriptors = [[0x40, 1, 65]],
     TransportStreams = [\<lparr>NTS_TransportStreamID = 0x4010, NTS_OriginalNetworkID = 4,
       NTS_Descriptors = [[0x41, 3, 0, 101, 1]]\<rparr>]\<rparr>"

definition demo_bit :: BIT where
  "demo_bit = \<lparr>BIT_OriginalNetworkID = 4, BIT_VersionNumber = 2, BIT_CurrentNext = True,
     BIT_SectionNumber = 0, BIT_LastSectionNumber = 0, BroadcastViewPropriety = True,
     FirstDescriptors = [], BIT_Broadcasters = [\<lparr>BITB_BroadcasterID = 1,
       BITB_Descriptors = [[0xd8, 1, 65]]\<rparr>]\<rparr>"

lemma demo_tables_wf: "wf_pmt demo_pmt" "wf_sdt demo_sdt" "wf_nit demo_nit" "wf_bit demo_bit"
proof -
  show "wf_sdt demo_sdt" by code_simp
  have "ParseDescriptors [9, 4, 0, 5, 0xe9, 1] = [[9, 4, 0, 5, 0xe9, 1]]"
    "ParseDescriptors [0x52, 1, 0] = [[0x52, 1, 0]]" by code_simp+
  then show "wf_pmt demo_pmt"
    by (simp add: wf_pmt_def demo_pmt_def encode_pmt_def wf_element_def encode_element_def)
  show "wf_nit demo_nit"
    by (simp add: wf_nit_def demo_nit_def encode_nit_def wf_stream_def encode_stream_def wf_desc_def)
  show "wf_bit demo_bit"
    by (simp add: wf_bit_def demo_bit_def encode_bit_def wf_broadcaster_def encode_broadcaster_def wf_desc_def)
qed

theorem table_parsers_roundtrip_witness:
  "ParsePMT (encode_pmt demo_pmt) = Inr demo_pmt \<and>
   ParseSDT (encode_sdt 0x42 0 1 demo_sdt) = Inr demo_sdt \<and>
   ParseNIT (encode_nit demo_nit) = Inr demo_nit \<and> ParseBIT (encode_bit demo_bit) = Inr demo_bit"
  using table_parsers_roundtrip [of demo_pmt demo_sdt "0x42" 0 1 demo_nit demo_bit] demo_tables_wf
  by blast

text \<open>
  C33. The EIT parser is exact: every well-formed event table (start times from March 1, 1900 to
  April 22, 2038 to the second, durations below 100 hours), encoded with BCD times and MJD
  dates, is read back with the same events, start instants, durations and descriptors.
\<close>

theorem ParseEIT_roundtrip:
  assumes "wf_eit eit"
  shows "ParseEIT (encode_eit eit) = Inr eit"
  using assms by (rule ParseEIT_encode)

definition demo_eit :: EIT where
  "demo_eit = \<lparr>EIT_ServiceID = 1024, EIT_TransportStreamID = 0x7fe1, EIT_OriginalNetworkID = 0x7fe1,
     EIT_TableID = 0x4E, EIT_VersionNumber = 5, EIT_SectionNumber = 0, EIT_LastSectionNumber = 1,
     SegmentLastSectionNumber = 1, LastTableID = 0x4E,
     Events = [\<lparr>EventID = 77, StartTime = 1704080096, Duration = 1800000000000, EE_RunningStatus = 4,
       EE_FreeCAMode = False, EE_Descriptors = [[0x54, 2, 0, 255]]\<rparr>]\<rparr>"

lemma demo_eit_wf: "wf_eit demo_eit"
  by (simp add: wf_eit_def demo_eit_def encode_eit_def wf_event_def encode_event_def wf_desc_def
      IsEITPF_def wf_start_def wf_length_def encode_start_def encode_length_def encode_time_def
      encode_duration_def Let_def)

theorem ParseEIT_roundtrip_witness: "ParseEIT (encode_eit demo_eit) = Inr demo_eit"
  by (rule ParseEIT_roundtrip [OF demo_eit_wf])

end
