(* ===== verification/Tsmf.thy ===== *)
theory Tsmf
  imports PacketReader Crc
begin

text \<open>
  \<open>ts/tsmf.go\<close>: extracting one transport stream from the multiple frames of JCTEA STD-007. The
  frame header assigns each of the 52 packets that follow it to a relative stream; \<open>TSMFReader\<close>
  delivers the packets of one relative stream as bytes.
\<close>

record TSMFFrame =
  tf_slots :: bytes
  tf_slot :: int
  tf_active :: bool

definition new_frame :: TSMFFrame where
  "new_frame = \<lparr>tf_slots = replicate 52 0, tf_slot = 0, tf_active = False\<rparr>"

definition frame_Reset :: "TSMFFrame \<Rightarrow> TSMFFrame" where
  "frame_Reset f = f\<lparr>tf_active := False\<rparr>"

definition header_slots :: "bytes \<Rightarrow> bytes" where
  "header_slots p = map (\<lambda>i. drop_bit (4 * (1 - i mod 2)) (p ! (73 + i div 2)) AND 0x0f) [0..<52]"

definition header_valid :: "bytes \<Rightarrow> bool" where
  "header_valid p \<longleftrightarrow>
     \<not> (let sync = be16 (p ! 4 AND 0x1f) (p ! 5)
        in p ! 1 \<noteq> 0 \<or> p ! 3 AND 0xf0 \<noteq> 0x10 \<or> (sync \<noteq> 0x1a86 \<and> sync \<noteq> 0x0579) \<or>
           p ! 6 AND 0x1f \<noteq> 1 \<or> crc32MPEG2 (drop 4 p) \<noteq> 0)"

definition is_frame_header :: "bytes \<Rightarrow> bool" where
  "is_frame_header p \<longleftrightarrow> PID p = (Inr 0x002f :: unit fault + uint16)"

text \<open>\<open>Feed\<close>: the relative stream and whether the packet is one to deliver or a valid header.\<close>

definition frame_Feed :: "TSMFFrame \<Rightarrow> bytes \<Rightarrow> (byte \<times> bool) \<times> TSMFFrame" where
  "frame_Feed f p =
     (if glen p \<noteq> PacketSize then ((0, False), frame_Reset f)
      else if is_frame_header p then
        let f = frame_Reset f
        in if \<not> header_valid p then ((0, False), f)
           else ((0, True), f\<lparr>tf_slots := header_slots p, tf_active := True, tf_slot := 0\<rparr>)
      else if \<not> tf_active f \<or> tf_slot f \<ge> glen (tf_slots f) then ((0, False), f)
      else
        let relative = tf_slots f ! nat (tf_slot f)
        in ((relative, 1 \<le> relative \<and> relative \<le> 15), f\<lparr>tf_slot := tf_slot f + 1\<rparr>))"

subsection \<open>TSMFReader\<close>

record TSMFReader =
  tr_packets :: packet_reader
  tr_target :: byte
  tr_frame :: TSMFFrame
  tr_pending :: bytes

definition NewTSMFReader :: "reader \<Rightarrow> byte \<Rightarrow> TSMFReader" where
  "NewTSMFReader r relativeTS =
     \<lparr>tr_packets = NewPacketReader r, tr_target = relativeTS, tr_frame = new_frame, tr_pending = []\<rparr>"

text \<open>Every packet taken from the reader uses up bytes of the source, so the search ends.\<close>

definition bytes_left :: "packet_reader \<Rightarrow> nat" where
  "bytes_left pr = length (pr_buf pr) + length (reader_bytes (pr_r pr))"

lemma reads_on_bytes_left: "reads_on pr pr' \<Longrightarrow> bytes_left pr' = bytes_left pr"
  by (auto simp: reads_on_def bytes_left_def)

lemma trim_bytes_left: "bytes_left (trim_to_sync pr) \<le> bytes_left pr"
  by (simp add: trim_to_sync_def bytes_left_def Let_def)

lemma consume_bytes_left:
  "consumePacketInto pos stride pr = (Inr p, pr') \<Longrightarrow> 0 \<le> pos \<Longrightarrow> stride \<noteq> 0 \<Longrightarrow>
   bytes_left pr' < bytes_left pr"
  by (auto simp: consumePacketInto_def Let_def packet_sizes bytes_left_def gslice_def
      split: if_splits sum.splits)

lemma detect_loop_found:
  "detect_loop pos pr = (Some (p, stride), pr') \<Longrightarrow> 0 \<le> pos \<Longrightarrow> 0 \<le> p \<and> stride \<noteq> 0"
  using detect_loop_packet_at [of pos pr p stride pr']
  by (auto simp: packet_at_def stride_ok_def packet_sizes)

lemma keep_stride_facts:
  assumes "keep_stride pr = (ready, pr')"
  shows "bytes_left pr' = bytes_left pr" "ready \<Longrightarrow> pr_stride pr' \<noteq> 0"
proof -
  obtain b pr1 where r: "packetReadyAt 0 (pr_stride pr) pr = (b, pr1)" by fastforce
  note on = packetReadyAt_reads_on [OF r]
  have eq: "(ready, pr') = (if pr_stride pr \<noteq> 0 then
      (b, if b then pr1 else pr1\<lparr>pr_syncLosses := pr_syncLosses pr1 + 1, pr_stride := 0\<rparr>) else (False, pr))"
    using assms r by (cases b) (auto simp: keep_stride_def split: if_splits)
  have l: "bytes_left pr1 = bytes_left pr" by (rule reads_on_bytes_left [OF on])
  show "bytes_left pr' = bytes_left pr"
    using eq l by (auto simp: bytes_left_def split: if_splits)
  show "ready \<Longrightarrow> pr_stride pr' \<noteq> 0"
    using eq on by (auto simp: reads_on_def split: if_splits)
qed

lemma next_loop_consumes: "next_loop pr = (Inr p, pr') \<Longrightarrow> bytes_left pr' < bytes_left pr"
proof (induction pr rule: next_loop.induct)
  case (1 pr)
  obtain err pr1 where f1: "fill minDetectBytes pr = (err, pr1)" by fastforce
  obtain ready pr2 where k: "keep_stride pr1 = (ready, pr2)" by fastforce
  obtain found pr3 where d: "detectPacket pr2 = (found, pr3)" by fastforce
  obtain err' pr4 where
    f2: "fill (glen (pr_buf (trim_to_sync pr3)) + minDetectBytes) (trim_to_sync pr3) = (err', pr4)" by fastforce
  have l: "bytes_left pr1 = bytes_left pr" "bytes_left pr2 = bytes_left pr1" "bytes_left pr3 = bytes_left pr2"
    "bytes_left pr4 \<le> bytes_left pr3"
    using fill_reads_on [OF f1] keep_stride_facts(1) [OF k] fill_reads_on [OF f2]
      detect_loop_reads_on [OF d [unfolded detectPacket_def]] trim_bytes_left [of pr3]
    by (simp_all add: reads_on_bytes_left)
  have ne: "pr_buf pr1 \<noteq> []" using "1.prems" by (auto simp: next_loop.simps [of pr] f1 split: if_splits)
  have cons: "bytes_left pr' < bytes_left pr" if "found = Some (q, st)" "\<not> ready" for q st
  proof -
    have "consumePacketInto q st (pr3\<lparr>pr_stride := st\<rparr>) = (Inr p, pr')"
      using "1.prems" ne that by (simp add: next_loop.simps [of pr] f1 k d)
    moreover have "0 \<le> q \<and> st \<noteq> 0" using detect_loop_found [of 0] d that by (simp add: detectPacket_def)
    ultimately have "bytes_left pr' < bytes_left (pr3\<lparr>pr_stride := st\<rparr>)" by (intro consume_bytes_left) auto
    then show ?thesis using l by (simp add: bytes_left_def)
  qed
  have keep: "bytes_left pr' < bytes_left pr" if ready
  proof -
    have "consumePacketInto 0 (pr_stride pr2) pr2 = (Inr p, pr')"
      using "1.prems" ne that by (simp add: next_loop.simps [of pr] f1 k)
    then show ?thesis using consume_bytes_left keep_stride_facts(2) [OF k that] l by fastforce
  qed
  show ?case
  proof (cases "ready \<or> found \<noteq> None")
    case True
    then show ?thesis using cons keep by (cases found) auto
  next
    case False
    then have nf: "found = None" "\<not> ready" by (cases found; simp)+
    then have n: "pr_readErr pr3 = None" "\<not> (err' \<noteq> None \<and> length (pr_buf pr4) = 0)" "next_loop pr4 = (Inr p, pr')"
      using "1.prems" ne by (auto simp: next_loop.simps [of pr] f1 k d f2 split: if_splits)
    have "bytes_left pr' < bytes_left pr4"
      using "1.IH" [OF f1 [symmetric] _ _ k [symmetric] _ d [symmetric] _ _ f2 [symmetric] n(2,3)]
        nf ne n(1) by simp
    then show ?thesis using l by simp
  qed
qed

function tsmf_search :: "TSMFReader \<Rightarrow> packet_error fault option \<times> TSMFReader" where
  "tsmf_search r =
     (if length (tr_pending r) = 0 then
        (case NextInto PacketSize (tr_packets r) of
           (Inl e, pr) \<Rightarrow> (Some e, r\<lparr>tr_packets := pr\<rparr>)
         | (Inr p, pr) \<Rightarrow>
             let frame = (if pr_syncLosses pr \<noteq> pr_syncLosses (tr_packets r) then frame_Reset (tr_frame r)
                          else tr_frame r)
             in (case frame_Feed frame p of
                   ((relative, ok), frame') \<Rightarrow>
                     let r' = r\<lparr>tr_packets := pr, tr_frame := frame'\<rparr>
                     in if \<not> ok \<or> relative = 0 \<or> relative \<noteq> tr_target r then tsmf_search r'
                        else tsmf_search (r'\<lparr>tr_pending := p\<rparr>)))
      else (None, r))"
  by pat_completeness auto
termination
  by (relation "measure (\<lambda>r. bytes_left (tr_packets r))")
    (auto simp: NextInto_def dest!: next_loop_consumes [OF sym])

declare tsmf_search.simps [simp del]

definition tsmf_Read :: "TSMFReader \<Rightarrow> nat \<Rightarrow> (packet_error fault + bytes) \<times> TSMFReader" where
  "tsmf_Read r dst_len =
     (if dst_len = 0 then (Inr [], r)
      else (case tsmf_search r of
              (Some e, r') \<Rightarrow> (Inl e, r')
            | (None, r') \<Rightarrow> (Inr (take dst_len (tr_pending r')), r'\<lparr>tr_pending := drop dst_len (tr_pending r')\<rparr>)))"

subsection \<open>What the reader delivers\<close>

text \<open>The packets the frame machine assigns to a relative stream, on a stream without sync loss.\<close>

fun selected :: "byte \<Rightarrow> TSMFFrame \<Rightarrow> bytes list \<Rightarrow> bytes list" where
  "selected target f [] = []"
| "selected target f (p # ps) =
     (case frame_Feed f p of
        ((relative, ok), f') \<Rightarrow>
          (if ok \<and> relative \<noteq> 0 \<and> relative = target then [p] else []) @ selected target f' ps)"

text \<open>\<open>n\<close> reads of whole packets, each with a buffer of 188 bytes.\<close>

fun tsmf_reads :: "nat \<Rightarrow> TSMFReader \<Rightarrow> (packet_error fault + bytes) list" where
  "tsmf_reads 0 r = []"
| "tsmf_reads (Suc n) r = (case tsmf_Read r 188 of (res, r') \<Rightarrow> res # tsmf_reads n r')"

lemma tsmf_search_clean:
  assumes "clean_state (tr_packets r) ps" "tr_pending r = []"
  shows "(selected (tr_target r) (tr_frame r) ps = [] \<and> fst (tsmf_search r) = Some (Err (SourceError EOF))) \<or>
    (\<exists>p qs r'. tsmf_search r = (None, r') \<and> tr_pending r' = p \<and> length p = 188 \<and>
       clean_state (tr_packets r') qs \<and> tr_target r' = tr_target r \<and>
       selected (tr_target r) (tr_frame r) ps = p # selected (tr_target r) (tr_frame r') qs)"
  using assms
proof (induction ps arbitrary: r)
  case Nil
  have "fst (NextInto PacketSize (tr_packets r)) = Inl (Err (SourceError EOF))"
    using next_loop_end [OF Nil(1)] by (simp add: NextInto_def)
  then show ?case using Nil(2) by (subst tsmf_search.simps) (auto split: prod.splits)
next
  case (Cons p ps)
  obtain pr where n: "next_loop (tr_packets r) = (Inr p, pr)" "clean_state pr ps"
    "pr_syncLosses pr = pr_syncLosses (tr_packets r)"
    by (rule next_loop_clean [OF Cons.prems(1)])
  obtain rel ok f' where f: "frame_Feed (tr_frame r) p = ((rel, ok), f')" by (metis prod.exhaust)
  let ?r = "r\<lparr>tr_packets := pr, tr_frame := f'\<rparr>"
  have lp: "length p = 188" using Cons.prems(1) by (simp add: clean_state_def good_packet_def)
  show ?case
  proof (cases "ok \<and> rel \<noteq> 0 \<and> rel = tr_target r")
    case True
    have "tsmf_search r = (None, ?r\<lparr>tr_pending := p\<rparr>)"
      using Cons.prems(2) n f True lp
      by (subst tsmf_search.simps) (auto simp: NextInto_def Let_def tsmf_search.simps [of "?r\<lparr>tr_pending := p\<rparr>"])
    then show ?thesis using True f n(2) lp by auto
  next
    case False
    have "tsmf_search r = tsmf_search ?r"
      using Cons.prems(2) n f False by (subst tsmf_search.simps) (auto simp: NextInto_def Let_def)
    then show ?thesis using Cons.IH [of ?r] Cons.prems(2) n(2) f False by auto
  qed
qed

lemma tsmf_reads_clean:
  "clean_state (tr_packets r) ps \<Longrightarrow> tr_pending r = [] \<Longrightarrow>
   selected (tr_target r) (tr_frame r) ps = out \<Longrightarrow>
   tsmf_reads (length out + 1) r = map Inr out @ [Inl (Err (SourceError EOF))]"
proof (induction out arbitrary: r ps)
  case Nil
  with tsmf_search_clean [OF Nil(1,2)] show ?case
    by (auto simp: tsmf_Read_def split: prod.splits)
next
  case (Cons p out)
  from tsmf_search_clean [OF Cons.prems(1,2)] Cons.prems(3) obtain qs r' where
    r': "tsmf_search r = (None, r')" "tr_pending r' = p" "length p = 188" "clean_state (tr_packets r') qs"
      "tr_target r' = tr_target r" "selected (tr_target r) (tr_frame r') qs = out"
    by auto
  have "tsmf_reads (length out + 1) (r'\<lparr>tr_pending := []\<rparr>) = map Inr out @ [Inl (Err (SourceError EOF))]"
    using r' by (intro Cons.IH [of _ qs]) simp_all
  then show ?case using r' by (simp add: tsmf_Read_def)
qed

text \<open>A frame: a valid header and the 52 packets it describes.\<close>

definition wf_frame :: "bytes \<times> bytes list \<Rightarrow> bool" where
  "wf_frame = (\<lambda>(h, ds). good_packet h \<and> is_frame_header h \<and> header_valid h \<and> length ds = 52 \<and>
     list_all (\<lambda>p. good_packet p \<and> \<not> is_frame_header p) ds)"

definition frame_packets :: "byte \<Rightarrow> bytes \<times> bytes list \<Rightarrow> bytes list" where
  "frame_packets target = (\<lambda>(h, ds). map snd (filter (\<lambda>(slot, p). slot = target) (zip (header_slots h) ds)))"

lemma length_header_slots [simp]: "length (header_slots h) = 52"
  by (simp add: header_slots_def)

lemma selected_slots:
  assumes "tf_active f" "length (tf_slots f) = 52" "tf_slot f = int n" "n + length ds \<le> 52"
    "list_all (\<lambda>p. good_packet p \<and> \<not> is_frame_header p) ds" "1 \<le> target" "target \<le> 15"
  shows "selected target f (ds @ rest) =
    map snd (filter (\<lambda>(slot, p). slot = target) (zip (drop n (tf_slots f)) ds)) @
    selected target (f\<lparr>tf_slot := int (n + length ds)\<rparr>) rest"
  using assms
proof (induction ds arbitrary: f n)
  case Nil
  then have "f\<lparr>tf_slot := int n\<rparr> = f" by (cases f) simp
  then show ?case by simp
next
  case (Cons d ds)
  let ?f = "f\<lparr>tf_slot := int (Suc n)\<rparr>"
  have n: "n < length (tf_slots f)" using Cons.prems by simp
  have feed: "frame_Feed f d = ((tf_slots f ! n, 1 \<le> tf_slots f ! n \<and> tf_slots f ! n \<le> 15), ?f)"
    using Cons.prems n by (simp add: frame_Feed_def good_packet_def PacketSize_def Let_def)
  have IH: "selected target ?f (ds @ rest) =
      map snd (filter (\<lambda>(slot, p). slot = target) (zip (drop (Suc n) (tf_slots ?f)) ds)) @
      selected target (?f\<lparr>tf_slot := int (Suc n + length ds)\<rparr>) rest"
    using Cons.prems by (intro Cons.IH) simp_all
  have "target \<noteq> 0" using Cons.prems(6) by auto
  then show ?case
    using feed IH Cons.prems(6,7) Cons_nth_drop_Suc [OF n, symmetric] by auto
qed

lemma selected_frames:
  assumes "list_all wf_frame frames" "1 \<le> target" "target \<le> 15"
  shows "selected target f (concat (map (\<lambda>(h, ds). h # ds) frames)) = concat (map (frame_packets target) frames)"
  using assms(1)
proof (induction frames arbitrary: f)
  case (Cons fr frames)
  obtain h ds where fr: "fr = (h, ds)" by fastforce
  let ?rest = "concat (map (\<lambda>(h, ds). h # ds) frames)"
  let ?f = "f\<lparr>tf_slots := header_slots h, tf_active := True, tf_slot := 0\<rparr>"
  have wf: "good_packet h" "is_frame_header h" "header_valid h" "length ds = 52"
    "list_all (\<lambda>p. good_packet p \<and> \<not> is_frame_header p) ds"
    using Cons.prems fr by (simp_all add: wf_frame_def)
  have "frame_Feed f h = ((0, True), ?f)"
    using wf by (simp add: frame_Feed_def good_packet_def PacketSize_def Let_def frame_Reset_def)
  then have "selected target f (h # ds @ ?rest) = selected target ?f (ds @ ?rest)" by simp
  also have "\<dots> = frame_packets target fr @ selected target (?f\<lparr>tf_slot := int (0 + length ds)\<rparr>) ?rest"
    using selected_slots [of ?f 0 ds target ?rest] wf assms(2,3) by (simp add: frame_packets_def fr)
  finally show ?case using Cons by (simp add: fr)
qed simp

subsection \<open>Properties\<close>


definition demo_frame_body :: bytes where
  "demo_frame_body = [0x1a, 0x86, 0x01] @ replicate 66 0 @ replicate 26 0x12 @ replicate 85 0"

definition demo_frame :: "bytes \<times> bytes list" where
  "demo_frame = ([0x47, 0, 0x2f, 0x10] @ demo_frame_body @ crc_be (crc32MPEG2 demo_frame_body),
     map (\<lambda>i. demo_packet (word_of_nat i)) [0..<52])"

lemma demo_frame_wf: "wf_frame demo_frame"
proof -
  let ?h = "fst demo_frame"
  have h: "?h = 0x47 # 0 # 0x2f # 0x10 # 0x1a # 0x86 # 0x01 # drop 3 demo_frame_body @ crc_be (crc32MPEG2 demo_frame_body)"
    by (simp add: demo_frame_def demo_frame_body_def)
  have len: "length ?h = 188" by (simp add: demo_frame_def demo_frame_body_def)
  have crc: "crc32MPEG2 (drop 4 ?h) = 0"
    by (simp add: demo_frame_def crc32MPEG2_append foldl_crc_byte_self)
  have pid: "PID ?h = (Inr (be16 (0 AND 0x1f) 0x2f) :: unit fault + uint16)"
    by (simp add: packet_accessors_ok(3) [OF len]) (simp add: h)
  have "be16 (0 AND 0x1f) 0x2f = 0x2f" "be16 (0x1a AND 0x1f) 0x86 = 0x1a86" by code_simp+
  then have "is_frame_header ?h" "header_valid ?h"
    using pid crc h by (simp_all add: is_frame_header_def header_valid_def Let_def)
  moreover have "good_packet ?h" using len h by (simp add: good_packet_def SyncByte_def)
  moreover have "\<not> is_frame_header (demo_packet b)" for b
  proof
    assume "is_frame_header (demo_packet b)"
    moreover have "PID (demo_packet b) = (Inr (be16 (b AND 0x1f) b) :: unit fault + uint16)"
      by (simp add: PID_eq demo_packet_def)
    ultimately have e: "be16 (b AND 0x1f) b = 0x2f" by (simp add: is_frame_header_def)
    then have "b = lo8 0x2f" "b AND 0x1f = hi8 0x2f" by (metis lo8_be16, metis hi8_be16)
    then show False by (simp add: lo8_def hi8_def)
  qed
  ultimately show ?thesis
    by (auto simp: wf_frame_def demo_frame_def list_all_iff good_packet_def demo_packet_def SyncByte_def)
qed


end
