(* ===== verification/Packetize.thy ===== *)
theory Packetize
  imports Section
begin

text \<open>
  \<open>packetizeSection\<close> of \<open>ts/demux.go\<close> cuts a section into 188-byte packets; fed to a
  \<open>SectionAssembler\<close> of the same PID the packets give the section back.
\<close>

subsection \<open>packetizeSection\<close>

definition section_packet :: "uint16 \<Rightarrow> bool \<Rightarrow> byte \<Rightarrow> bytes \<Rightarrow> bytes" where
  "section_packet pid first counter remaining =
     (let header = [SyncByte, if first then hi8 pid OR 0x40 else hi8 pid, lo8 pid,
                    0x10 OR (counter AND 0x0f)] @ (if first then [0] else []);
          room = 188 - length header
      in header @ take room remaining @ replicate (room - length remaining) 0xff)"

function packetize_loop :: "uint16 \<Rightarrow> bytes \<Rightarrow> bool \<Rightarrow> byte \<Rightarrow> bytes list \<times> byte" where
  "packetize_loop pid remaining first counter =
     (if first \<or> length remaining > 0 then
        let packet = section_packet pid first counter remaining;
            n = (if first then 183 else 184);
            (packets, counter') =
              packetize_loop pid (drop n remaining) False ((counter + 1) AND 0x0f)
        in (packet # packets, counter')
      else ([], counter))"
  by pat_completeness auto
termination
  by (relation "measure (\<lambda>(pid, remaining, first, counter).
        length remaining + (if first then 1 else 0))") auto

declare packetize_loop.simps [simp del]

definition packetizeSection :: "uint16 \<Rightarrow> bytes \<Rightarrow> byte \<Rightarrow> bytes list \<times> byte" where
  "packetizeSection pid section counter = packetize_loop pid section True counter"

subsection \<open>The header of a packet it builds\<close>

lemma pid_hi8:
  assumes "unat pid < 8192"
  shows "hi8 pid AND 0x1f = hi8 pid" "(hi8 pid OR 0x40) AND 0x1f = hi8 pid"
    "hi8 pid AND 0x80 = 0" "(hi8 pid OR 0x40) AND 0x80 = 0"
    "hi8 pid AND 0x40 = 0" "(hi8 pid OR 0x40) AND 0x40 = 0x40"
proof -
  have b: "\<not> bit pid n" if "13 \<le> n" for n
    using bit_less_unat [of pid 13 n] assms that by force
  show "hi8 pid AND 0x1f = hi8 pid" "(hi8 pid OR 0x40) AND 0x1f = hi8 pid"
    "hi8 pid AND 0x80 = 0" "(hi8 pid OR 0x40) AND 0x80 = 0"
    "hi8 pid AND 0x40 = 0" "(hi8 pid OR 0x40) AND 0x40 = 0x40"
    by (rule byte_eqI; simp add: hi8_def bit_simps b)+
qed

lemma counter_bits:
  "drop_bit 4 (0x10 OR (c AND 0x0f)) AND 0x03 = (1 :: byte)"
  "(0x10 OR (c AND 0x0f)) AND 0x0f = (c AND 0x0f :: byte)"
  "(c AND 0x0f) AND 0x0f = (c AND 0x0f :: byte)"
  by (rule byte_eqI; simp add: bit_simps)+

lemma and_0f: "(c :: byte) AND 0x0f = take_bit 4 c"
  by (rule byte_eqI) (simp_all add: bit_simps)

lemma unat_and_0f: "unat ((c :: byte) AND 0x0f) = unat c mod 16"
  unfolding and_0f by (simp only: unsigned_take_bit_eq) (simp add: take_bit_eq_mod)

lemma counter_succ: "(c AND 0x0f) + 1 AND 0x0f = (c + 1) AND (0x0f :: byte)"
proof -
  have "unat ((c AND 0x0f) + 1 AND 0x0f) = unat ((c + 1) AND (0x0f :: byte))"
    unfolding unat_and_0f unat_word_ariths by (simp add: mod_mod_cancel mod_simps)
  then show ?thesis by (rule unsigned_word_eqI)
qed

lemma length_section_packet [simp]: "length (section_packet pid first c rem) = 188"
  by (auto simp: section_packet_def Let_def min_def)

lemma section_packet_header:
  "section_packet pid first c rem ! 1 = (if first then hi8 pid OR 0x40 else hi8 pid)"
  "section_packet pid first c rem ! 2 = lo8 pid"
  "section_packet pid first c rem ! 3 = 0x10 OR (c AND 0x0f)"
  "drop 4 (section_packet pid first c rem) =
     (if first then 0 # take 183 rem @ replicate (183 - length rem) 0xff
      else take 184 rem @ replicate (184 - length rem) 0xff)"
  by (simp_all add: section_packet_def Let_def eval_nat_numeral del: replicate_Suc)

lemma section_packet_accessors:
  assumes "unat pid < 8192"
  shows "PID (section_packet pid first c rem) = Inr pid"
    "TransportErrorIndicator (section_packet pid first c rem) = Inr False"
    "HasPayload (section_packet pid first c rem) = Inr True"
    "ContinuityCounter (section_packet pid first c rem) = Inr (c AND 0x0f)"
    "PayloadUnitStartIndicator (section_packet pid first c rem) = Inr first"
    "Payload (section_packet pid first c rem) = Inr (drop 4 (section_packet pid first c rem))"
  using pid_hi8 [OF assms] counter_bits [of c]
  by (simp_all add: packet_accessors_ok Payload_eq section_packet_header
      del: One_nat_def)

subsection \<open>Feeding the packets back\<close>

fun feed_list ::
  "section_assembler \<Rightarrow> bytes list \<Rightarrow> ts_error fault + (bytes list \<times> section_assembler)" where
  "feed_list sa [] = Inr ([], sa)"
| "feed_list sa (p # ps) =
     rbind (FeedAll sa p) (\<lambda>(out, sa).
       rbind (feed_list sa ps) (\<lambda>(out', sa). Inr (out @ out', sa)))"

text \<open>The section comes out of the last packet of the list and of no packet before it.\<close>

fun emits_last :: "section_assembler \<Rightarrow> bytes list \<Rightarrow> bytes \<Rightarrow> bool" where
  "emits_last sa [] s \<longleftrightarrow> False"
| "emits_last sa [p] s \<longleftrightarrow> (\<exists>sa'. FeedAll sa p = Inr ([s], sa'))"
| "emits_last sa (p # q # ps) s \<longleftrightarrow>
     (\<exists>sa'. FeedAll sa p = Inr ([], sa') \<and> emits_last sa' (q # ps) s)"

lemma emits_last_Cons:
  "FeedAll sa p = Inr ([], sa') \<Longrightarrow> emits_last sa' ps s \<Longrightarrow> emits_last sa (p # ps) s"
  by (cases ps) auto

lemma emits_last_feed_list:
  "emits_last sa ps s \<Longrightarrow> returns (feed_list sa ps) (\<lambda>(out, sa'). out = [s])"
  by (induction sa ps s rule: emits_last.induct) (simp, fastforce simp: returns_def, fastforce simp: returns_def)

lemma FeedAll_continue:
  assumes "unat pid < 8192" "sa_pid sa = pid" "sa_expecting sa"
    "c = (sa_lastCounter sa + 1) AND 0x0f" "rem \<noteq> []"
  shows "FeedAll sa (section_packet pid False c rem) =
    completeSections (sa\<lparr>sa_lastCounter := c, sa_buffer :=
      sa_buffer sa @ take 184 rem @ replicate (184 - length rem) 0xff\<rparr>) False []"
  using assms counter_bits(3) [of "sa_lastCounter sa + 1"]
  by (simp add: FeedAll_def section_packet_accessors section_packet_header)

lemma feed_unit_start_zero:
  "feed_unit_start sa (0 # rest) =
     consumePayload (sa\<lparr>sa_buffer := [], sa_expecting := False\<rparr>) rest []"
  by (simp add: feed_unit_start_def Let_def rbind_def split: sum.splits)

lemma FeedAll_start:
  assumes "unat pid < 8192" "sa_pid sa = pid"
  shows "\<exists>sa1. sa_pid sa1 = pid \<and> sa_buffer sa1 = [] \<and> \<not> sa_expecting sa1 \<and>
    sa_lastCounter sa1 = c AND 0x0f \<and>
    FeedAll sa (section_packet pid True c s) =
      consumePayload sa1 (take 183 s @ replicate (183 - length s) 0xff) []"
proof -
  let ?rest = "take 183 s @ replicate (183 - length s) 0xff"
  let ?sa1 = "sa\<lparr>sa_lastCounter := c AND 0x0f, sa_buffer := [], sa_expecting := False\<rparr>"
  have "FeedAll sa (section_packet pid True c s) = consumePayload ?sa1 ?rest []"
    using assms by (simp add: FeedAll_def section_packet_accessors section_packet_header feed_unit_start_zero Let_def)
  with assms show ?thesis by (intro exI [of _ ?sa1]) simp
qed

lemma total_len_stuffing: "3 \<le> k \<Longrightarrow> total_len (replicate k 0xff) = 4098"
  by (simp add: total_len_def be16_def)

lemma total_len_append: "3 \<le> length s \<Longrightarrow> total_len (s @ t) = total_len s"
  by (simp add: total_len_def nth_append)

lemma complete_sectionD:
  "complete_section s \<Longrightarrow> 4 \<le> length s \<and> nat (total_len s) = length s \<and> length s \<le> 4098"
  using total_len_bounds [of s] by (auto simp: complete_section_def crc_ok_def)

lemma completeSections_last:
  assumes "complete_section s" "sa_buffer sa = s @ replicate k 0xff" "k \<le> 184"
  shows "\<exists>sa'. completeSections sa False [] = Inr ([s], sa')"
proof -
  note s = complete_sectionD [OF assms(1)]
  have tl: "total_len (s @ replicate k 0xff) = total_len s" "nat (total_len s) = length s"
    using s by (simp_all add: total_len_append)
  have ok: "crc_ok s" "total_len s = glen s" using assms(1) by (simp_all add: complete_section_def)
  let ?sa = "sa\<lparr>sa_buffer := replicate k 0xff\<rparr>"
  have "completeSections sa False [] =
      (if k = 0 then Inr ([s], ?sa\<lparr>sa_expecting := False\<rparr>) else completeSections ?sa False [s])"
    using s assms(2) ok by (subst completeSections_step) (simp_all add: tl assms(2))
  moreover have "\<exists>sa'. completeSections ?sa False [s] = Inr ([s], sa')"
    using assms(3) by (cases "k < 3")
      (simp_all add: completeSections_short completeSections_wait total_len_stuffing)
  ultimately show ?thesis by auto
qed

lemma feed_continuation:
  assumes "complete_section s" "unat pid < 8192"
  shows "sa_pid sa = pid \<Longrightarrow> sa_expecting sa \<Longrightarrow> sa_buffer sa = take m s \<Longrightarrow> 3 \<le> m \<Longrightarrow>
    m < length s \<Longrightarrow> c = (sa_lastCounter sa + 1) AND 0x0f \<Longrightarrow>
    emits_last sa (fst (packetize_loop pid (drop m s) False c)) s"
proof (induction "length s - m" arbitrary: m sa c rule: less_induct)
  case less
  note s = complete_sectionD [OF assms(1)]
  let ?rem = "drop m s"
  let ?sa = "sa\<lparr>sa_lastCounter := c, sa_buffer :=
      sa_buffer sa @ take 184 ?rem @ replicate (184 - length ?rem) 0xff\<rparr>"
  have feed: "FeedAll sa (section_packet pid False c ?rem) = completeSections ?sa False []"
    using less.prems assms(2) by (intro FeedAll_continue) auto
  have pk: "fst (packetize_loop pid ?rem False c) =
      section_packet pid False c ?rem #
        fst (packetize_loop pid (drop (m + 184) s) False ((c + 1) AND 0x0f))"
    using less.prems by (subst packetize_loop.simps) (simp add: split_beta add.commute)
  show ?case
  proof (cases "length s \<le> m + 184")
    case True
    have "sa_buffer ?sa = s @ replicate (184 - length ?rem) 0xff"
      using True less.prems by (simp add: append_assoc [symmetric] del: append_assoc)
    from completeSections_last [OF assms(1) this] obtain sa' where
      "completeSections ?sa False [] = Inr ([s], sa')" by auto
    moreover have "fst (packetize_loop pid (drop (m + 184) s) False ((c + 1) AND 0x0f)) = []"
      using True by (subst packetize_loop.simps) simp
    ultimately show ?thesis by (simp add: pk feed)
  next
    case False
    have buf: "sa_buffer ?sa = take (m + 184) s"
      using False less.prems by (simp add: take_add)
    have "total_len (take (m + 184) s) = glen s"
      using assms(1) s by (simp add: total_len_take complete_section_def)
    then have "completeSections ?sa False [] = Inr ([], ?sa\<lparr>sa_expecting := True\<rparr>)"
      using False s buf by (intro completeSections_wait) (simp_all only: buf, simp_all)
    moreover have "emits_last (?sa\<lparr>sa_expecting := True\<rparr>)
        (fst (packetize_loop pid (drop (m + 184) s) False ((c + 1) AND 0x0f))) s"
      using less.prems False buf by (intro less.hyps) auto
    ultimately show ?thesis unfolding pk by (intro emits_last_Cons) (simp_all add: feed)
  qed
qed

lemma emits_packetizeSection:
  assumes "complete_section s" "s ! 0 \<noteq> 0xff" "unat pid < 8192" "sa_pid sa = pid"
  shows "emits_last sa (fst (packetizeSection pid s c)) s"
proof -
  note s = complete_sectionD [OF assms(1)]
  have ok: "crc_ok s" "total_len s = glen s" using assms(1) by (simp_all add: complete_section_def)
  let ?rest = "take 183 s @ replicate (183 - length s) 0xff"
  obtain sa1 where sa1: "sa_pid sa1 = pid" "sa_buffer sa1 = []" "\<not> sa_expecting sa1"
      "sa_lastCounter sa1 = c AND 0x0f"
      "FeedAll sa (section_packet pid True c s) = consumePayload sa1 ?rest []"
    using FeedAll_start [OF assms(3,4), of c s] by auto
  have pk: "fst (packetizeSection pid s c) = section_packet pid True c s #
      fst (packetize_loop pid (drop 183 s) False ((c + 1) AND 0x0f))"
    unfolding packetizeSection_def by (subst packetize_loop.simps) (simp add: split_beta)
  show ?thesis
  proof (cases "length s \<le> 183")
    case True
    have "consumePayload sa1 ?rest [] = consumePayload sa1 (replicate (183 - length s) 0xff) [s]"
      using True s assms(2) ok
      by (subst consumePayload_step) (auto simp: total_len_append nth_append)
    also have "\<dots> = Inr ([s], sa1)"
      by (rule consumePayload_stop) auto
    moreover have "fst (packetize_loop pid (drop 183 s) False ((c + 1) AND 0x0f)) = []"
      using True by (subst packetize_loop.simps) simp
    ultimately show ?thesis by (simp add: pk sa1)
  next
    case False
    have "total_len (take 183 s) = glen s"
      using s ok by (simp add: total_len_take)
    then have "consumePayload sa1 ?rest [] =
        Inr ([], sa1\<lparr>sa_buffer := take 183 s, sa_expecting := True\<rparr>)"
      using False assms(2) by (subst consumePayload_wait) simp_all
    moreover have "emits_last (sa1\<lparr>sa_buffer := take 183 s, sa_expecting := True\<rparr>)
        (fst (packetize_loop pid (drop 183 s) False ((c + 1) AND 0x0f))) s"
      using False sa1 counter_succ [of c] by (intro feed_continuation assms) auto
    ultimately show ?thesis unfolding pk by (intro emits_last_Cons) (simp_all add: sa1)
  qed
qed

lemmas feed_packetizeSection = emits_last_feed_list [OF emits_packetizeSection]

subsection \<open>Properties\<close>

text \<open>
  C34. Packetizing and reassembling are inverse: the packets \<open>packetizeSection\<close> cuts a complete
  section into, fed to an assembler for that PID in whatever state it is, give back exactly that
  section and nothing else.
\<close>

theorem packetizeSection_roundtrip:
  assumes "complete_section s" "s ! 0 \<noteq> 0xff" "unat pid < 8192" "sa_pid sa = pid"
  shows "returns (feed_list sa (fst (packetizeSection pid s counter))) (\<lambda>(out, sa'). out = [s])"
  using assms by (rule feed_packetizeSection)

definition demo_pat :: bytes where
  "demo_pat = (let body = [0x00, 0xb0, 0x0d, 0x7f, 0xe1, 0xc1, 0, 0, 0x04, 0x00, 0xe1, 0xf0]
               in body @ crc_be (crc32MPEG2 body))"

lemma demo_pat_complete: "complete_section demo_pat"
  unfolding demo_pat_def Let_def
  by (rule complete_section_append_crc) (simp, code_simp)

theorem packetizeSection_roundtrip_witness:
  "returns (feed_list (NewSectionAssembler 0) (fst (packetizeSection 0 demo_pat 7)))
     (\<lambda>(out, sa'). out = [demo_pat])"
proof -
  have first: "demo_pat ! 0 \<noteq> 0xff" by (simp add: demo_pat_def Let_def)
  show ?thesis
    by (rule packetizeSection_roundtrip [OF demo_pat_complete first])
      (simp_all add: NewSectionAssembler_def)
qed

end
