(* ===== verification/Demux.thy ===== *)
theory Demux
  imports TableCodec Packetize "HOL-Library.AList"
begin

text \<open>
  The transport-stream demultiplexer (\<open>ts/demux.go\<close>): one \<open>Demuxer\<close> assembles the PSI sections of a
  stream, follows PAT, CAT and PMT, and turns packets of the stream into the packets of single
  services, each with a PAT of its own. Go maps with values are maps, sets kept as
  \<open>map[uint16]bool\<close> are sets, and the section map of a \<open>tableSectionSet\<close> is an association list,
  since its size matters. The order in which Go iterates over a map is not specified; where the
  result depends on it, it is the parameter \<open>order\<close>.
\<close>

subsection \<open>Collecting the sections of a table\<close>

record tableSectionSet =
  ts_initialized :: bool
  ts_extension :: uint16
  ts_version :: byte
  ts_last :: byte
  ts_sections :: "(byte \<times> bytes) list"

definition new_section_set :: tableSectionSet where
  "new_section_set = \<lparr>ts_initialized = False, ts_extension = 0, ts_version = 0, ts_last = 0, ts_sections = []\<rparr>"

definition section_numbers :: "tableSectionSet \<Rightarrow> byte list" where
  "section_numbers s = map word_of_nat [0..<unat (ts_last s) + 1]"

definition starts_version :: "tableSectionSet \<Rightarrow> section_header \<Rightarrow> bool" where
  "starts_version s header \<longleftrightarrow>
     \<not> ts_initialized s \<or> ts_extension s \<noteq> SH_TransportStreamID header \<or>
     ts_version s \<noteq> SH_VersionNumber header \<or> ts_last s \<noteq> SH_LastSectionNumber header"

definition store_section :: "tableSectionSet \<Rightarrow> section_header \<Rightarrow> bytes \<Rightarrow> tableSectionSet" where
  "store_section s header section =
     (let s = (if starts_version s header
               then \<lparr>ts_initialized = True, ts_extension = SH_TransportStreamID header,
                     ts_version = SH_VersionNumber header, ts_last = SH_LastSectionNumber header,
                     ts_sections = []\<rparr>
               else s)
      in s\<lparr>ts_sections := AList.update (SH_SectionNumber header) section (ts_sections s)\<rparr>)"

definition all_sections :: "tableSectionSet \<Rightarrow> bool" where
  "all_sections s \<longleftrightarrow> length (ts_sections s) = unat (ts_last s) + 1 \<and>
     list_all (\<lambda>n. map_of (ts_sections s) n \<noteq> None) (section_numbers s)"

definition add :: "tableSectionSet \<Rightarrow> bytes \<Rightarrow> ts_error fault + ((bool \<times> bool) \<times> tableSectionSet)" where
  "add s section =
     (case ParseSectionHeader section of
        Inl Panic \<Rightarrow> Inl Panic
      | Inl (Err e) \<Rightarrow> Inr ((False, False), s)
      | Inr header \<Rightarrow>
          if \<not> SH_CurrentNextIndicator header \<or> SH_SectionNumber header > SH_LastSectionNumber header
          then Inr ((False, False), s)
          else
            let s' = store_section s header section
            in Inr ((starts_version s header, all_sections s'), s'))"

definition ordered :: "tableSectionSet \<Rightarrow> bytes list" where
  "ordered s = map (\<lambda>n. case map_of (ts_sections s) n of None \<Rightarrow> [] | Some section \<Rightarrow> section) (section_numbers s)"

subsection \<open>The demultiplexer's state\<close>

record demuxProgram =
  dp_pmtPID :: uint16
  dp_pids :: "uint16 set"
  dp_sectionPIDs :: "uint16 set"

record demuxServiceOutput =
  do_generation :: "64 word"
  do_patCounter :: byte
  do_patIndex :: nat
  do_patPackets :: "bytes list"

record Demuxer =
  dx_assemblers :: "uint16 \<rightharpoonup> section_assembler"
  dx_catEMM :: "uint16 set"
  dx_catSections :: tableSectionSet
  dx_pat :: "PAT option"
  dx_patGeneration :: "64 word"
  dx_patSections :: tableSectionSet
  dx_pmtByPID :: "uint16 \<rightharpoonup> uint16"
  dx_sectionPIDs :: "uint16 set"
  dx_programs :: "uint16 \<rightharpoonup> demuxProgram"
  dx_services :: "uint16 \<rightharpoonup> demuxServiceOutput"

definition NewDemuxer :: Demuxer where
  "NewDemuxer = \<lparr>dx_assemblers = Map.empty, dx_catEMM = {}, dx_catSections = new_section_set,
     dx_pat = None, dx_patGeneration = 0, dx_patSections = new_section_set, dx_pmtByPID = Map.empty,
     dx_sectionPIDs = {}, dx_programs = Map.empty, dx_services = Map.empty\<rparr>"

definition new_output :: demuxServiceOutput where
  "new_output = \<lparr>do_generation = 0, do_patCounter = 0, do_patIndex = 0, do_patPackets = []\<rparr>"

definition HasService :: "Demuxer \<Rightarrow> uint16 \<Rightarrow> bool" where
  "HasService d serviceID \<longleftrightarrow> dx_programs d serviceID \<noteq> None"

definition PATReady :: "Demuxer \<Rightarrow> bool" where
  "PATReady d \<longleftrightarrow> dx_pat d \<noteq> None"

definition shouldAssemble :: "Demuxer \<Rightarrow> uint16 \<Rightarrow> bool" where
  "shouldAssemble d pid \<longleftrightarrow>
     pid \<in> {0x0000, 0x0001, 0x0010, 0x0011, 0x0012, 0x0014, 0x0023, 0x0024, 0x0029} \<or>
     dx_pmtByPID d pid \<noteq> None \<or> pid \<in> dx_sectionPIDs d"

definition commonServicePID :: "uint16 \<Rightarrow> bool" where
  "commonServicePID pid \<longleftrightarrow>
     pid \<in> {0x0001, 0x0010, 0x0011, 0x0012, 0x0013, 0x0014, 0x001e, 0x001f, 0x0023, 0x0024, 0x0029}"

subsection \<open>The PAT of one service\<close>

definition rebuildPATOutput ::
  "Demuxer \<Rightarrow> uint16 \<Rightarrow> demuxServiceOutput \<Rightarrow> ts_error fault + demuxServiceOutput" where
  "rebuildPATOutput d serviceID output =
     (case dx_pat d of
        None \<Rightarrow> Inr output
      | Some pat \<Rightarrow>
          (case PAT_Programs pat serviceID of
             None \<Rightarrow> Inr output
           | Some pmtPID \<Rightarrow>
               (case BuildPATSection (PAT_TransportStreamID pat) serviceID pmtPID (PAT_VersionNumber pat) of
                  Inl _ \<Rightarrow> Inl Panic
                | Inr section \<Rightarrow>
                    Inr (output\<lparr>do_patPackets := fst (packetizeSection 0x0000 section 0),
                                do_patIndex := 0, do_generation := dx_patGeneration d\<rparr>))))"

definition rebuildPAT :: "Demuxer \<Rightarrow> uint16 \<Rightarrow> ts_error fault + Demuxer" where
  "rebuildPAT d serviceID =
     (case dx_pat d of
        None \<Rightarrow> Inr d
      | Some pat \<Rightarrow>
          if PAT_Programs pat serviceID = None then Inr d
          else
            let output = (case dx_services d serviceID of None \<Rightarrow> new_output | Some o' \<Rightarrow> o')
            in rbind (rebuildPATOutput d serviceID output) (\<lambda>output'.
                 Inr (d\<lparr>dx_services := (dx_services d)(serviceID \<mapsto> output')\<rparr>)))"

definition serviceOutput :: "Demuxer \<Rightarrow> uint16 \<Rightarrow> ts_error fault + Demuxer" where
  "serviceOutput d serviceID =
     (case dx_services d serviceID of
        Some _ \<Rightarrow> Inr d
      | None \<Rightarrow> rebuildPAT (d\<lparr>dx_services := (dx_services d)(serviceID \<mapsto> new_output)\<rparr>) serviceID)"

text \<open>
  \<open>samePAT\<close>: equal sizes, and every program of \<open>a\<close> found in \<open>b\<close>, where a missing key reads as PID 0.
\<close>

definition samePAT :: "PAT option \<Rightarrow> PAT \<Rightarrow> bool" where
  "samePAT a b =
     (case a of
        None \<Rightarrow> False
      | Some a \<Rightarrow>
          PAT_TransportStreamID a = PAT_TransportStreamID b \<and> PAT_VersionNumber a = PAT_VersionNumber b \<and>
          PAT_NetworkPID a = PAT_NetworkPID b \<and> card (dom (PAT_Programs a)) = card (dom (PAT_Programs b)) \<and>
          (\<forall>serviceID \<in> dom (PAT_Programs a).
             (case PAT_Programs b serviceID of None \<Rightarrow> 0 | Some pid \<Rightarrow> pid) = the (PAT_Programs a serviceID)))"

subsection \<open>Observing PAT, CAT and PMT\<close>

fun combine_pats :: "bytes list \<Rightarrow> PAT \<Rightarrow> ts_error fault + PAT" where
  "combine_pats [] combined = Inr combined"
| "combine_pats (current # rest) combined =
     rbind (ParsePAT current) (\<lambda>pat.
       combine_pats rest
         \<lparr>PAT_TransportStreamID = PAT_TransportStreamID pat, PAT_VersionNumber = PAT_VersionNumber pat,
          PAT_NetworkPID = PAT_NetworkPID pat, PAT_Programs = PAT_Programs combined ++ PAT_Programs pat\<rparr>)"

text \<open>A new program, or a program whose PMT moved, starts without PIDs.\<close>

definition add_program :: "uint16 \<Rightarrow> uint16 \<Rightarrow> Demuxer \<Rightarrow> Demuxer" where
  "add_program serviceID pmtPID d =
     (let fresh = \<lparr>dp_pmtPID = pmtPID, dp_pids = {}, dp_sectionPIDs = {}\<rparr>
      in case dx_programs d serviceID of
           None \<Rightarrow> d\<lparr>dx_programs := (dx_programs d)(serviceID \<mapsto> fresh)\<rparr>
         | Some program \<Rightarrow>
             if dp_pmtPID program \<noteq> pmtPID
             then d\<lparr>dx_programs := (dx_programs d)(serviceID \<mapsto> fresh)\<rparr> else d)"

fun pat_programs_loop ::
  "(uint16 \<times> uint16) list \<Rightarrow> bool \<Rightarrow> Demuxer \<Rightarrow> (uint16 \<rightharpoonup> uint16) \<Rightarrow>
   ts_error fault + (Demuxer \<times> (uint16 \<rightharpoonup> uint16))" where
  "pat_programs_loop [] unchanged d newByPID = Inr (d, newByPID)"
| "pat_programs_loop ((serviceID, pmtPID) # rest) unchanged d newByPID =
     (let d = add_program serviceID pmtPID d
      in rbind (if unchanged then Inr d else rebuildPAT d serviceID) (\<lambda>d.
           pat_programs_loop rest unchanged d (newByPID(pmtPID \<mapsto> serviceID))))"

type_synonym map_order = "(uint16 \<rightharpoonup> uint16) \<Rightarrow> (uint16 \<times> uint16) list"

definition observePAT :: "map_order \<Rightarrow> Demuxer \<Rightarrow> bytes \<Rightarrow> ts_error fault + Demuxer" where
  "observePAT order d section =
     rbind (add (dx_patSections d) section) (\<lambda>((reset, ready), patSections).
       let d = d\<lparr>dx_patSections := patSections, dx_pat := if reset then None else dx_pat d\<rparr>
       in if \<not> ready then Inr d
          else (case combine_pats (ordered patSections)
                  \<lparr>PAT_TransportStreamID = 0, PAT_VersionNumber = 0, PAT_NetworkPID = 0, PAT_Programs = Map.empty\<rparr> of
                  Inl Panic \<Rightarrow> Inl Panic
                | Inl (Err e) \<Rightarrow> Inr d
                | Inr combined \<Rightarrow>
                    let unchanged = samePAT (dx_pat d) combined;
                        d = d\<lparr>dx_pat := Some combined,
                              dx_patGeneration := dx_patGeneration d + (if unchanged then 0 else 1)\<rparr>
                    in rbind (pat_programs_loop (order (PAT_Programs combined)) unchanged d Map.empty) (\<lambda>(d, newByPID).
                      let gone = dom (dx_programs d) - dom (PAT_Programs combined);
                          stale = dom (dx_pmtByPID d) - dom newByPID
                      in Inr (d\<lparr>dx_programs := dx_programs d |` (- gone), dx_services := dx_services d |` (- gone),
                               dx_assemblers := dx_assemblers d |` (- stale), dx_pmtByPID := newByPID\<rparr>))))"

text \<open>The PIDs of the CA descriptors in a descriptor list (tag 0x09).\<close>

fun ca_pids :: "bytes list \<Rightarrow> ts_error fault + uint16 set" where
  "ca_pids [] = Inr {}"
| "ca_pids (desc # rest) =
     rbind (Tag desc) (\<lambda>tag.
     rbind (if tag = 0x09 then caPID desc else Inr None) (\<lambda>pid.
     rbind (ca_pids rest) (\<lambda>pids. Inr (case pid of None \<Rightarrow> pids | Some p \<Rightarrow> insert p pids))))"

fun cat_emm :: "bytes list \<Rightarrow> ts_error fault + uint16 set" where
  "cat_emm [] = Inr {}"
| "cat_emm (current # rest) =
     rbind (TotalLength current) (\<lambda>total.
     rbind (gslice current 8 (total - 4)) (\<lambda>loop.
     rbind (ca_pids (ParseDescriptors loop)) (\<lambda>pids.
     rbind (cat_emm rest) (\<lambda>pids'. Inr (pids \<union> pids')))))"

definition observeCAT :: "Demuxer \<Rightarrow> bytes \<Rightarrow> ts_error fault + Demuxer" where
  "observeCAT d section =
     (if glen section < 12 then Inr d
      else rbind (TotalLength section) (\<lambda>total. if total > glen section then Inr d
      else rbind (ValidateCRC section) (\<lambda>valid. if \<not> valid then Inr d
      else rbind (add (dx_catSections d) section) (\<lambda>((reset, ready), catSections).
        let d = d\<lparr>dx_catSections := catSections\<rparr>
        in if \<not> ready then Inr d
           else rbind (cat_emm (ordered catSections)) (\<lambda>emm. Inr (d\<lparr>dx_catEMM := emm\<rparr>))))))"

fun element_pids :: "PMTElement list \<Rightarrow> ts_error fault + (uint16 set \<times> uint16 set)" where
  "element_pids [] = Inr ({}, {})"
| "element_pids (elem # rest) =
     rbind (ca_pids (PE_Descriptors elem)) (\<lambda>ca.
     rbind (element_pids rest) (\<lambda>(pids, sectionPIDs).
       Inr (insert (ElementaryPID elem) (ca \<union> pids),
            if StreamType elem \<in> {0x0b, 0x0d, 0x0c} then insert (ElementaryPID elem) sectionPIDs
            else sectionPIDs)))"

definition rebuildSectionPIDs :: "Demuxer \<Rightarrow> Demuxer" where
  "rebuildSectionPIDs d =
     (let sectionPIDs = (\<Union>program \<in> ran (dx_programs d). dp_sectionPIDs program);
          stale = dx_sectionPIDs d - sectionPIDs
      in d\<lparr>dx_assemblers := dx_assemblers d |` (- stale), dx_sectionPIDs := sectionPIDs\<rparr>)"

definition observePMT :: "Demuxer \<Rightarrow> uint16 \<Rightarrow> bytes \<Rightarrow> ts_error fault + Demuxer" where
  "observePMT d serviceID section =
     (case ParsePMT section of
        Inl Panic \<Rightarrow> Inl Panic
      | Inl (Err e) \<Rightarrow> Inr d
      | Inr pmt \<Rightarrow>
          if ProgramNumber pmt \<noteq> serviceID then Inr d
          else (case dx_programs d serviceID of
                  None \<Rightarrow> Inr d
                | Some program \<Rightarrow>
                    rbind (ca_pids (PMT_Descriptors pmt)) (\<lambda>ca.
                    rbind (element_pids (Elements pmt)) (\<lambda>(pids, sectionPIDs).
                      let pcr = (if PCRPID pmt \<noteq> 0x1fff then {PCRPID pmt} else {});
                          program' = program\<lparr>dp_pids := pcr \<union> ca \<union> pids, dp_sectionPIDs := sectionPIDs\<rparr>
                      in Inr (rebuildSectionPIDs (d\<lparr>dx_programs := (dx_programs d)(serviceID \<mapsto> program')\<rparr>))))))"

subsection \<open>Feeding packets\<close>

text \<open>The packets neither side of the demultiplexer looks at.\<close>

definition usable_packet :: "bytes \<Rightarrow> ts_error fault + bool" where
  "usable_packet packet =
     (if glen packet \<noteq> PacketSize then Inr False
      else rbind (TransportErrorIndicator packet) (\<lambda>tei. if tei then Inr False
      else rbind (IsNull packet) (\<lambda>nul. if nul then Inr False
      else ValidPayloadOffset packet)))"

fun observe_sections :: "map_order \<Rightarrow> uint16 \<Rightarrow> bytes list \<Rightarrow> Demuxer \<Rightarrow> ts_error fault + Demuxer" where
  "observe_sections order pid [] d = Inr d"
| "observe_sections order pid (section # rest) d =
     rbind (TableID section) (\<lambda>tid.
     rbind (if tid = 0x00 then (if pid = 0x0000 then observePAT order d section else Inr d)
            else if tid = 0x01 then (if pid = 0x0001 then observeCAT d section else Inr d)
            else if tid = 0x02 then
              (case dx_pmtByPID d pid of
                 Some serviceID \<Rightarrow> observePMT d serviceID section
               | None \<Rightarrow> Inr d)
            else Inr d) (\<lambda>d.
     observe_sections order pid rest d))"

definition FeedWithPID ::
  "map_order \<Rightarrow> Demuxer \<Rightarrow> bytes \<Rightarrow> ts_error fault + ((uint16 \<times> bytes) list \<times> Demuxer)" where
  "FeedWithPID order d packet =
     rbind (usable_packet packet) (\<lambda>ok. if \<not> ok then Inr ([], d)
      else rbind (PID packet) (\<lambda>pid. if \<not> shouldAssemble d pid then Inr ([], d)
      else
        let assembler = (case dx_assemblers d pid of None \<Rightarrow> NewSectionAssembler pid | Some a \<Rightarrow> a)
        in rbind (FeedAll assembler packet) (\<lambda>(sections, assembler').
          rbind (observe_sections order pid sections (d\<lparr>dx_assemblers := (dx_assemblers d)(pid \<mapsto> assembler')\<rparr>)) (\<lambda>d'.
            Inr (map (\<lambda>s. (pid, s)) sections, d')))))"

definition demux_Feed :: "map_order \<Rightarrow> Demuxer \<Rightarrow> bytes \<Rightarrow> ts_error fault + (bytes list \<times> Demuxer)" where
  "demux_Feed order d packet =
     rbind (FeedWithPID order d packet) (\<lambda>(pidSections, d'). Inr (map snd pidSections, d'))"

definition servicePacket ::
  "Demuxer \<Rightarrow> uint16 \<Rightarrow> demuxServiceOutput \<Rightarrow> bytes \<Rightarrow> ts_error fault + (bytes option \<times> demuxServiceOutput)" where
  "servicePacket d serviceID output packet =
     rbind (usable_packet packet) (\<lambda>ok. if \<not> ok then Inr (None, output)
      else (case dx_programs d serviceID of
              None \<Rightarrow> Inr (None, output)
            | Some program \<Rightarrow>
                rbind (if do_generation output \<noteq> dx_patGeneration d then rebuildPATOutput d serviceID output
                       else Inr output) (\<lambda>output.
                rbind (PID packet) (\<lambda>pid.
                  if pid = 0x0000 then
                    if length (do_patPackets output) = 0 then Inr (None, output)
                    else rbind (idx (do_patPackets output) (int (do_patIndex output))) (\<lambda>result.
                      let output' = output\<lparr>do_patIndex := (do_patIndex output + 1) mod length (do_patPackets output)\<rparr>
                      in rbind (idx result 3) (\<lambda>b3.
                           Inr (Some (result[3 := (b3 AND 0xf0) OR (do_patCounter output AND 0x0f)]),
                                output'\<lparr>do_patCounter := (do_patCounter output + 1) AND 0x0f\<rparr>)))
                  else if commonServicePID pid \<or> pid = dp_pmtPID program \<or> pid \<in> dp_pids program \<or> pid \<in> dx_catEMM d
                  then Inr (Some packet, output)
                  else Inr (None, output)))))"

definition ServicePacket :: "Demuxer \<Rightarrow> uint16 \<Rightarrow> bytes \<Rightarrow> ts_error fault + (bytes option \<times> Demuxer)" where
  "ServicePacket d serviceID packet =
     rbind (serviceOutput d serviceID) (\<lambda>d.
       case dx_services d serviceID of
         None \<Rightarrow> Inl Panic
       | Some output \<Rightarrow>
           rbind (servicePacket d serviceID output packet) (\<lambda>(result, output').
             Inr (result, d\<lparr>dx_services := (dx_services d)(serviceID \<mapsto> output')\<rparr>)))"

text \<open>An output view of its own (\<open>ServiceDemux\<close>): the output is not kept in the shared state.\<close>

record ServiceDemux =
  sd_output :: demuxServiceOutput
  sd_serviceID :: uint16

definition Service :: "uint16 \<Rightarrow> ServiceDemux" where
  "Service serviceID = \<lparr>sd_output = new_output, sd_serviceID = serviceID\<rparr>"

definition service_Packet :: "Demuxer \<Rightarrow> ServiceDemux \<Rightarrow> bytes \<Rightarrow> ts_error fault + (bytes option \<times> ServiceDemux)" where
  "service_Packet d s packet =
     rbind (servicePacket d (sd_serviceID s) (sd_output s) packet) (\<lambda>(result, output').
       Inr (result, s\<lparr>sd_output := output'\<rparr>))"

end
