(* ===== verification/DemuxCorrect.thy ===== *)
theory DemuxCorrect
  imports Demux
begin

section \<open>Correctness of the demultiplexer\<close>

text \<open>
  The invariant of the demultiplexer's state, that every operation of \<open>ts/demux.go\<close> keeps it and
  returns without a panic on any packet, and what the operations do: the section sets hand out a
  table only when it is complete, the programs follow the PAT and the PMTs, each service gets its
  own PAT and exactly the packets of the PIDs its tables name.
\<close>

subsection \<open>Section sets\<close>

definition section_set_all :: "(byte \<Rightarrow> bytes \<Rightarrow> bool) \<Rightarrow> tableSectionSet \<Rightarrow> bool" where
  "section_set_all P s \<longleftrightarrow> (\<forall>(n, sct) \<in> set (ts_sections s). P n sct)"

lemma section_set_all_new [simp]: "section_set_all P new_section_set"
  by (simp add: section_set_all_def new_section_set_def)

lemma add_cases:
  fixes s :: tableSectionSet and sct :: bytes
  obtains (skip) "add s sct = Inr ((False, False), s)"
  | (stored) header where "ParseSectionHeader sct = Inr header"
    "SH_CurrentNextIndicator header" "SH_SectionNumber header \<le> SH_LastSectionNumber header"
    "add s sct = Inr ((starts_version s header, all_sections (store_section s header sct)),
       store_section s header sct)"
proof (cases "ParseSectionHeader sct")
  case (Inl e)
  then show ?thesis using ParseSectionHeader_safe [of sct] skip
    by (cases e) (simp_all add: add_def)
next
  case (Inr header)
  show ?thesis
  proof (cases "\<not> SH_CurrentNextIndicator header \<or> SH_SectionNumber header > SH_LastSectionNumber header")
    case False
    have "add s sct = Inr ((starts_version s header, all_sections (store_section s header sct)),
       store_section s header sct)"
      using False by (simp add: add_def Inr Let_def)
    then show ?thesis using False by (intro stored [OF Inr]) (simp_all add: not_less)
  qed (use Inr skip in \<open>simp add: add_def\<close>)
qed

lemma add_safe: "\<exists>r. add s sct = Inr r"
  by (cases rule: add_cases [of s sct]) auto

lemma set_update: "set (AList.update k v al) \<subseteq> insert (k, v) (set al)"
  by (induction al) auto

lemma set_store_section:
  "set (ts_sections (store_section s header sct)) \<subseteq>
     insert (SH_SectionNumber header, sct) (set (ts_sections s))"
  using set_update [of "SH_SectionNumber header" sct "ts_sections s"] by (auto simp: store_section_def Let_def)

lemma add_section_set_all:
  assumes "add s sct = Inr (r, s')" "section_set_all P s"
    "\<And>header. ParseSectionHeader sct = Inr header \<Longrightarrow> P (SH_SectionNumber header) sct"
  shows "section_set_all P s'"
  using set_store_section [of s _ sct] assms
  by (cases rule: add_cases [of s sct]) (fastforce simp: section_set_all_def)+

lemma add_ready_ordered:
  assumes "add s sct = Inr ((reset, True), s')" "section_set_all P s'"
  shows "\<forall>i \<le> unat (ts_last s'). P (word_of_nat i) (ordered s' ! i)" "length (ordered s') = unat (ts_last s') + 1"
proof -
  have all: "list_all (\<lambda>n. map_of (ts_sections s') n \<noteq> None) (section_numbers s')"
    using assms(1) by (cases rule: add_cases [of s sct]) (auto simp: all_sections_def)
  show "length (ordered s') = unat (ts_last s') + 1" by (simp add: ordered_def section_numbers_def)
  show "\<forall>i \<le> unat (ts_last s'). P (word_of_nat i) (ordered s' ! i)"
  proof (intro allI impI)
    fix i assume "i \<le> unat (ts_last s')"
    then have i: "i < unat (ts_last s') + 1" by simp
    then have "map_of (ts_sections s') (word_of_nat i) \<noteq> None"
      using all by (simp add: list_all_iff section_numbers_def del: upt_Suc)
    then obtain sec where sec: "map_of (ts_sections s') (word_of_nat i) = Some sec" by auto
    moreover have "ordered s' ! i = sec"
      using i sec by (simp add: ordered_def section_numbers_def del: upt_Suc)
    moreover have "P (word_of_nat i) sec"
      using assms(2) map_of_SomeD [OF sec] by (auto simp: section_set_all_def)
    ultimately show "P (word_of_nat i) (ordered s' ! i)" by simp
  qed
qed

lemma add_ready_list_all:
  assumes "add s sct = Inr ((reset, True), s')" "section_set_all (\<lambda>n. P) s'"
  shows "list_all P (ordered s')"
  using add_ready_ordered [OF assms] by (auto simp: list_all_length less_Suc_eq_le)

subsection \<open>The invariant\<close>

definition pat_ok :: "PAT \<Rightarrow> bool" where
  "pat_ok pat \<longleftrightarrow> (\<forall>sid pmtPID. PAT_Programs pat sid = Some pmtPID \<longrightarrow> sid \<noteq> 0 \<and> unat pmtPID < 8192)"

definition output_ok :: "demuxServiceOutput \<Rightarrow> bool" where
  "output_ok o' \<longleftrightarrow> list_all (\<lambda>p. length p = 188) (do_patPackets o') \<and>
     (do_patPackets o' = [] \<or> do_patIndex o' < length (do_patPackets o'))"

definition cat_section :: "bytes \<Rightarrow> bool" where
  "cat_section s \<longleftrightarrow> 12 \<le> length s \<and> 12 \<le> total_len s \<and> total_len s \<le> glen s"

definition demux_inv :: "Demuxer \<Rightarrow> bool" where
  "demux_inv d \<longleftrightarrow>
     (\<forall>pat. dx_pat d = Some pat \<longrightarrow> pat_ok pat) \<and>
     (\<forall>pid a. dx_assemblers d pid = Some a \<longrightarrow> sa_pid a = pid) \<and>
     (\<forall>sid o'. dx_services d sid = Some o' \<longrightarrow> output_ok o') \<and>
     section_set_all (\<lambda>n. cat_section) (dx_catSections d)"

lemma demux_inv_new: "demux_inv NewDemuxer"
  by (simp add: demux_inv_def NewDemuxer_def)

lemma output_ok_new [simp]: "output_ok new_output"
  by (simp add: output_ok_def new_output_def)

lemma be16_mask_13: "unat (be16 (a AND 0x1f) b) < 8192"
  using and_le_mask [of a "0x1f"] unat_byte_less [of b] by (simp add: unat_be16)

lemma parse_pat_loop_ok: "pat_ok pat \<Longrightarrow> parse_pat_loop s end off pat = Inr pat' \<Longrightarrow> pat_ok pat'"
proof (induction s "end" off pat rule: parse_pat_loop.induct)
  case (1 s "end" off pat)
  show ?case
  proof (cases "off + 4 \<le> end")
    case True
    with "1.prems"(2) obtain program pid where
      r: "be16_at s off = (Inr program :: ts_error fault + uint16)"
        "be16_mask_at 0x1f s (off + 2) = (Inr pid :: ts_error fault + uint16)"
      by (subst (asm) parse_pat_loop.simps) (auto simp: rbind_eq_Inr_iff)
    let ?pat = "if program = 0 then pat\<lparr>PAT_NetworkPID := pid\<rparr>
             else pat\<lparr>PAT_Programs := (PAT_Programs pat)(program \<mapsto> pid)\<rparr>"
    have "unat pid < 8192"
      using r(2) be16_mask_13 by (auto simp: be16_mask_at_def rbind_eq_Inr_iff)
    then have ok: "pat_ok ?pat" using "1.prems"(1) by (simp add: pat_ok_def)
    have "parse_pat_loop s end (off + 4) ?pat = Inr pat'"
      using "1.prems"(2) True r by (subst (asm) parse_pat_loop.simps) simp
    then show ?thesis using "1.IH" [OF True r ok] by simp
  next
    case False
    then show ?thesis using "1.prems" by (subst (asm) parse_pat_loop.simps) simp
  qed
qed

lemma ParsePAT_ok:
  assumes "ParsePAT s = Inr pat"
  shows "pat_ok pat"
proof -
  obtain h total where "ParseSectionHeader s = Inr h" "TotalLength s = Inr total"
    "table_check s 12 (\<lambda>t. t = 0x00) = Inr True"
    using assms by (auto simp: ParsePAT_def rbind_eq_Inr_iff split: if_split_asm)
  with assms have "parse_pat_loop s (total - 4) 8
      \<lparr>PAT_TransportStreamID = SH_TransportStreamID h, PAT_VersionNumber = SH_VersionNumber h,
       PAT_NetworkPID = 0, PAT_Programs = Map.empty\<rparr> = Inr pat"
    by (simp add: ParsePAT_def)
  then show ?thesis by (rule parse_pat_loop_ok [rotated]) (simp add: pat_ok_def)
qed

lemma combine_pats_ok: "combine_pats ss pat = Inr pat' \<Longrightarrow> pat_ok pat \<Longrightarrow> pat_ok pat'"
proof (induction ss arbitrary: pat)
  case (Cons s ss)
  then obtain p where p: "ParsePAT s = Inr p" by (auto simp: rbind_eq_Inr_iff)
  then have "pat_ok p" by (rule ParsePAT_ok)
  let ?pat = "\<lparr>PAT_TransportStreamID = PAT_TransportStreamID p, PAT_VersionNumber = PAT_VersionNumber p,
      PAT_NetworkPID = PAT_NetworkPID p, PAT_Programs = PAT_Programs pat ++ PAT_Programs p\<rparr>"
  have "pat_ok ?pat"
    using \<open>pat_ok p\<close> Cons.prems(2) unfolding pat_ok_def by (simp add: map_add_Some_iff) blast
  moreover have "combine_pats ss ?pat = Inr pat'" using Cons.prems(1) p by simp
  ultimately show ?case by (rule Cons.IH [rotated])
qed simp

lemma combine_pats_safe: "safe (combine_pats ss pat)"
  by (induction ss arbitrary: pat) (auto intro!: safe_rbind ParsePAT_safe)

subsection \<open>The PAT output of a service\<close>

lemma packetizeSection_short:
  assumes "length s \<le> 183"
  shows "fst (packetizeSection pid s c) = [section_packet pid True c s]"
proof -
  have "fst (packetize_loop pid (drop 183 s) False ((c + 1) AND 0x0f)) = []"
    using assms by (subst packetize_loop.simps) simp
  then show ?thesis
    unfolding packetizeSection_def by (subst packetize_loop.simps) (simp add: split_beta)
qed

text \<open>The PAT section a service gets.\<close>

definition service_pat :: "PAT \<Rightarrow> uint16 \<Rightarrow> uint16 \<Rightarrow> bytes \<Rightarrow> bool" where
  "service_pat pat sid pmtPID s \<longleftrightarrow>
     BuildPATSection (PAT_TransportStreamID pat) sid pmtPID (PAT_VersionNumber pat) = Inr s \<and>
     complete_section s \<and> length s = 16 \<and> s ! 0 = 0 \<and>
     ParsePAT s = Inr \<lparr>PAT_TransportStreamID = PAT_TransportStreamID pat,
       PAT_VersionNumber = PAT_VersionNumber pat AND 0x1f, PAT_NetworkPID = 0, PAT_Programs = [sid \<mapsto> pmtPID]\<rparr>"

lemma service_pat_ex:
  assumes "pat_ok pat" "PAT_Programs pat sid = Some pmtPID"
  obtains s where "service_pat pat sid pmtPID s"
proof -
  have "unat pmtPID < 8192" "sid \<noteq> 0" using assms by (auto simp: pat_ok_def)
  then show thesis
    by (rule BuildPATSection_facts [where tsid = "PAT_TransportStreamID pat" and ver = "PAT_VersionNumber pat"])
      (use that in \<open>auto simp: service_pat_def\<close>)
qed

lemma rebuildPATOutput_built:
  assumes "dx_pat d = Some pat" "PAT_Programs pat sid = Some pmtPID" "service_pat pat sid pmtPID s"
  shows "rebuildPATOutput d sid o' = Inr (o'\<lparr>do_patPackets := [section_packet 0 True 0 s], do_patIndex := 0,
    do_generation := dx_patGeneration d\<rparr>)"
  using assms by (simp add: rebuildPATOutput_def service_pat_def packetizeSection_short)

lemma rebuildPATOutput_returns:
  assumes "demux_inv d" "output_ok o'"
  shows "returns (rebuildPATOutput d sid o') output_ok"
proof (cases "\<exists>pat pmtPID. dx_pat d = Some pat \<and> PAT_Programs pat sid = Some pmtPID")
  case True
  then obtain pat pmtPID where p: "dx_pat d = Some pat" "PAT_Programs pat sid = Some pmtPID" by blast
  then have "pat_ok pat" using assms(1) by (simp add: demux_inv_def)
  then obtain s where "service_pat pat sid pmtPID s" using p(2) by (rule service_pat_ex)
  then show ?thesis by (simp add: rebuildPATOutput_built [OF p] output_ok_def)
next
  case False
  then show ?thesis using assms(2) by (auto simp: rebuildPATOutput_def split: option.splits)
qed

lemma demux_inv_services:
  "demux_inv d \<Longrightarrow> output_ok o' \<Longrightarrow> demux_inv (d\<lparr>dx_services := (dx_services d)(sid \<mapsto> o')\<rparr>)"
  by (simp add: demux_inv_def)

text \<open>What rebuilding outputs leaves alone.\<close>

definition outputs_only :: "Demuxer \<Rightarrow> Demuxer \<Rightarrow> bool" where
  "outputs_only d d' \<longleftrightarrow> dx_pat d' = dx_pat d \<and> dx_patGeneration d' = dx_patGeneration d \<and>
     dx_assemblers d' = dx_assemblers d \<and> dx_pmtByPID d' = dx_pmtByPID d \<and> dx_catEMM d' = dx_catEMM d \<and>
     dx_catSections d' = dx_catSections d \<and> dx_patSections d' = dx_patSections d \<and>
     dx_sectionPIDs d' = dx_sectionPIDs d"

lemma rebuildPAT_returns:
  assumes "demux_inv d"
  shows "returns (rebuildPAT d sid) (\<lambda>d'. demux_inv d' \<and> outputs_only d d' \<and> dx_programs d' = dx_programs d \<and>
    (dx_services d sid \<noteq> None \<longrightarrow> dx_services d' sid \<noteq> None))"
proof -
  let ?o = "case dx_services d sid of None \<Rightarrow> new_output | Some o' \<Rightarrow> o'"
  have "output_ok ?o" using assms by (auto simp: demux_inv_def split: option.splits)
  with assms obtain o' where o': "rebuildPATOutput d sid ?o = Inr o'" "output_ok o'"
    using rebuildPATOutput_returns [of d ?o sid] by (auto simp: returns_def)
  note inv = demux_inv_services [OF assms o'(2), of sid]
  show ?thesis
  proof (cases "\<exists>pat. dx_pat d = Some pat \<and> PAT_Programs pat sid \<noteq> None")
    case True
    then have "rebuildPAT d sid = Inr (d\<lparr>dx_services := (dx_services d)(sid \<mapsto> o')\<rparr>)"
      using o'(1) by (auto simp: rebuildPAT_def Let_def)
    then show ?thesis using inv by (simp add: outputs_only_def)
  next
    case False
    then have "rebuildPAT d sid = Inr d" by (auto simp: rebuildPAT_def split: option.splits)
    then show ?thesis using assms by (simp add: outputs_only_def)
  qed
qed

subsection \<open>Observers of the tables\<close>

definition programs_after ::
  "(uint16 \<times> uint16) list \<Rightarrow> Demuxer \<Rightarrow> Demuxer \<Rightarrow> bool" where
  "programs_after ps d d' \<longleftrightarrow>
     (\<forall>(sid, pmtPID) \<in> set ps. \<exists>program. dx_programs d' sid = Some program \<and> dp_pmtPID program = pmtPID) \<and>
     (\<forall>sid. sid \<notin> fst ` set ps \<longrightarrow> dx_programs d' sid = dx_programs d sid)"

lemma add_program_facts:
  "demux_inv d \<Longrightarrow> demux_inv (add_program sid pmtPID d)" "outputs_only d (add_program sid pmtPID d)"
  "\<exists>program. dx_programs (add_program sid pmtPID d) sid = Some program \<and> dp_pmtPID program = pmtPID"
  "sid' \<noteq> sid \<Longrightarrow> dx_programs (add_program sid pmtPID d) sid' = dx_programs d sid'"
  by (auto simp: add_program_def Let_def demux_inv_def outputs_only_def split: option.splits)

lemma outputs_only_trans: "outputs_only a b \<Longrightarrow> outputs_only b c \<Longrightarrow> outputs_only a c"
  by (simp add: outputs_only_def)

lemma pat_programs_loop_returns:
  "demux_inv d \<Longrightarrow> distinct (map fst ps) \<Longrightarrow>
   returns (pat_programs_loop ps unchanged d new) (\<lambda>(d', new').
     demux_inv d' \<and> outputs_only d d' \<and> programs_after ps d d' \<and>
     new' = new ++ map_of (rev (map (\<lambda>(sid, pmtPID). (pmtPID, sid)) ps)))"
proof (induction ps arbitrary: d new)
  case Nil
  then show ?case by (simp add: outputs_only_def programs_after_def)
next
  case (Cons p ps)
  obtain sid pmtPID where p: "p = (sid, pmtPID)" by fastforce
  let ?d = "add_program sid pmtPID d"
  note ap = add_program_facts [where d = d and sid = sid and pmtPID = pmtPID]
  have "returns (if unchanged then Inr ?d else rebuildPAT ?d sid) (\<lambda>d1. demux_inv d1 \<and> outputs_only ?d d1 \<and>
      dx_programs d1 = dx_programs ?d)"
    using ap(1) [OF Cons.prems(1)] rebuildPAT_returns [of ?d sid]
    by (auto simp: returns_def outputs_only_def)
  then obtain d1 where d1: "(if unchanged then Inr ?d else rebuildPAT ?d sid) = Inr d1" "demux_inv d1"
    "outputs_only ?d d1" "dx_programs d1 = dx_programs ?d"
    by (auto simp: returns_def)
  have eq: "pat_programs_loop (p # ps) unchanged d new = pat_programs_loop ps unchanged d1 (new(pmtPID \<mapsto> sid))"
    using d1(1) by (simp add: p Let_def del: if_split)
  have sid: "sid \<notin> fst ` set ps" using Cons.prems(2) p by auto
  have prog: "programs_after (p # ps) d d'" if "programs_after ps d1 d'" for d'
    using that sid d1(4) ap(3,4) by (auto simp: programs_after_def p)
  have out: "outputs_only d d'" if "outputs_only d1 d'" for d'
    using ap(2) d1(3) that by (meson outputs_only_trans)
  have "distinct (map fst ps)" using Cons.prems(2) by simp
  from Cons.IH [OF d1(2) this, of "new(pmtPID \<mapsto> sid)"] show ?case
    unfolding eq
  proof (rule returns_mono)
    fix r
    assume r: "case r of (d', new') \<Rightarrow> demux_inv d' \<and> outputs_only d1 d' \<and> programs_after ps d1 d' \<and>
      new' = new(pmtPID \<mapsto> sid) ++ map_of (rev (map (\<lambda>(sid, pmtPID). (pmtPID, sid)) ps))"
    obtain d' new' where "r = (d', new')" by fastforce
    with r prog out show "case r of (d', new') \<Rightarrow> demux_inv d' \<and> outputs_only d d' \<and> programs_after (p # ps) d d' \<and>
      new' = new ++ map_of (rev (map (\<lambda>(sid, pmtPID). (pmtPID, sid)) (p # ps)))"
      by (simp add: p)
  qed
qed

text \<open>The order in which Go's \<open>range\<close> visits a map: every entry once.\<close>

definition visits_all :: "map_order \<Rightarrow> bool" where
  "visits_all order \<longleftrightarrow> (\<forall>m. distinct (map fst (order m)) \<and> map_of (order m) = m)"

lemma demux_inv_pat:
  "demux_inv d \<Longrightarrow> (\<And>pat. p = Some pat \<Longrightarrow> pat_ok pat) \<Longrightarrow>
   demux_inv (d\<lparr>dx_patSections := ss, dx_pat := p\<rparr>)"
  by (simp add: demux_inv_def)

lemma demux_inv_generation:
  "demux_inv d \<Longrightarrow> pat_ok pat \<Longrightarrow> demux_inv (d\<lparr>dx_pat := Some pat, dx_patGeneration := g\<rparr>)"
  by (simp add: demux_inv_def)

lemma demux_inv_restrict:
  "demux_inv d \<Longrightarrow> demux_inv (d\<lparr>dx_programs := ps, dx_services := dx_services d |` A,
     dx_assemblers := dx_assemblers d |` B, dx_pmtByPID := m\<rparr>)"
  by (auto simp: demux_inv_def restrict_map_def split: if_splits)

text \<open>No other service of the PAT has its PMT on this PID.\<close>

definition only_user :: "(uint16 \<rightharpoonup> uint16) \<Rightarrow> uint16 \<Rightarrow> uint16 \<Rightarrow> bool" where
  "only_user programs sid pid \<longleftrightarrow> (\<forall>sid'. programs sid' = Some pid \<longrightarrow> sid' = sid)"

lemma newByPID_only_user:
  assumes "distinct (map fst ps)" "map_of ps sid = Some pid" "only_user (map_of ps) sid pid"
  shows "map_of (rev (map (\<lambda>(sid, pmtPID). (pmtPID, sid)) ps)) pid = Some sid"
proof -
  let ?qs = "rev (map (\<lambda>(sid, pmtPID). (pmtPID, sid)) ps)"
  have "(pid, sid) \<in> set ?qs" using map_of_SomeD [OF assms(2)] by force
  then obtain sid' where sid': "map_of ?qs pid = Some sid'"
    by (metis map_of_eq_None_iff fst_conv image_eqI not_None_eq)
  from map_of_SomeD [OF this] have "(sid', pid) \<in> set ps" by auto
  with assms(1) have "map_of ps sid' = Some pid" by simp
  with assms(3) sid' show ?thesis by (simp add: only_user_def)
qed

lemma observePAT_ready:
  assumes "demux_inv d" "visits_all order" "add (dx_patSections d) sct = Inr ((reset, True), ss)"
    "combine_pats (ordered ss) \<lparr>PAT_TransportStreamID = 0, PAT_VersionNumber = 0, PAT_NetworkPID = 0,
       PAT_Programs = Map.empty\<rparr> = Inr combined"
  shows "returns (observePAT order d sct) (\<lambda>d'. demux_inv d' \<and> dx_pat d' = Some combined \<and>
    (\<forall>sid. map_option dp_pmtPID (dx_programs d' sid) = PAT_Programs combined sid) \<and>
    (\<forall>sid pid. PAT_Programs combined sid = Some pid \<and> only_user (PAT_Programs combined) sid pid \<longrightarrow>
       dx_pmtByPID d' pid = Some sid) \<and>
    dx_sectionPIDs d' = dx_sectionPIDs d \<and> dx_catEMM d' = dx_catEMM d \<and>
    dx_patGeneration d' = dx_patGeneration d +
      (if samePAT (if reset then None else dx_pat d) combined then 0 else 1))"
proof -
  let ?d1 = "d\<lparr>dx_patSections := ss, dx_pat := if reset then None else dx_pat d\<rparr>"
  let ?same = "samePAT (dx_pat ?d1) combined"
  let ?d2 = "?d1\<lparr>dx_pat := Some combined, dx_patGeneration := dx_patGeneration ?d1 + (if ?same then 0 else 1)\<rparr>"
  let ?ps = "order (PAT_Programs combined)"
  have ok: "pat_ok combined" using combine_pats_ok [OF assms(4)] by (simp add: pat_ok_def)
  have "demux_inv ?d1" using assms(1) by (intro demux_inv_pat) (auto simp: demux_inv_def split: if_splits)
  then have inv2: "demux_inv ?d2" using ok by (rule demux_inv_generation)
  have ps: "distinct (map fst ?ps)" "map_of ?ps = PAT_Programs combined"
    using assms(2) by (simp_all add: visits_all_def)
  from pat_programs_loop_returns [OF inv2 ps(1), of ?same Map.empty]
  obtain d3 new where d3: "pat_programs_loop ?ps ?same ?d2 Map.empty = Inr (d3, new)"
    "demux_inv d3" "outputs_only ?d2 d3" "programs_after ?ps ?d2 d3"
    "new = map_of (rev (map (\<lambda>(sid, pmtPID). (pmtPID, sid)) ?ps))"
    by (auto simp: returns_def)
  let ?gone = "dom (dx_programs d3) - dom (PAT_Programs combined)"
  let ?d4 = "d3\<lparr>dx_programs := dx_programs d3 |` (- ?gone), dx_services := dx_services d3 |` (- ?gone),
      dx_assemblers := dx_assemblers d3 |` (- (dom (dx_pmtByPID d3) - dom new)), dx_pmtByPID := new\<rparr>"
  have res: "observePAT order d sct = Inr ?d4"
    using assms(3,4) d3(1) by (simp add: observePAT_def Let_def)
  have prog: "map_option dp_pmtPID (dx_programs ?d4 sid) = PAT_Programs combined sid" for sid
  proof (cases "PAT_Programs combined sid")
    case None
    then show ?thesis by (auto simp: restrict_map_def)
  next
    case (Some pmtPID)
    then have "(sid, pmtPID) \<in> set ?ps" using ps by (metis map_of_SomeD)
    then obtain program where "dx_programs d3 sid = Some program" "dp_pmtPID program = pmtPID"
      using d3(4) by (auto simp: programs_after_def)
    with Some show ?thesis by (auto simp: restrict_map_def)
  qed
  have by_pid: "dx_pmtByPID ?d4 pid = Some sid"
    if "PAT_Programs combined sid = Some pid" "only_user (PAT_Programs combined) sid pid" for sid pid
    using newByPID_only_user [OF ps(1)] that d3(5) ps(2) by simp
  have "dx_pat ?d4 = Some combined" "dx_sectionPIDs ?d4 = dx_sectionPIDs d" "dx_catEMM ?d4 = dx_catEMM d"
    "dx_patGeneration ?d4 = dx_patGeneration d + (if ?same then 0 else 1)"
    using d3(3) by (simp_all add: outputs_only_def)
  then show ?thesis unfolding res using prog by_pid demux_inv_restrict [OF d3(2)] by simp
qed

lemma observePAT_returns:
  assumes "demux_inv d" "visits_all order"
  shows "returns (observePAT order d sct) demux_inv"
proof -
  obtain reset ready ss where a: "add (dx_patSections d) sct = Inr ((reset, ready), ss)"
    using add_safe [of "dx_patSections d" sct] by auto
  let ?d = "d\<lparr>dx_patSections := ss, dx_pat := if reset then None else dx_pat d\<rparr>"
  let ?c = "combine_pats (ordered ss) \<lparr>PAT_TransportStreamID = 0, PAT_VersionNumber = 0, PAT_NetworkPID = 0,
       PAT_Programs = Map.empty\<rparr>"
  have inv: "demux_inv ?d" using assms(1) by (intro demux_inv_pat) (auto simp: demux_inv_def split: if_splits)
  show ?thesis
  proof (cases ready)
    case True
    show ?thesis
    proof (cases ?c)
      case (Inl e)
      then have "e \<noteq> Panic" using combine_pats_safe [of "ordered ss"] by (auto simp: safe_def)
      then show ?thesis using Inl a True inv by (cases e) (simp_all add: observePAT_def Let_def)
    next
      case (Inr combined)
      show ?thesis
        by (rule returns_mono [OF observePAT_ready [OF assms a [unfolded eqTrueI [OF True]] Inr]]) simp
    qed
  next
    case False
    then show ?thesis using a inv by (simp add: observePAT_def Let_def)
  qed
qed

text \<open>The PIDs a list of well-formed descriptors names in CA descriptors.\<close>

definition ca_set :: "bytes list \<Rightarrow> uint16 set" where
  "ca_set ds = {be16 (d ! 4 AND 0x1f) (d ! 5) | d. d \<in> set ds \<and> d ! 0 = 0x09 \<and> 6 \<le> length d}"

lemma ca_set_simps [simp]:
  "ca_set [] = {}"
  "ca_set (d # ds) = (if d ! 0 = 0x09 \<and> 6 \<le> length d then insert (be16 (d ! 4 AND 0x1f) (d ! 5)) (ca_set ds) else ca_set ds)"
  by (auto simp: ca_set_def)

lemma caPID_eq:
  assumes "wf_desc d"
  shows "caPID d = Inr (if 6 \<le> length d then Some (be16 (d ! 4 AND 0x1f) (d ! 5)) else None)"
  using wf_desc_accessors(3) [OF assms] by (auto simp: caPID_def)

lemma ca_pids_eq: "list_all wf_desc ds \<Longrightarrow> ca_pids ds = Inr (ca_set ds)"
  by (induction ds) (auto simp: wf_desc_accessors caPID_eq)

lemma ParseDescriptors_list_all: "list_all wf_desc (ParseDescriptors b)"
  using ParseDescriptors_wf [of _ b] by (auto simp: list_all_iff)

lemma cat_emm_returns: "list_all cat_section ss \<Longrightarrow> returns (cat_emm ss) (\<lambda>_. True)"
proof (induction ss)
  case (Cons s ss)
  then obtain emm where "cat_emm ss = Inr emm" by (auto simp: returns_def)
  then show ?case
    using Cons.prems by (simp add: cat_section_def TotalLength_eq ca_pids_eq ParseDescriptors_list_all)
qed simp

lemma observeCAT_returns:
  assumes "demux_inv d" "complete_section s"
  shows "returns (observeCAT d s) demux_inv"
proof (cases "glen s < 12")
  case False
  have c: "crc_ok s" "glen s = total_len s" using assms(2) by (simp_all add: complete_section_def)
  obtain reset ready ss where a: "add (dx_catSections d) s = Inr ((reset, ready), ss)"
    using add_safe [of "dx_catSections d" s] by auto
  have all: "section_set_all (\<lambda>n. cat_section) ss"
    using assms(1) False c by (intro add_section_set_all [OF a]) (simp_all add: demux_inv_def cat_section_def)
  have inv: "demux_inv (d\<lparr>dx_catSections := ss\<rparr>)" "demux_inv (d\<lparr>dx_catSections := ss, dx_catEMM := emm\<rparr>)" for emm
    using assms(1) all by (simp_all add: demux_inv_def)
  have eq: "observeCAT d s = (let d = d\<lparr>dx_catSections := ss\<rparr>
        in if \<not> ready then Inr d
           else rbind (cat_emm (ordered ss)) (\<lambda>emm. Inr (d\<lparr>dx_catEMM := emm\<rparr>)))"
    using False c a by (simp add: observeCAT_def TotalLength_eq)
  show ?thesis
  proof (cases ready)
    case True
    have "list_all cat_section (ordered ss)"
      by (rule add_ready_list_all [OF a [unfolded eqTrueI [OF True]] all])
    from cat_emm_returns [OF this] show ?thesis using eq True inv by (auto simp: returns_def)
  qed (use eq inv in simp)
qed (use assms in \<open>simp add: observeCAT_def\<close>)

definition dsmcc_element :: "PMTElement \<Rightarrow> bool" where
  "dsmcc_element e \<longleftrightarrow> StreamType e \<in> {0x0b, 0x0c, 0x0d}"

lemma element_pids_eq:
  "list_all (\<lambda>e. list_all wf_desc (PE_Descriptors e)) es \<Longrightarrow>
   element_pids es = Inr (ElementaryPID ` set es \<union> (\<Union>e \<in> set es. ca_set (PE_Descriptors e)),
     ElementaryPID ` {e \<in> set es. dsmcc_element e})"
  by (induction es) (auto simp: ca_pids_eq dsmcc_element_def)

lemma parse_pmt_loop_descs:
  "parse_pmt_loop s end off = Inr es \<Longrightarrow> list_all (\<lambda>e. list_all wf_desc (PE_Descriptors e)) es"
proof (induction s "end" off arbitrary: es rule: parse_pmt_loop.induct)
  case (1 s "end" off)
  show ?case
  proof (cases "off + 5 \<le> end")
    case True
    from "1.prems" True obtain n esInfo tp pid rest where
      r: "be16_mask_at 0x0f s (off + 3) = (Inr n :: ts_error fault + uint16)" "\<not> off + 5 + uint n > end"
        "gslice s (off + 5) (off + 5 + uint n) = (Inr esInfo :: ts_error fault + bytes)"
        "idx s off = (Inr tp :: ts_error fault + byte)"
        "be16_mask_at 0x1f s (off + 1) = (Inr pid :: ts_error fault + uint16)"
        "parse_pmt_loop s end (off + 5 + uint n) = Inr rest"
        "es = \<lparr>StreamType = tp, ElementaryPID = pid, ESInfo = esInfo, PE_Descriptors = ParseDescriptors esInfo\<rparr> # rest"
      by (auto simp: parse_pmt_loop.simps [of s "end" off] rbind_eq_Inr_iff split: if_split_asm)
    from "1.IH" [OF True r(1,2,3,4,5,6)] show ?thesis by (simp add: r(7) ParseDescriptors_list_all)
  next
    case False
    with "1.prems" show ?thesis by (subst (asm) parse_pmt_loop.simps) simp
  qed
qed

lemma ParsePMT_descs:
  assumes "ParsePMT s = Inr pmt"
  shows "list_all wf_desc (PMT_Descriptors pmt)" "list_all (\<lambda>e. list_all wf_desc (PE_Descriptors e)) (Elements pmt)"
proof -
  from assms obtain info fin off where "PMT_Descriptors pmt = ParseDescriptors info"
    "parse_pmt_loop s fin off = Inr (Elements pmt)"
    by (auto simp: ParsePMT_def rbind_eq_Inr_iff Let_def split: if_split_asm)
  then show "list_all wf_desc (PMT_Descriptors pmt)" "list_all (\<lambda>e. list_all wf_desc (PE_Descriptors e)) (Elements pmt)"
    by (simp_all add: ParseDescriptors_list_all parse_pmt_loop_descs)
qed

text \<open>The PIDs a PMT announces: the PCR's (unless it is the null PID), the streams' and the CA systems'.\<close>

definition pmt_pids :: "PMT \<Rightarrow> uint16 set" where
  "pmt_pids pmt = (if PCRPID pmt \<noteq> 0x1fff then {PCRPID pmt} else {}) \<union> ca_set (PMT_Descriptors pmt) \<union>
     ElementaryPID ` set (Elements pmt) \<union> (\<Union>e \<in> set (Elements pmt). ca_set (PE_Descriptors e))"

lemma observePMT_eq:
  assumes "ParsePMT s = Inr pmt" "ProgramNumber pmt = sid" "dx_programs d sid = Some program"
  shows "observePMT d sid s = Inr (rebuildSectionPIDs (d\<lparr>dx_programs := (dx_programs d)(sid \<mapsto>
    program\<lparr>dp_pids := pmt_pids pmt, dp_sectionPIDs := ElementaryPID ` {e \<in> set (Elements pmt). dsmcc_element e}\<rparr>)\<rparr>))"
  using assms ParsePMT_descs [OF assms(1)]
  by (simp add: observePMT_def ca_pids_eq element_pids_eq pmt_pids_def Un_assoc)

lemma demux_inv_rebuildSectionPIDs: "demux_inv d \<Longrightarrow> demux_inv (rebuildSectionPIDs d)"
  by (auto simp: demux_inv_def rebuildSectionPIDs_def Let_def restrict_map_def split: if_splits)

lemma observePMT_returns:
  assumes "demux_inv d"
  shows "returns (observePMT d sid s) demux_inv"
proof (cases "ParsePMT s")
  case (Inl e)
  then have "e \<noteq> Panic" using ParsePMT_safe [of s] by (auto simp: safe_def)
  then show ?thesis using Inl assms by (cases e) (simp_all add: observePMT_def)
next
  case (Inr pmt)
  show ?thesis
  proof (cases "ProgramNumber pmt = sid \<and> dx_programs d sid \<noteq> None")
    case True
    then obtain program where p: "dx_programs d sid = Some program" by auto
    have "demux_inv (d\<lparr>dx_programs := m\<rparr>)" for m using assms by (simp add: demux_inv_def)
    then show ?thesis using observePMT_eq [OF Inr _ p] True by (simp add: demux_inv_rebuildSectionPIDs)
  next
    case False
    then show ?thesis using Inr assms by (auto simp: observePMT_def split: option.splits)
  qed
qed

lemma observe_sections_returns:
  "demux_inv d \<Longrightarrow> visits_all order \<Longrightarrow> list_all complete_section ss \<Longrightarrow>
   returns (observe_sections order pid ss d) demux_inv"
proof (induction ss arbitrary: d)
  case (Cons s ss)
  then have s: "complete_section s" "list_all complete_section ss" by simp_all
  have tid: "TableID s = Inr (s ! 0)"
    using s(1) total_len_bounds(1) [of s] by (simp add: TableID_def complete_section_def Suc_le_eq)
  let ?m = "if s ! 0 = 0x00 then (if pid = 0x0000 then observePAT order d s else Inr d)
            else if s ! 0 = 0x01 then (if pid = 0x0001 then observeCAT d s else Inr d)
            else if s ! 0 = 0x02 then
              (case dx_pmtByPID d pid of Some serviceID \<Rightarrow> observePMT d serviceID s | None \<Rightarrow> Inr d)
            else Inr d"
  have "returns ?m demux_inv"
    using Cons.prems s(1) by (auto simp: observePAT_returns observeCAT_returns observePMT_returns split: option.splits)
  then have "returns (rbind ?m (observe_sections order pid ss)) demux_inv"
    by (rule returns_rbind) (use Cons.IH Cons.prems(2) s(2) in blast)
  then show ?case by (simp add: tid)
qed simp

lemma usable_packet_returns: "returns (usable_packet p) (\<lambda>ok. ok \<longrightarrow> length p = 188)"
  by (auto simp: usable_packet_def packet_accessors_ok PacketSize_def)

lemma FeedWithPID_returns:
  assumes "demux_inv d" "visits_all order"
  shows "returns (FeedWithPID order d p) (\<lambda>(out, d'). demux_inv d' \<and> (\<forall>(pid, s) \<in> set out. complete_section s))"
proof -
  obtain ok where ok: "usable_packet p = Inr ok" "ok \<longrightarrow> length p = 188"
    using usable_packet_returns [of p] by (auto simp: returns_def)
  show ?thesis
  proof (cases ok)
    case True
    then have len: "length p = 188" using ok by simp
    obtain pid where pid: "PID p = (Inr pid :: ts_error fault + uint16)"
      using packet_accessors_ok(3) [OF len] by auto
    let ?a = "case dx_assemblers d pid of None \<Rightarrow> NewSectionAssembler pid | Some a \<Rightarrow> a"
    have apid: "sa_pid ?a = pid"
      using assms(1) by (auto simp: demux_inv_def NewSectionAssembler_def split: option.splits)
    obtain ss a' where f: "FeedAll ?a p = Inr (ss, a')" "\<forall>s \<in> set ss. complete_section s" "sa_pid a' = pid"
      using FeedAll_returns [OF len, of ?a] apid by (auto simp: returns_def sections_ok_def)
    let ?d = "d\<lparr>dx_assemblers := (dx_assemblers d)(pid \<mapsto> a')\<rparr>"
    have "demux_inv ?d" using assms(1) f(3) by (simp add: demux_inv_def)
    then obtain d' where "observe_sections order pid ss ?d = Inr d'" "demux_inv d'"
      using observe_sections_returns [of ?d order ss pid] assms(2) f(2) by (auto simp: returns_def list_all_iff)
    then show ?thesis
      using ok True pid f assms(1) by (simp add: FeedWithPID_def Let_def)
  qed (use ok assms in \<open>simp add: FeedWithPID_def\<close>)
qed

subsection \<open>Serving packets\<close>

lemma usable_packet_length: "usable_packet p = Inr True \<Longrightarrow> length p = 188"
  using usable_packet_returns [of p] by (auto simp: returns_def)

lemma demux_inv_services_other:
  "demux_inv d \<Longrightarrow> demux_inv (d\<lparr>dx_services := (dx_services d)(sid \<mapsto> new_output)\<rparr>)"
  by (simp add: demux_inv_services)

lemma serviceOutput_returns:
  assumes "demux_inv d"
  shows "returns (serviceOutput d sid) (\<lambda>d'. demux_inv d' \<and> outputs_only d d' \<and>
    dx_programs d' = dx_programs d \<and> dx_services d' sid \<noteq> None)"
proof (cases "dx_services d sid")
  case None
  let ?d = "d\<lparr>dx_services := (dx_services d)(sid \<mapsto> new_output)\<rparr>"
  have "returns (rebuildPAT ?d sid) (\<lambda>d'. demux_inv d' \<and> outputs_only d d' \<and>
    dx_programs d' = dx_programs d \<and> dx_services d' sid \<noteq> None)"
    by (rule returns_mono [OF rebuildPAT_returns [OF demux_inv_services_other [OF assms]]])
      (simp add: outputs_only_def)
  with None show ?thesis by (simp add: serviceOutput_def)
qed (use assms in \<open>simp add: serviceOutput_def outputs_only_def\<close>)

lemma current_output_returns:
  assumes "demux_inv d" "output_ok o'"
  shows "returns (if do_generation o' \<noteq> dx_patGeneration d then rebuildPATOutput d sid o' else Inr o') output_ok"
  using assms rebuildPATOutput_returns by simp

text \<open>The packets a service is given unchanged.\<close>

definition passes :: "Demuxer \<Rightarrow> demuxProgram \<Rightarrow> uint16 \<Rightarrow> bool" where
  "passes d program pid \<longleftrightarrow> commonServicePID pid \<or> pid = dp_pmtPID program \<or> pid \<in> dp_pids program \<or> pid \<in> dx_catEMM d"

lemma servicePacket_other:
  assumes "demux_inv d" "output_ok o'" "usable_packet p = Inr True" "PID p = (Inr pid :: ts_error fault + uint16)" "pid \<noteq> 0"
    "dx_programs d sid = Some program"
  obtains o'' where "servicePacket d sid o' p = Inr (if passes d program pid then Some p else None, o'')" "output_ok o''"
proof -
  from current_output_returns [OF assms(1,2), of sid] obtain o'' where
    "(if do_generation o' \<noteq> dx_patGeneration d then rebuildPATOutput d sid o' else Inr o') = Inr o''" "output_ok o''"
    unfolding returns_def by blast
  then show thesis
    using that [of o''] assms(3-6) by (simp add: servicePacket_def passes_def del: if_split split: if_split)
qed

lemma servicePacket_pat:
  assumes "output_ok o'" "do_generation o' = dx_patGeneration d" "usable_packet p = Inr True"
    "PID p = (Inr 0 :: ts_error fault + uint16)" "dx_programs d sid = Some program" "do_patPackets o' \<noteq> []"
  defines "q \<equiv> do_patPackets o' ! do_patIndex o'"
  shows "servicePacket d sid o' p = Inr (Some (q[3 := (q ! 3 AND 0xf0) OR (do_patCounter o' AND 0x0f)]),
    o'\<lparr>do_patIndex := (do_patIndex o' + 1) mod length (do_patPackets o'),
       do_patCounter := (do_patCounter o' + 1) AND 0x0f\<rparr>)" "length q = 188"
proof -
  have i: "do_patIndex o' < length (do_patPackets o')" using assms(1,6) by (simp add: output_ok_def)
  then show q: "length q = 188" using assms(1) by (simp add: output_ok_def q_def list_all_length)
  have r: "idx (do_patPackets o') (int (do_patIndex o')) = (Inr q :: ts_error fault + bytes)"
    "idx q 3 = (Inr (q ! 3) :: ts_error fault + byte)"
    using i q by (simp_all add: q_def)
  show "servicePacket d sid o' p = Inr (Some (q[3 := (q ! 3 AND 0xf0) OR (do_patCounter o' AND 0x0f)]),
    o'\<lparr>do_patIndex := (do_patIndex o' + 1) mod length (do_patPackets o'),
       do_patCounter := (do_patCounter o' + 1) AND 0x0f\<rparr>)"
    using assms(2-6) r by (simp add: servicePacket_def Let_def)
qed

lemma servicePacket_generation:
  assumes "rebuildPATOutput d sid o' = Inr o''" "do_generation o'' = dx_patGeneration d"
    "do_generation o' \<noteq> dx_patGeneration d" "dx_programs d sid = Some program"
  shows "usable_packet p = Inr True \<Longrightarrow> servicePacket d sid o' p = servicePacket d sid o'' p"
  using assms by (simp add: servicePacket_def)

lemma servicePacket_returns:
  assumes "demux_inv d" "output_ok o'"
  shows "returns (servicePacket d sid o' p) (\<lambda>(r, o''). output_ok o'' \<and> (\<forall>q. r = Some q \<longrightarrow> length q = 188))"
proof -
  obtain ok where ok: "usable_packet p = Inr ok" "ok \<longrightarrow> length p = 188"
    using usable_packet_returns [of p] by (auto simp: returns_def)
  show ?thesis
  proof (cases "ok \<and> dx_programs d sid \<noteq> None")
    case True
    then obtain program where prog: "dx_programs d sid = Some program" and u: "usable_packet p = Inr True"
      and len: "length p = 188" using ok by auto
    obtain pid where pid: "PID p = (Inr pid :: ts_error fault + uint16)"
      using packet_accessors_ok(3) [OF len] by auto
    from current_output_returns [OF assms, of sid] obtain o'' where o'':
      "(if do_generation o' \<noteq> dx_patGeneration d then rebuildPATOutput d sid o' else Inr o') = Inr o''" "output_ok o''"
      unfolding returns_def by blast
    show ?thesis
    proof (cases "pid = 0 \<and> do_patPackets o'' \<noteq> []")
      case True
      let ?q = "do_patPackets o'' ! do_patIndex o''"
      have i: "do_patIndex o'' < length (do_patPackets o'')" using o''(2) True by (simp add: output_ok_def)
      then have q: "length ?q = 188" using o''(2) by (simp add: output_ok_def list_all_length)
      then show ?thesis
        using u prog pid o'' True i
        by (simp add: servicePacket_def Let_def del: if_split) (simp add: output_ok_def)
    next
      case False
      then show ?thesis using u prog pid o'' len by (auto simp: servicePacket_def simp del: if_split split: if_split)
    qed
  next
    case False
    then show ?thesis using ok assms(2) by (auto simp: servicePacket_def split: option.splits)
  qed
qed

lemma ServicePacket_returns:
  assumes "demux_inv d"
  shows "returns (ServicePacket d sid p) (\<lambda>(r, d'). demux_inv d' \<and> outputs_only d d' \<and>
    dx_programs d' = dx_programs d \<and> (\<forall>q. r = Some q \<longrightarrow> length q = 188))"
proof -
  obtain d1 o' where d1: "serviceOutput d sid = Inr d1" "demux_inv d1" "outputs_only d d1"
    "dx_programs d1 = dx_programs d" "dx_services d1 sid = Some o'"
    using serviceOutput_returns [OF assms, of sid] by (auto simp: returns_def)
  then have "output_ok o'" by (simp add: demux_inv_def)
  then obtain r o'' where s: "servicePacket d1 sid o' p = Inr (r, o'')" "output_ok o''" "\<forall>q. r = Some q \<longrightarrow> length q = 188"
    using servicePacket_returns [OF d1(2), of o' sid p] by (auto simp: returns_def)
  have "ServicePacket d sid p = Inr (r, d1\<lparr>dx_services := (dx_services d1)(sid \<mapsto> o'')\<rparr>)"
    using d1(1,5) s(1) by (simp add: ServicePacket_def)
  moreover have "outputs_only d (d1\<lparr>dx_services := (dx_services d1)(sid \<mapsto> o'')\<rparr>)"
    using d1(3) by (simp add: outputs_only_def)
  ultimately show ?thesis using d1(4) s(3) demux_inv_services [OF d1(2) s(2), of sid] by simp
qed

lemma ServicePacket_other:
  assumes "demux_inv d" "usable_packet p = Inr True" "PID p = (Inr pid :: ts_error fault + uint16)" "pid \<noteq> 0"
    "dx_programs d sid = Some program"
  shows "map_sum id fst (ServicePacket d sid p) = Inr (if passes d program pid then Some p else None)"
proof -
  obtain d1 o' where d1: "serviceOutput d sid = Inr d1" "demux_inv d1" "outputs_only d d1"
    "dx_programs d1 = dx_programs d" "dx_services d1 sid = Some o'"
    using serviceOutput_returns [OF assms(1), of sid] by (auto simp: returns_def)
  then have "output_ok o'" by (simp add: demux_inv_def)
  moreover have "passes d1 program pid = passes d program pid" using d1(3) by (simp add: passes_def outputs_only_def)
  moreover have "dx_programs d1 sid = Some program" using d1(4) assms(5) by simp
  ultimately obtain o'' where
    "servicePacket d1 sid o' p = Inr (if passes d program pid then Some p else None, o'')"
    using servicePacket_other [OF d1(2) _ assms(2-4), of o' sid program] by metis
  then show ?thesis using d1(1,5) by (simp add: ServicePacket_def)
qed

subsection \<open>Reachable states\<close>

text \<open>Each feed may visit the PAT's map in an order of its own.\<close>

inductive demux_reachable :: "Demuxer \<Rightarrow> bool" where
  reach_new: "demux_reachable NewDemuxer"
| reach_feed: "demux_reachable d \<Longrightarrow> visits_all order \<Longrightarrow> FeedWithPID order d p = Inr (out, d') \<Longrightarrow> demux_reachable d'"
| reach_serve: "demux_reachable d \<Longrightarrow> ServicePacket d sid p = Inr (r, d') \<Longrightarrow> demux_reachable d'"

text \<open>While a PAT is in force the programs are its programs.\<close>

definition follows_pat :: "Demuxer \<Rightarrow> bool" where
  "follows_pat d \<longleftrightarrow> (\<forall>pat. dx_pat d = Some pat \<longrightarrow>
     (\<forall>sid. map_option dp_pmtPID (dx_programs d sid) = PAT_Programs pat sid))"

lemma observePAT_follows:
  assumes "demux_inv d" "visits_all order" "follows_pat d"
  shows "returns (observePAT order d sct) follows_pat"
proof -
  obtain reset ready ss where a: "add (dx_patSections d) sct = Inr ((reset, ready), ss)"
    using add_safe [of "dx_patSections d" sct] by auto
  let ?d = "d\<lparr>dx_patSections := ss, dx_pat := if reset then None else dx_pat d\<rparr>"
  let ?c = "combine_pats (ordered ss) \<lparr>PAT_TransportStreamID = 0, PAT_VersionNumber = 0, PAT_NetworkPID = 0,
       PAT_Programs = Map.empty\<rparr>"
  have keep: "follows_pat ?d" using assms(3) by (simp add: follows_pat_def)
  show ?thesis
  proof (cases "\<exists>combined. ready \<and> ?c = Inr combined")
    case True
    then obtain combined where c: "?c = Inr combined" "add (dx_patSections d) sct = Inr ((reset, True), ss)"
      using a by auto
    show ?thesis
      by (rule returns_mono [OF observePAT_ready [OF assms(1,2) c(2,1)]]) (simp add: follows_pat_def)
  next
    case False
    have "?c \<noteq> Inl Panic" using combine_pats_safe [of "ordered ss"] by (auto simp: safe_def)
    then have "observePAT order d sct = Inr ?d"
      using False a by (cases ?c) (auto simp: observePAT_def Let_def split: fault.splits)
    then show ?thesis using keep by simp
  qed
qed

lemma observeCAT_follows: "follows_pat d \<Longrightarrow> observeCAT d sct = Inr d' \<Longrightarrow> follows_pat d'"
  by (auto simp: observeCAT_def rbind_eq_Inr_iff Let_def follows_pat_def split: if_split_asm)

lemma observePMT_follows:
  assumes "follows_pat d" "observePMT d sid sct = Inr d'"
  shows "follows_pat d'"
proof (cases "\<exists>pmt program. ParsePMT sct = Inr pmt \<and> ProgramNumber pmt = sid \<and> dx_programs d sid = Some program")
  case True
  then obtain pmt program where p: "ParsePMT sct = Inr pmt" "ProgramNumber pmt = sid" "dx_programs d sid = Some program"
    by blast
  from assms(2) [unfolded observePMT_eq [OF p]] have "dx_pat d' = dx_pat d"
    "map_option dp_pmtPID (dx_programs d' s) = map_option dp_pmtPID (dx_programs d s)" for s
    using p(3) by (auto simp: rebuildSectionPIDs_def Let_def)
  then show ?thesis using assms(1) by (simp add: follows_pat_def)
next
  case False
  then have "d' = d" using assms(2) by (auto simp: observePMT_def split: sum.splits fault.splits if_split_asm option.splits)
  then show ?thesis using assms(1) by simp
qed

lemma observe_sections_follows:
  "demux_inv d \<Longrightarrow> visits_all order \<Longrightarrow> follows_pat d \<Longrightarrow> list_all complete_section ss \<Longrightarrow>
   observe_sections order pid ss d = Inr d' \<Longrightarrow> follows_pat d'"
proof (induction ss arbitrary: d)
  case (Cons s ss)
  have tid: "TableID s = Inr (s ! 0)"
    using Cons.prems(4) total_len_bounds(1) [of s] by (simp add: TableID_def complete_section_def Suc_le_eq)
  let ?m = "if s ! 0 = 0x00 then (if pid = 0x0000 then observePAT order d s else Inr d)
            else if s ! 0 = 0x01 then (if pid = 0x0001 then observeCAT d s else Inr d)
            else if s ! 0 = 0x02 then
              (case dx_pmtByPID d pid of Some serviceID \<Rightarrow> observePMT d serviceID s | None \<Rightarrow> Inr d)
            else Inr d"
  from Cons.prems(5) obtain d1 where d1: "?m = Inr d1" "observe_sections order pid ss d1 = Inr d'"
    by (auto simp: tid rbind_eq_Inr_iff simp del: if_split)
  have "returns ?m demux_inv"
    using Cons.prems(1,2,4) by (auto simp: observePAT_returns observeCAT_returns observePMT_returns split: option.splits)
  then have "demux_inv d1" using d1(1) by (simp add: returns_def)
  moreover have "follows_pat d1"
    using d1(1) Cons.prems(3) observePAT_follows [OF Cons.prems(1,2,3), of s]
    by (auto simp: returns_def split: if_split_asm option.splits intro: observeCAT_follows observePMT_follows)
  ultimately show ?case using Cons d1(2) by auto
qed simp

lemma FeedWithPID_observes:
  assumes "usable_packet p = Inr True" "PID p = (Inr pid :: ts_error fault + uint16)" "shouldAssemble d pid"
    "FeedAll (case dx_assemblers d pid of None \<Rightarrow> NewSectionAssembler pid | Some a \<Rightarrow> a) p = Inr (ss, a')"
  shows "FeedWithPID order d p = map_sum id (\<lambda>d'. (map (\<lambda>s. (pid, s)) ss, d'))
    (observe_sections order pid ss (d\<lparr>dx_assemblers := (dx_assemblers d)(pid \<mapsto> a')\<rparr>))"
  using assms by (cases "observe_sections order pid ss (d\<lparr>dx_assemblers := (dx_assemblers d)(pid \<mapsto> a')\<rparr>)")
    (simp_all add: FeedWithPID_def Let_def)

lemma FeedWithPID_follows:
  assumes "demux_inv d" "visits_all order" "follows_pat d" "FeedWithPID order d p = Inr (out, d')"
  shows "follows_pat d'"
proof (cases "\<exists>pid. usable_packet p = Inr True \<and> PID p = (Inr pid :: ts_error fault + uint16) \<and> shouldAssemble d pid")
  case True
  then obtain pid where u: "usable_packet p = Inr True" "PID p = (Inr pid :: ts_error fault + uint16)" "shouldAssemble d pid"
    by blast
  have len: "length p = 188" using u(1) usable_packet_length by blast
  let ?a = "case dx_assemblers d pid of None \<Rightarrow> NewSectionAssembler pid | Some a \<Rightarrow> a"
  have "sa_pid ?a = pid" using assms(1) by (auto simp: demux_inv_def NewSectionAssembler_def split: option.splits)
  then obtain ss a' where f: "FeedAll ?a p = Inr (ss, a')" "\<forall>s \<in> set ss. complete_section s" "sa_pid a' = pid"
    using FeedAll_returns [OF len, of ?a] by (auto simp: returns_def sections_ok_def)
  let ?d = "d\<lparr>dx_assemblers := (dx_assemblers d)(pid \<mapsto> a')\<rparr>"
  have "demux_inv ?d" "follows_pat ?d" using assms(1,3) f(3) by (simp_all add: demux_inv_def follows_pat_def)
  moreover have "observe_sections order pid ss ?d = Inr d'"
    using assms(4) FeedWithPID_observes [OF u f(1), of order] by (auto simp: map_sum_def split: sum.splits)
  ultimately show ?thesis
    using observe_sections_follows [OF _ assms(2), of ?d ss pid d'] f(2) by (simp add: list_all_iff)
next
  case False
  then have "d' = d" using assms(4) by (auto simp: FeedWithPID_def rbind_eq_Inr_iff split: if_split_asm)
  then show ?thesis using assms(3) by simp
qed

lemma demux_reachable_inv:
  "demux_reachable d \<Longrightarrow> demux_inv d \<and> follows_pat d"
proof (induction rule: demux_reachable.induct)
  case reach_new
  then show ?case by (simp add: demux_inv_new) (simp add: follows_pat_def NewDemuxer_def)
next
  case (reach_feed d order p out d')
  then show ?case using FeedWithPID_returns [of d order p] FeedWithPID_follows [of d order p out d']
    by (auto simp: returns_def)
next
  case (reach_serve d sid p r d')
  then show ?case using ServicePacket_returns [of d sid p]
    by (auto simp: returns_def outputs_only_def follows_pat_def)
qed

subsection \<open>Tuning in\<close>

fun feed_all :: "map_order \<Rightarrow> Demuxer \<Rightarrow> bytes list \<Rightarrow> ts_error fault + Demuxer" where
  "feed_all order d [] = Inr d"
| "feed_all order d (p # ps) = rbind (FeedWithPID order d p) (\<lambda>(_, d). feed_all order d ps)"

lemma feed_all_append: "feed_all order d (ps @ qs) = rbind (feed_all order d ps) (\<lambda>d. feed_all order d qs)"
  by (induction ps arbitrary: d) (auto simp: rbind_def split: sum.splits)

lemma feed_all_reachable:
  "demux_reachable d \<Longrightarrow> visits_all order \<Longrightarrow> feed_all order d ps = Inr d' \<Longrightarrow> demux_reachable d'"
  by (induction ps arbitrary: d) (auto simp: rbind_eq_Inr_iff intro: reach_feed)

lemma feed_all_section:
  "emits_last a ps s \<Longrightarrow> a = (case dx_assemblers d pid of None \<Rightarrow> NewSectionAssembler pid | Some a \<Rightarrow> a) \<Longrightarrow>
   shouldAssemble d pid \<Longrightarrow>
   \<forall>p \<in> set ps. usable_packet p = Inr True \<and> PID p = (Inr pid :: ts_error fault + uint16) \<Longrightarrow>
   demux_inv d \<Longrightarrow>
   \<exists>asm. feed_all order d ps = observe_sections order pid [s] (d\<lparr>dx_assemblers := asm\<rparr>) \<and>
     demux_inv (d\<lparr>dx_assemblers := asm\<rparr>)"
proof (induction a ps s arbitrary: d rule: emits_last.induct)
  case (2 a p s)
  then obtain a' where f: "FeedAll a p = Inr ([s], a')" by auto
  have len: "length p = 188" using 2(4) by (intro usable_packet_length) simp
  have "sa_pid a = pid" using 2(2,5) by (auto simp: demux_inv_def NewSectionAssembler_def split: option.splits)
  then have "sa_pid a' = pid" using FeedAll_returns [OF len, of a] f by (simp add: returns_def sections_ok_def)
  then have inv: "demux_inv (d\<lparr>dx_assemblers := (dx_assemblers d)(pid \<mapsto> a')\<rparr>)"
    using 2(5) by (simp add: demux_inv_def)
  have "feed_all order d [p] = observe_sections order pid [s] (d\<lparr>dx_assemblers := (dx_assemblers d)(pid \<mapsto> a')\<rparr>)"
    using FeedWithPID_observes [of p pid d "[s]" a' order] 2 f
    by (cases "observe_sections order pid [s] (d\<lparr>dx_assemblers := (dx_assemblers d)(pid \<mapsto> a')\<rparr>)")
      (simp_all add: del: observe_sections.simps)
  with inv show ?case by blast
next
  case (3 a p q ps s)
  then obtain a' where f: "FeedAll a p = Inr ([], a')" "emits_last a' (q # ps) s" by auto
  let ?d = "d\<lparr>dx_assemblers := (dx_assemblers d)(pid \<mapsto> a')\<rparr>"
  have len: "length p = 188" using 3(5) by (intro usable_packet_length) simp
  have "sa_pid a = pid" using 3(3,6) by (auto simp: demux_inv_def NewSectionAssembler_def split: option.splits)
  then have "sa_pid a' = pid" using FeedAll_returns [OF len, of a] f(1) by (simp add: returns_def sections_ok_def)
  then have inv: "demux_inv ?d" using 3(6) by (simp add: demux_inv_def)
  have "FeedWithPID order d p = Inr ([], ?d)"
    using FeedWithPID_observes [of p pid d "[]" a' order] 3(3-5) f(1) by simp
  then have "feed_all order d (p # q # ps) = feed_all order ?d (q # ps)" by simp
  moreover have "\<exists>asm. feed_all order ?d (q # ps) = observe_sections order pid [s] (?d\<lparr>dx_assemblers := asm\<rparr>) \<and>
     demux_inv (?d\<lparr>dx_assemblers := asm\<rparr>)"
    using 3(4,5) inv f by (intro 3(1)) (simp_all add: shouldAssemble_def)
  ultimately show ?case by auto
qed simp

lemma packetize_loop_packets:
  "p \<in> set (fst (packetize_loop pid rem first c)) \<Longrightarrow> \<exists>f c' r. p = section_packet pid f c' r"
proof (induction pid rem first c rule: packetize_loop.induct)
  case (1 pid rem first c)
  show ?case
  proof (cases "first \<or> length rem > 0")
    case True
    with "1.prems" consider "p = section_packet pid first c rem"
      | "p \<in> set (fst (packetize_loop pid (drop (if first then 183 else 184) rem) False ((c + 1) AND 0x0f)))"
      by (subst (asm) packetize_loop.simps) (auto simp: split_beta Let_def)
    then show ?thesis using "1.IH" True by cases auto
  next
    case False
    with "1.prems" show ?thesis by (subst (asm) packetize_loop.simps) simp
  qed
qed

lemma usable_section_packet:
  assumes "unat pid < 8192" "pid \<noteq> 0x1fff"
  shows "usable_packet (section_packet pid f c r) = Inr True"
    "PID (section_packet pid f c r) = (Inr pid :: ts_error fault + uint16)"
  using section_packet_accessors [OF assms(1)] assms(2)
  by (simp_all add: usable_packet_def PacketSize_def IsNull_def ValidPayloadOffset_def packet_accessors_ok
      section_packet_header counter_bits word_le_nat_alt)

lemma usable_packetizeSection:
  assumes "unat pid < 8192" "pid \<noteq> 0x1fff"
  shows "\<forall>p \<in> set (fst (packetizeSection pid s c)). usable_packet p = Inr True \<and> PID p = (Inr pid :: ts_error fault + uint16)"
  using packetize_loop_packets [of _ pid s True c] usable_section_packet [OF assms]
  by (fastforce simp: packetizeSection_def)

text \<open>Feeding a whole section's packets is observing the section.\<close>

lemma feed_all_packetizeSection:
  assumes "complete_section s" "s ! 0 \<noteq> 0xff" "unat pid < 8192" "pid \<noteq> 0x1fff" "shouldAssemble d pid" "demux_inv d"
  obtains asm where "feed_all order d (fst (packetizeSection pid s c)) =
      observe_sections order pid [s] (d\<lparr>dx_assemblers := asm\<rparr>)" "demux_inv (d\<lparr>dx_assemblers := asm\<rparr>)"
proof -
  let ?a = "case dx_assemblers d pid of None \<Rightarrow> NewSectionAssembler pid | Some a \<Rightarrow> a"
  have "sa_pid ?a = pid" using assms(6) by (auto simp: demux_inv_def NewSectionAssembler_def split: option.splits)
  then have "emits_last ?a (fst (packetizeSection pid s c)) s"
    by (rule emits_packetizeSection [OF assms(1-3)])
  from feed_all_section [OF this refl assms(5) usable_packetizeSection [OF assms(3,4)] assms(6)] that
  show thesis by blast
qed

text \<open>A table of one section, in force.\<close>

definition single_section :: "bytes \<Rightarrow> bool" where
  "single_section s \<longleftrightarrow> (case ParseSectionHeader s of
     Inl _ \<Rightarrow> False
   | Inr h \<Rightarrow> SH_CurrentNextIndicator h \<and> SH_SectionNumber h = 0 \<and> SH_LastSectionNumber h = 0)"

lemma add_single_section:
  assumes "single_section s" "starts_version ss (projr (ParseSectionHeader s))"
  obtains ss' where "add ss s = Inr ((True, True), ss')" "ordered ss' = [s]"
proof -
  obtain h where h: "ParseSectionHeader s = Inr h" "SH_CurrentNextIndicator h" "SH_SectionNumber h = 0"
    "SH_LastSectionNumber h = 0" "starts_version ss h"
    using assms by (auto simp: single_section_def split: sum.splits)
  let ?s = "store_section ss h s"
  have "ts_sections ?s = [(0, s)]" "ts_last ?s = 0" using h by (simp_all add: store_section_def Let_def)
  then have "all_sections ?s" "ordered ?s = [s]"
    by (simp_all add: all_sections_def ordered_def section_numbers_def)
  then show thesis using that [of ?s] h by (simp add: add_def Let_def)
qed

lemma parsed_tables:
  "ParsePAT s = Inr pat \<Longrightarrow> TableID s = (Inr 0 :: ts_error fault + byte)"
  "ParsePMT s = Inr pmt \<Longrightarrow> TableID s = (Inr 2 :: ts_error fault + byte)"
  by (auto simp: ParsePAT_def ParsePMT_def table_check_def rbind_eq_Inr_iff split: if_split_asm)

lemma observe_first_PAT:
  assumes "visits_all order" "demux_inv d" "ParsePAT sp = Inr pat" "single_section sp"
    "dx_patSections d = new_section_set" "dx_pat d = None"
  shows "returns (observe_sections order 0 [sp] d) (\<lambda>d'. demux_inv d' \<and> dx_pat d' = Some pat \<and>
    (\<forall>sid. map_option dp_pmtPID (dx_programs d' sid) = PAT_Programs pat sid) \<and>
    (\<forall>sid pid. PAT_Programs pat sid = Some pid \<and> only_user (PAT_Programs pat) sid pid \<longrightarrow>
       dx_pmtByPID d' pid = Some sid) \<and>
    dx_sectionPIDs d' = dx_sectionPIDs d \<and> dx_catEMM d' = dx_catEMM d \<and>
    dx_patGeneration d' = dx_patGeneration d + 1)"
proof -
  have "starts_version (dx_patSections d) (projr (ParseSectionHeader sp))"
    by (simp add: assms(5) starts_version_def new_section_set_def)
  from add_single_section [OF assms(4) this] obtain ss where
    ss: "add (dx_patSections d) sp = Inr ((True, True), ss)" "ordered ss = [sp]" .
  have "combine_pats (ordered ss) \<lparr>PAT_TransportStreamID = 0, PAT_VersionNumber = 0, PAT_NetworkPID = 0,
       PAT_Programs = Map.empty\<rparr> = Inr pat"
    by (simp add: ss(2) assms(3))
  note obs = observePAT_ready [OF assms(2,1) ss(1) this]
  have "observe_sections order 0 [sp] d = observePAT order d sp"
    using parsed_tables(1) [OF assms(3)] by (simp add: rbind_def split: sum.splits)
  then show ?thesis using obs by (simp add: samePAT_def)
qed

lemma observe_PMT_of:
  assumes "demux_inv d" "ParsePMT sm = Inr pmt" "ProgramNumber pmt = sid" "dx_programs d sid = Some program"
    "dx_pmtByPID d pid = Some sid"
  shows "returns (observe_sections order pid [sm] d) (\<lambda>d'. demux_inv d' \<and> dom (dx_programs d') = dom (dx_programs d) \<and>
    dx_catEMM d' = dx_catEMM d \<and> (\<exists>program'. dx_programs d' sid = Some program' \<and>
      dp_pmtPID program' = dp_pmtPID program \<and> dp_pids program' = pmt_pids pmt))"
proof -
  have eq: "observe_sections order pid [sm] d = observePMT d sid sm"
    using parsed_tables(2) [OF assms(2)] assms(5) by (simp add: rbind_def split: sum.splits)
  have inv: "demux_inv (d\<lparr>dx_programs := ps\<rparr>)" for ps using assms(1) by (simp add: demux_inv_def)
  show ?thesis
    unfolding eq observePMT_eq [OF assms(2-4)]
    using demux_inv_rebuildSectionPIDs [OF inv] assms(4)
    by (auto simp: rebuildSectionPIDs_def Let_def)
qed

lemma NewDemuxer_fields:
  "dx_patSections NewDemuxer = new_section_set" "dx_pat NewDemuxer = None" "dx_catEMM NewDemuxer = {}"
  "dx_patGeneration NewDemuxer = 0"
  by (simp_all add: NewDemuxer_def)

lemma tune_in:
  assumes order: "visits_all order"
    and pat: "complete_section sp" "ParsePAT sp = Inr pat" "single_section sp"
    and user: "PAT_Programs pat sid = Some pmtPID" "only_user (PAT_Programs pat) sid pmtPID" "pmtPID \<noteq> 0x1fff"
    and pmt: "complete_section sm" "ParsePMT sm = Inr pmt" "ProgramNumber pmt = sid"
  obtains d program where
    "feed_all order NewDemuxer (fst (packetizeSection 0 sp c1) @ fst (packetizeSection pmtPID sm c2)) = Inr d"
    "demux_inv d" "dom (dx_programs d) = dom (PAT_Programs pat)" "dx_catEMM d = {}"
    "dx_programs d sid = Some program" "dp_pmtPID program = pmtPID" "dp_pids program = pmt_pids pmt"
proof -
  have tid: "sp ! 0 \<noteq> 0xff" "sm ! 0 \<noteq> 0xff"
    using parsed_tables(1) [OF pat(2)] parsed_tables(2) [OF pmt(2)] complete_sectionD [OF pat(1)] complete_sectionD [OF pmt(1)]
    by (simp_all add: TableID_def)
  obtain asm where asm: "feed_all order NewDemuxer (fst (packetizeSection 0 sp c1)) =
      observe_sections order 0 [sp] (NewDemuxer\<lparr>dx_assemblers := asm\<rparr>)" "demux_inv (NewDemuxer\<lparr>dx_assemblers := asm\<rparr>)"
    by (rule feed_all_packetizeSection [OF pat(1) tid(1), of 0 NewDemuxer order c1])
      (simp_all add: shouldAssemble_def demux_inv_new)
  obtain d1 where d1: "feed_all order NewDemuxer (fst (packetizeSection 0 sp c1)) = Inr d1" "demux_inv d1"
    "\<forall>sid. map_option dp_pmtPID (dx_programs d1 sid) = PAT_Programs pat sid"
    "dx_pmtByPID d1 pmtPID = Some sid" "dx_catEMM d1 = {}"
    using observe_first_PAT [OF order asm(2) pat(2,3)] user(1,2) unfolding asm(1) returns_def
    by (auto simp: NewDemuxer_fields simp del: observe_sections.simps)
  have pid: "unat pmtPID < 8192" using ParsePAT_ok [OF pat(2)] user(1) by (simp add: pat_ok_def)
  have "shouldAssemble d1 pmtPID" using d1(4) by (simp add: shouldAssemble_def)
  then obtain asm2 where asm2: "feed_all order d1 (fst (packetizeSection pmtPID sm c2)) =
      observe_sections order pmtPID [sm] (d1\<lparr>dx_assemblers := asm2\<rparr>)" "demux_inv (d1\<lparr>dx_assemblers := asm2\<rparr>)"
    using feed_all_packetizeSection [OF pmt(1) tid(2) pid user(3) _ d1(2)] by metis
  obtain program where prog: "dx_programs d1 sid = Some program" "dp_pmtPID program = pmtPID"
    using d1(3) user(1) by (metis map_option_eq_Some)
  have dom: "dom (dx_programs d1) = dom (PAT_Programs pat)" using d1(3) by (metis (no_types) dom_map_option_comp comp_def ext)
  obtain d program' where d: "feed_all order d1 (fst (packetizeSection pmtPID sm c2)) = Inr d" "demux_inv d"
    "dom (dx_programs d) = dom (PAT_Programs pat)" "dx_catEMM d = {}"
    "dx_programs d sid = Some program'" "dp_pmtPID program' = pmtPID" "dp_pids program' = pmt_pids pmt"
    using observe_PMT_of [OF asm2(2) pmt(2,3), of program pmtPID order] prog d1(4,5) dom
    unfolding asm2(1) returns_def by auto
  have "feed_all order NewDemuxer (fst (packetizeSection 0 sp c1) @ fst (packetizeSection pmtPID sm c2)) = Inr d"
    using d1(1) d(1) by (simp add: feed_all_append)
  then show thesis using d(2-7) by (rule that)
qed

subsection \<open>The PAT a service is given\<close>

fun serve_all :: "Demuxer \<Rightarrow> ServiceDemux \<Rightarrow> bytes list \<Rightarrow> ts_error fault + (bytes option list \<times> ServiceDemux)" where
  "serve_all d v [] = Inr ([], v)"
| "serve_all d v (p # ps) =
     rbind (service_Packet d v p) (\<lambda>(r, v).
       rbind (serve_all d v ps) (\<lambda>(rs, v). Inr (r # rs, v)))"

lemma section_packet_counter:
  fixes c :: byte and pid :: uint16 and s :: bytes
  defines "q \<equiv> section_packet pid True 0 s"
  shows "q[3 := (q ! 3 AND 0xf0) OR (c AND 0x0f)] = section_packet pid True c s"
proof -
  have "(0x10 OR (0 AND 0x0f)) AND 0xf0 = (0x10 :: byte)" by simp
  then show ?thesis by (simp add: q_def section_packet_def Let_def eval_nat_numeral del: replicate_Suc)
qed

fun pat_packets :: "byte \<Rightarrow> bytes \<Rightarrow> nat \<Rightarrow> bytes list" where
  "pat_packets c s 0 = []"
| "pat_packets c s (Suc n) = section_packet 0 True c s # pat_packets ((c + 1) AND 0x0f) s n"

lemma serve_all_pat:
  assumes "dx_programs d sid = Some program"
  shows "\<forall>p \<in> set ps. usable_packet p = Inr True \<and> PID p = (Inr 0 :: ts_error fault + uint16) \<Longrightarrow>
    do_generation o' = dx_patGeneration d \<Longrightarrow> do_patPackets o' = [section_packet 0 True 0 s] \<Longrightarrow>
    do_patIndex o' = 0 \<Longrightarrow>
    map_sum id fst (serve_all d \<lparr>sd_output = o', sd_serviceID = sid\<rparr> ps) =
      Inr (map Some (pat_packets (do_patCounter o') s (length ps)))"
proof (induction ps arbitrary: o')
  case (Cons p ps)
  let ?o = "o'\<lparr>do_patIndex := (do_patIndex o' + 1) mod length (do_patPackets o'),
       do_patCounter := (do_patCounter o' + 1) AND 0x0f\<rparr>"
  have ok: "output_ok o'" using Cons.prems by (simp add: output_ok_def)
  have "service_Packet d \<lparr>sd_output = o', sd_serviceID = sid\<rparr> p =
      Inr (Some (section_packet 0 True (do_patCounter o') s), \<lparr>sd_output = ?o, sd_serviceID = sid\<rparr>)"
    using servicePacket_pat(1) [OF ok Cons.prems(2) _ _ assms, of p] Cons.prems
    by (simp add: service_Packet_def section_packet_counter [simplified])
  moreover have "map_sum id fst (serve_all d \<lparr>sd_output = ?o, sd_serviceID = sid\<rparr> ps) =
      Inr (map Some (pat_packets (do_patCounter ?o) s (length ps)))"
    using Cons.prems by (intro Cons.IH) auto
  ultimately show ?case
    by (cases "serve_all d \<lparr>sd_output = ?o, sd_serviceID = sid\<rparr> ps") auto
qed simp

lemma counter_add: "((c AND 0x0f) + k) AND 0x0f = (c + k) AND (0x0f :: byte)"
proof -
  have "unat (((c AND 0x0f) + k) AND 0x0f) = unat ((c + k) AND (0x0f :: byte))"
    unfolding unat_and_0f unat_word_ariths by (simp add: mod_mod_cancel mod_simps)
  then show ?thesis by (rule unsigned_word_eqI)
qed

lemma nth_pat_packets:
  "i < n \<Longrightarrow> \<exists>c'. pat_packets c s n ! i = section_packet 0 True c' s \<and> c' AND 0x0f = (c + word_of_nat i) AND 0x0f"
proof (induction n arbitrary: c i)
  case (Suc n)
  show ?case
  proof (cases i)
    case (Suc k)
    then obtain c' where c': "pat_packets ((c + 1) AND 0x0f) s n ! k = section_packet 0 True c' s"
      "c' AND 0x0f = (((c + 1) AND 0x0f) + word_of_nat k) AND 0x0f"
      using Suc.IH [of k "(c + 1) AND 0x0f"] Suc.prems by auto
    moreover have "(((c + 1) AND 0x0f) + word_of_nat k) AND 0x0f = (c + word_of_nat i) AND (0x0f :: byte)"
      unfolding counter_add by (simp add: Suc ac_simps)
    ultimately show ?thesis by (auto simp: Suc)
  qed auto
qed simp

lemma counter_pat_packets:
  assumes "i < n"
  shows "ContinuityCounter (pat_packets c s n ! i) = (Inr ((c + word_of_nat i) AND 0x0f) :: ts_error fault + byte)"
proof -
  obtain c' where "pat_packets c s n ! i = section_packet 0 True c' s" "c' AND 0x0f = (c + word_of_nat i) AND 0x0f"
    using nth_pat_packets [OF assms] by blast
  then show ?thesis by (simp add: packet_accessors_ok section_packet_header counter_bits)
qed

lemma length_pat_packets [simp]: "length (pat_packets c s n) = n"
  by (induction n arbitrary: c) auto

lemma feed_pat_packets:
  assumes "complete_section s" "length s = 16" "s ! 0 = 0"
  shows "sa_pid sa = 0 \<Longrightarrow> map_sum id fst (feed_list sa (pat_packets c s n)) = Inr (replicate n s)"
proof (induction n arbitrary: sa c)
  case (Suc n)
  have "emits_last sa [section_packet 0 True c s] s"
    using emits_packetizeSection [of s 0 sa c] assms Suc.prems by (simp add: packetizeSection_short)
  then obtain sa' where f: "FeedAll sa (section_packet 0 True c s) = Inr ([s], sa')" by auto
  then have "sa_pid sa' = 0"
    using FeedAll_returns [OF length_section_packet, of sa 0 True c s] Suc.prems by (simp add: returns_def sections_ok_def)
  from Suc.IH [OF this, of "(c + 1) AND 0x0f"] f show ?case
    by (cases "feed_list sa' (pat_packets ((c + 1) AND 0x0f) s n)") auto
qed simp

text \<open>An order to visit a map in: by ascending key.\<close>

definition visit_sorted :: map_order where
  "visit_sorted m = map (\<lambda>k. (k, the (m k))) (sorted_list_of_set (dom m))"

lemma visits_all_sorted: "visits_all visit_sorted"
proof -
  have "map_of (map (\<lambda>k. (k, the (m k))) (sorted_list_of_set (dom m))) = m" for m :: "uint16 \<rightharpoonup> uint16"
  proof
    fix k
    show "map_of (map (\<lambda>k. (k, the (m k))) (sorted_list_of_set (dom m))) k = m k"
      by (cases "m k") (auto simp: map_of_map_restrict restrict_map_def map_of_eq_None_iff image_image domIff)
  qed
  then show ?thesis by (simp add: visits_all_def visit_sorted_def comp_def)
qed

definition demo_pat :: PAT where
  "demo_pat = \<lparr>PAT_TransportStreamID = 0x7fe1, PAT_VersionNumber = 3, PAT_NetworkPID = 0,
     PAT_Programs = [1024 \<mapsto> 0x1f0]\<rparr>"

definition demo_pat_section :: bytes where
  "demo_pat_section = projr (BuildPATSection 0x7fe1 1024 0x1f0 3)"

lemma demo_pat_section:
  "complete_section demo_pat_section" "single_section demo_pat_section"
  "ParsePAT demo_pat_section = Inr demo_pat"
proof -
  obtain s where s: "BuildPATSection 0x7fe1 1024 0x1f0 3 = Inr s" "complete_section s"
    "ParsePAT s = Inr \<lparr>PAT_TransportStreamID = 0x7fe1, PAT_VersionNumber = 3 AND 0x1f,
       PAT_NetworkPID = 0, PAT_Programs = [1024 \<mapsto> 0x1f0]\<rparr>"
    by (rule BuildPATSection_facts [of "0x1f0" 1024 "0x7fe1" 3]) simp_all
  have "s = long_section 0 0x7fe1 (3 AND 0x1f) True 0 0 [hi8 1024, lo8 1024, 0xe0 OR hi8 0x1f0, lo8 0x1f0]"
    using s(1) BuildPATSection_eq [of "0x1f0" "0x7fe1" 1024 3] by simp
  then show "complete_section demo_pat_section" "single_section demo_pat_section"
    "ParsePAT demo_pat_section = Inr demo_pat"
    using s long_section_facts(12) [of "[hi8 1024, lo8 1024, 0xe0 OR hi8 0x1f0, lo8 0x1f0]" "3 AND 0x1f" 0 "0x7fe1" True 0 0]
    by (simp_all add: demo_pat_section_def demo_pat_def single_section_def long_header_fields_def)
qed

lemma demo_pmt_section: "complete_section (encode_pmt demo_pmt)" "ParsePMT (encode_pmt demo_pmt) = Inr demo_pmt"
  "ProgramNumber demo_pmt = 1024"
  using demo_tables_wf(1) ParsePMT_encode [OF demo_tables_wf(1)] long_section_complete(1)
  by (simp_all add: encode_pmt_def wf_pmt_def demo_pmt_def)

lemma serve_service_pat:
  assumes "dx_pat d = Some pat" "PAT_Programs pat sid = Some pmtPID" "service_pat pat sid pmtPID s"
    "dx_programs d sid = Some program" "dx_patGeneration d \<noteq> 0"
    "\<forall>p \<in> set ps. usable_packet p = Inr True \<and> PID p = (Inr 0 :: ts_error fault + uint16)"
  shows "map_sum id fst (serve_all d (Service sid) ps) = Inr (map Some (pat_packets 0 s (length ps)))"
proof (cases ps)
  case (Cons p ps')
  let ?o = "new_output\<lparr>do_patPackets := [section_packet 0 True 0 s], do_patIndex := 0, do_generation := dx_patGeneration d\<rparr>"
  have "servicePacket d sid new_output p = servicePacket d sid ?o p"
    using assms(4-6) Cons
    by (intro servicePacket_generation [OF rebuildPATOutput_built [OF assms(1-3)]]) (simp_all add: new_output_def)
  then have "serve_all d (Service sid) ps = serve_all d \<lparr>sd_output = ?o, sd_serviceID = sid\<rparr> ps"
    by (simp add: Cons Service_def service_Packet_def)
  then show ?thesis using serve_all_pat [OF assms(4,6), of ?o s] by (simp add: new_output_def)
qed simp

lemma demo_tuned:
  obtains d where "demux_reachable d" "dx_pat d = Some demo_pat" "HasService d 1024" "dx_patGeneration d \<noteq> 0"
proof -
  have tid: "demo_pat_section ! 0 \<noteq> 0xff"
    using parsed_tables(1) [OF demo_pat_section(3)] complete_sectionD [OF demo_pat_section(1)]
    by (simp add: TableID_def)
  obtain asm where asm: "feed_all visit_sorted NewDemuxer (fst (packetizeSection 0 demo_pat_section 0)) =
      observe_sections visit_sorted 0 [demo_pat_section] (NewDemuxer\<lparr>dx_assemblers := asm\<rparr>)"
      "demux_inv (NewDemuxer\<lparr>dx_assemblers := asm\<rparr>)"
    by (rule feed_all_packetizeSection [OF demo_pat_section(1) tid, of 0 NewDemuxer visit_sorted 0])
      (simp_all add: shouldAssemble_def demux_inv_new)
  obtain d where d: "feed_all visit_sorted NewDemuxer (fst (packetizeSection 0 demo_pat_section 0)) = Inr d"
    "dx_pat d = Some demo_pat" "\<forall>sid. map_option dp_pmtPID (dx_programs d sid) = PAT_Programs demo_pat sid"
    "dx_patGeneration d = 1"
    using observe_first_PAT [OF visits_all_sorted asm(2) demo_pat_section(3,2)] unfolding asm(1) returns_def
    by (auto simp: NewDemuxer_fields simp del: observe_sections.simps)
  have "HasService d 1024" using spec [OF d(3), of 1024] by (auto simp: HasService_def demo_pat_def)
  then show thesis
    using that [of d] feed_all_reachable [OF reach_new visits_all_sorted d(1)] d(2,4) by simp
qed

subsection \<open>Properties\<close>

text \<open>
  C2. The demultiplexer never fails: from a new one, after any sequence of packets fed and packets
  served (packets of any bytes and length, and whatever order Go visits the PAT's map in), its
  state satisfies the invariant, the programs are those of the PAT in force, and the next feed and
  the next service packet return without a panic; every section handed out is complete with a
  correct CRC, and every packet handed out is a 188-byte packet.
\<close>

theorem demux_never_fails:
  assumes "demux_reachable d" "visits_all order"
  shows "demux_inv d \<and> follows_pat d \<and>
    returns (FeedWithPID order d p) (\<lambda>(out, d'). demux_reachable d' \<and> (\<forall>(pid, s) \<in> set out. complete_section s)) \<and>
    returns (ServicePacket d sid p) (\<lambda>(r, d'). demux_reachable d' \<and> (\<forall>q. r = Some q \<longrightarrow> length q = 188))"
proof -
  have inv: "demux_inv d" "follows_pat d" using demux_reachable_inv [OF assms(1)] by simp_all
  show ?thesis
    using inv FeedWithPID_returns [OF inv(1) assms(2), of p] ServicePacket_returns [OF inv(1), of sid p]
      reach_feed [OF assms, of p] reach_serve [OF assms(1), of sid p]
    by (fastforce simp: returns_def)
qed

theorem demux_never_fails_witness:
  "returns (FeedWithPID visit_sorted NewDemuxer [0x47]) (\<lambda>(out, d'). demux_reachable d' \<and> (\<forall>(pid, s) \<in> set out. complete_section s))"
  using demux_never_fails [OF reach_new visits_all_sorted] by blast



text \<open>
  C26. Every service gets a PAT of its own: an output view that has not seen the PAT in force turns
  each PAT packet of the stream into one packet of a PAT that names only its service; the packets
  it emits carry consecutive continuity counters and reassemble to that PAT section, once per
  packet.
\<close>

theorem service_pat_stream:
  assumes "demux_reachable d" "dx_pat d = Some pat" "HasService d sid" "dx_patGeneration d \<noteq> 0"
    "\<forall>p \<in> set ps. usable_packet p = Inr True \<and> PID p = (Inr 0 :: ts_error fault + uint16)"
  shows "\<exists>qs s pmtPID. map_sum id fst (serve_all d (Service sid) ps) = Inr (map Some qs) \<and> length qs = length ps \<and>
    PAT_Programs pat sid = Some pmtPID \<and>
    map_sum id fst (feed_list (NewSectionAssembler 0) qs) = Inr (replicate (length ps) s) \<and>
    ParsePAT s = Inr \<lparr>PAT_TransportStreamID = PAT_TransportStreamID pat,
       PAT_VersionNumber = PAT_VersionNumber pat AND 0x1f, PAT_NetworkPID = 0, PAT_Programs = [sid \<mapsto> pmtPID]\<rparr> \<and>
    (\<forall>i < length qs. ContinuityCounter (qs ! i) = (Inr (word_of_nat i AND 0x0f) :: ts_error fault + byte))"
proof -
  have inv: "demux_inv d" "follows_pat d" using demux_reachable_inv [OF assms(1)] by simp_all
  obtain program where prog: "dx_programs d sid = Some program" using assms(3) by (auto simp: HasService_def)
  then have pmt: "PAT_Programs pat sid = Some (dp_pmtPID program)"
    using inv(2) assms(2) by (metis follows_pat_def option.map(2))
  obtain s where s: "service_pat pat sid (dp_pmtPID program) s"
    using service_pat_ex inv(1) assms(2) pmt by (metis demux_inv_def)
  let ?qs = "pat_packets 0 s (length ps)"
  have "map_sum id fst (serve_all d (Service sid) ps) = Inr (map Some ?qs)"
    using serve_service_pat [OF assms(2) pmt s prog assms(4,5)] .
  moreover have "map_sum id fst (feed_list (NewSectionAssembler 0) ?qs) = Inr (replicate (length ps) s)"
    using s by (intro feed_pat_packets) (simp_all add: service_pat_def NewSectionAssembler_def)
  moreover have "\<forall>i < length ?qs. ContinuityCounter (?qs ! i) = (Inr (word_of_nat i AND 0x0f) :: ts_error fault + byte)"
    using counter_pat_packets [of _ "length ps" 0 s] by simp
  ultimately show ?thesis using s pmt unfolding service_pat_def by (metis length_pat_packets)
qed

theorem service_pat_stream_witness:
  "\<exists>d qs s. demux_reachable d \<and> dx_pat d = Some demo_pat \<and>
    map_sum id fst (serve_all d (Service 1024) [section_packet 0 True 9 demo_pat_section]) = Inr (map Some qs) \<and>
    map_sum id fst (feed_list (NewSectionAssembler 0) qs) = Inr [s] \<and>
    map_sum id PAT_Programs (ParsePAT s) = Inr [1024 \<mapsto> 0x1f0]"
proof -
  obtain d where d: "demux_reachable d" "dx_pat d = Some demo_pat" "HasService d 1024" "dx_patGeneration d \<noteq> 0"
    by (rule demo_tuned)
  have "\<forall>p \<in> set [section_packet 0 True 9 demo_pat_section]. usable_packet p = Inr True \<and>
      PID p = (Inr 0 :: ts_error fault + uint16)"
    by (simp add: usable_section_packet)
  from service_pat_stream [OF d this] d show ?thesis by (fastforce simp: demo_pat_def)
qed

text \<open>The comparison of two PATs reads an absent service as PMT PID 0.\<close>

lemma samePAT_missing_service:
  "samePAT (Some (demo_pat\<lparr>PAT_Programs := [7 \<mapsto> 0]\<rparr>)) (demo_pat\<lparr>PAT_Programs := [8 \<mapsto> 0x1f0]\<rparr>)"
  by (simp add: samePAT_def demo_pat_def)

text \<open>Of two services with their PMTs on one PID, the one visited last is the only one observed.\<close>

lemma shared_pmt_PID:
  "map_sum id snd (pat_programs_loop [(7, 0x1f0), (8, 0x1f0)] True d Map.empty) = Inr [0x1f0 \<mapsto> 8]"
  "map_sum id snd (pat_programs_loop [(8, 0x1f0), (7, 0x1f0)] True d Map.empty) = Inr [0x1f0 \<mapsto> 7]"
  by (simp_all add: Let_def)

end
