(* ===== verification/PacketQueue.thy ===== *)
theory PacketQueue
  imports Prelude "HOL-Library.Sublist"
begin

section \<open>The packet queue of a subscriber\<close>

text \<open>
  The ring buffer of \<open>internal/stream/fanout/subscription.go\<close> that holds a subscriber's pending
  packets within a byte budget. \<open>pq_ready\<close> is the token of the one-element channel \<open>ready\<close>. Fields
  that Go keeps as \<open>int\<close> and never takes below zero (\<open>head\<close>, \<open>count\<close>) are \<open>nat\<close>; a nil slice in
  the ring is the empty list. \<open>take\<close> is given as one pass of its loop, under the lock: it hands out
  packets, or reports that the queue is drained, or that the caller has to wait for the token.

  The locale \<open>packet_buffer\<close> is what the rest of the engine relies on: a first-in first-out list
  within a byte budget that drops its oldest packets. The ring buffer is shown to be one.
\<close>

record packetQueue =
  pq_ring :: "bytes list"
  pq_head :: nat
  pq_count :: nat
  pq_bytes :: int
  pq_closed :: bool
  pq_ready :: bool

definition newPacketQueue :: packetQueue where
  "newPacketQueue = \<lparr>pq_ring = replicate 64 [], pq_head = 0, pq_count = 0, pq_bytes = 0,
     pq_closed = False, pq_ready = False\<rparr>"

definition popLocked :: "packetQueue \<Rightarrow> unit fault + (bytes \<times> packetQueue)" where
  "popLocked q =
     rbind (idx (pq_ring q) (int (pq_head q))) (\<lambda>packet.
       Inr (packet, q\<lparr>pq_ring := (pq_ring q)[pq_head q := []],
                      pq_head := (pq_head q + 1) mod length (pq_ring q),
                      pq_count := pq_count q - 1,
                      pq_bytes := pq_bytes q - glen packet\<rparr>))"

lemma popLocked_count: "popLocked q = Inr (p, q') \<Longrightarrow> pq_count q' = pq_count q - 1"
  by (auto simp: popLocked_def rbind_eq_Inr_iff)

function push_drop :: "int \<Rightarrow> int \<Rightarrow> packetQueue \<Rightarrow> int \<Rightarrow> unit fault + (int \<times> packetQueue)" where
  "push_drop n limit q dropped =
     (if pq_count q > 0 \<and> pq_bytes q + n > limit
      then rbind (popLocked q) (\<lambda>(packet, q). push_drop n limit q (dropped + glen packet))
      else Inr (dropped, q))"
  by auto
termination
  by (relation "measure (\<lambda>(n, limit, q, dropped). pq_count q)") (auto simp: popLocked_count)

definition grow :: "packetQueue \<Rightarrow> unit fault + packetQueue" where
  "grow q =
     (if pq_count q = length (pq_ring q)
      then rbind (gslice (pq_ring q) (int (pq_head q)) (glen (pq_ring q))) (\<lambda>tail.
             Inr (q\<lparr>pq_ring := tail @ take (pq_head q) (pq_ring q) @ replicate (length (pq_ring q)) [],
                    pq_head := 0\<rparr>))
      else Inr q)"

definition signal_ready :: "packetQueue \<Rightarrow> packetQueue" where
  "signal_ready q = q\<lparr>pq_ready := True\<rparr>"

definition store :: "packetQueue \<Rightarrow> bytes \<Rightarrow> unit fault + packetQueue" where
  "store q packet =
     (if length (pq_ring q) = 0 then Inl Panic
      else Inr (q\<lparr>pq_ring := (pq_ring q)[(pq_head q + pq_count q) mod length (pq_ring q) := packet],
                  pq_count := pq_count q + 1,
                  pq_bytes := pq_bytes q + glen packet\<rparr>))"

text \<open>\<open>push\<close> up to its unlock, and whether it goes on to signal the reader.\<close>

definition push_locked :: "int \<Rightarrow> packetQueue \<Rightarrow> bytes \<Rightarrow> unit fault + ((int \<times> bool) \<times> packetQueue)" where
  "push_locked limit q packet =
     rbind (push_drop (glen packet) limit q 0) (\<lambda>(dropped, q).
       if pq_bytes q + glen packet > limit then Inr ((dropped + glen packet, False), q)
       else rbind (grow q) (\<lambda>q. rbind (store q packet) (\<lambda>q. Inr ((dropped, True), q))))"

definition push :: "int \<Rightarrow> packetQueue \<Rightarrow> bytes \<Rightarrow> unit fault + (int \<times> packetQueue)" where
  "push limit q packet =
     rbind (push_locked limit q packet) (\<lambda>((dropped, sends), q).
       Inr (dropped, if sends then signal_ready q else q))"

definition queue_close :: "packetQueue \<Rightarrow> packetQueue" where
  "queue_close q = signal_ready (q\<lparr>pq_closed := True\<rparr>)"

function take_loop :: "int \<Rightarrow> packetQueue \<Rightarrow> int \<Rightarrow> bytes list \<Rightarrow> unit fault + (bytes list \<times> packetQueue)" where
  "take_loop mx q sz dst =
     (if pq_count q > 0 then
        rbind (if sz = 0 then Inr True
               else rbind (idx (pq_ring q) (int (pq_head q))) (\<lambda>first. Inr (sz + glen first \<le> mx))) (\<lambda>more.
          if more
          then rbind (popLocked q) (\<lambda>(packet, q). take_loop mx q (sz + glen packet) (dst @ [packet]))
          else Inr (dst, q))
      else Inr (dst, q))"
  by auto
termination
  by (relation "measure (\<lambda>(mx, q, sz, dst). pq_count q)") (auto simp: popLocked_count)

declare push_drop.simps [simp del] take_loop.simps [simp del]

datatype take_result = Taken "bytes list" | Drained "bytes list" | Waiting

definition take_pass :: "int \<Rightarrow> packetQueue \<Rightarrow> bytes list \<Rightarrow> unit fault + (take_result \<times> packetQueue)" where
  "take_pass mx q dst =
     (if pq_count q > 0
      then rbind (take_loop mx q 0 dst) (\<lambda>(dst, q). Inr (Taken dst, q))
      else if pq_closed q then Inr (Drained dst, q)
      else Inr (Waiting, q))"

definition packetWriteBatchBytes :: int where
  "packetWriteBatchBytes = 64 * 188"

subsection \<open>What the queue is for: a budgeted first-in first-out list\<close>

definition total :: "bytes list \<Rightarrow> int" where
  "total ps = (\<Sum>p \<leftarrow> ps. glen p)"

lemma total_simps [simp]:
  "total [] = 0" "total (p # ps) = glen p + total ps" "total (ps @ qs) = total ps + total qs"
  by (simp_all add: total_def)

lemma total_nonneg: "0 \<le> total ps"
  by (induction ps) simp_all

fun drop_oldest :: "int \<Rightarrow> int \<Rightarrow> bytes list \<Rightarrow> bytes list" where
  "drop_oldest n limit [] = []"
| "drop_oldest n limit (p # ps) =
     (if total (p # ps) + n > limit then drop_oldest n limit ps else p # ps)"

definition push_spec :: "int \<Rightarrow> bytes list \<Rightarrow> bytes \<Rightarrow> bytes list" where
  "push_spec limit ps p = (if glen p > limit then [] else drop_oldest (glen p) limit ps @ [p])"

fun batch :: "int \<Rightarrow> int \<Rightarrow> bytes list \<Rightarrow> nat" where
  "batch mx sz [] = 0"
| "batch mx sz (p # ps) =
     (if sz = 0 \<or> sz + glen p \<le> mx then Suc (batch mx (sz + glen p) ps) else 0)"

lemma drop_oldest_suffix: "suffix (drop_oldest n limit ps) ps"
  by (induction ps) (auto simp: suffix_Cons)

lemma drop_oldest_fits: "drop_oldest n limit ps \<noteq> [] \<Longrightarrow> total (drop_oldest n limit ps) + n \<le> limit"
  by (induction ps) auto

lemma drop_oldest_all: "total ps + n \<le> limit \<Longrightarrow> drop_oldest n limit ps = ps"
  by (cases ps) auto

lemma drop_oldest_none: "n > limit \<Longrightarrow> drop_oldest n limit ps = []"
proof (induction ps)
  case (Cons p ps)
  moreover have "0 \<le> total ps" by (rule total_nonneg)
  ultimately show ?case by simp
qed simp

lemma push_spec_total: "0 \<le> limit \<Longrightarrow> total (push_spec limit ps p) \<le> limit"
  using drop_oldest_fits [of "glen p" limit ps] by (cases "drop_oldest (glen p) limit ps = []") (auto simp: push_spec_def)

lemma push_spec_subseq: "subseq (push_spec limit ps p) (ps @ [p])"
proof (cases "glen p > limit")
  case False
  have "subseq (drop_oldest (glen p) limit ps) ps"
    using drop_oldest_suffix by (rule suffix_imp_subseq)
  then show ?thesis using False by (simp add: push_spec_def list_emb_append_mono)
qed (simp add: push_spec_def)

lemma push_spec_fits: "total ps + glen p \<le> limit \<Longrightarrow> push_spec limit ps p = ps @ [p]"
  using total_nonneg [of ps] by (simp add: push_spec_def drop_oldest_all)

lemma push_spec_loses: "total (push_spec limit ps p) \<le> total ps + glen p"
proof -
  obtain ds where "ps = ds @ drop_oldest (glen p) limit ps" using drop_oldest_suffix by (metis suffixE)
  then have "total ps = total ds + total (drop_oldest (glen p) limit ps)" by (metis total_simps(3))
  then show ?thesis using total_nonneg [of ds] total_nonneg [of ps] by (simp add: push_spec_def)
qed

lemma push_spec_lossless:
  assumes "total (push_spec limit ps p) = total ps + glen p" "0 \<le> limit"
  shows "push_spec limit ps p = ps @ [p]"
proof (rule push_spec_fits, rule ccontr)
  assume over: "\<not> total ps + glen p \<le> limit"
  show False
    using push_spec_total [OF assms(2), of ps p] over assms(1) by simp
qed

subsection \<open>The ring holds such a list\<close>

definition queued :: "packetQueue \<Rightarrow> bytes list" where
  "queued q = take (pq_count q) (rotate (pq_head q) (pq_ring q))"

definition queue_ok :: "packetQueue \<Rightarrow> bool" where
  "queue_ok q \<longleftrightarrow> pq_head q < length (pq_ring q) \<and> pq_count q \<le> length (pq_ring q) \<and>
     pq_bytes q = total (queued q)"

lemma length_queued: "queue_ok q \<Longrightarrow> length (queued q) = pq_count q"
  by (simp add: queued_def queue_ok_def)

lemma nth_queued:
  "queue_ok q \<Longrightarrow> i < pq_count q \<Longrightarrow> queued q ! i = pq_ring q ! ((pq_head q + i) mod length (pq_ring q))"
  by (simp add: queued_def queue_ok_def nth_rotate)

lemma new_queue_ok: "queue_ok newPacketQueue" "queued newPacketQueue = []"
  by (simp_all add: queue_ok_def newPacketQueue_def queued_def)

lemma ring_index_neq:
  assumes "h < n" "0 < i" "i < n"
  shows "(h + i) mod n \<noteq> (h :: nat)"
proof (cases "h + i < n")
  case False
  then have "(h + i) mod n = h + i - n" using assms by (simp add: mod_if)
  then show ?thesis using assms False by simp
qed (use assms in simp)

lemma ring_index_inj:
  assumes "j < n" "i < j"
  shows "(h + i) mod n \<noteq> (h + j) mod (n :: nat)"
proof -
  have "h + j = h + i + (j - i)" using assms by simp
  then have "(h + j) mod n = ((h + i) mod n + (j - i)) mod n" by (simp only: mod_add_left_eq)
  moreover have "((h + i) mod n + (j - i)) mod n \<noteq> (h + i) mod n"
    by (rule ring_index_neq) (use assms in auto)
  ultimately show ?thesis by simp
qed

lemma popLocked_queued:
  assumes "queue_ok q" "queued q = p # ps"
  obtains q' where "popLocked q = Inr (p, q')" "queue_ok q'" "queued q' = ps"
    "pq_closed q' = pq_closed q" "pq_ready q' = pq_ready q"
proof -
  let ?n = "length (pq_ring q)"
  have ok: "pq_head q < ?n" "pq_count q \<le> ?n" "pq_bytes q = total (queued q)" using assms(1) by (simp_all add: queue_ok_def)
  have cnt: "pq_count q = Suc (length ps)" using length_queued [OF assms(1)] assms(2) by simp
  have p: "pq_ring q ! pq_head q = p" using nth_queued [OF assms(1), of 0] cnt ok assms(2) by simp
  let ?q = "q\<lparr>pq_ring := (pq_ring q)[pq_head q := []], pq_head := (pq_head q + 1) mod ?n,
      pq_count := pq_count q - 1, pq_bytes := pq_bytes q - glen p\<rparr>"
  have pop: "popLocked q = Inr (p, ?q)" using ok p by (simp add: popLocked_def)
  have qd: "queued ?q = ps"
  proof (rule nth_equalityI)
    show "length (queued ?q) = length ps" using ok cnt by (simp add: queued_def)
    fix i assume "i < length (queued ?q)"
    then have i: "i < length ps" using ok cnt by (simp add: queued_def)
    then have "queued ?q ! i = (pq_ring q)[pq_head q := []] ! (((pq_head q + 1) mod ?n + i) mod ?n)"
      using ok cnt by (simp add: queued_def nth_rotate)
    also have "((pq_head q + 1) mod ?n + i) mod ?n = (pq_head q + Suc i) mod ?n"
      by (simp add: mod_simps)
    also have "(pq_ring q)[pq_head q := []] ! ((pq_head q + Suc i) mod ?n) = queued q ! Suc i"
      using i ok cnt ring_index_neq [of "pq_head q" ?n "Suc i"] nth_queued [OF assms(1), of "Suc i"] by simp
    finally show "queued ?q ! i = ps ! i" using assms(2) by simp
  qed
  have "(pq_head q + 1) mod ?n < ?n" using ok(1) by (intro mod_less_divisor) linarith
  then have "queue_ok ?q" using ok cnt qd assms(2) by (simp add: queue_ok_def)
  then show thesis using that [OF pop] qd by simp
qed

lemma push_drop_queued:
  "queue_ok q \<Longrightarrow> returns (push_drop n limit q d) (\<lambda>(d', q'). queue_ok q' \<and>
     queued q' = drop_oldest n limit (queued q) \<and> d' = d + total (queued q) - total (queued q') \<and>
     pq_closed q' = pq_closed q \<and> pq_ready q' = pq_ready q)"
proof (induction "queued q" arbitrary: q d)
  case Nil
  then have "pq_count q = 0" using length_queued [of q] by simp
  then show ?case using Nil by (subst push_drop.simps) (simp add: Nil.hyps [symmetric])
next
  case (Cons p ps)
  note eq = Cons.hyps(2) [symmetric]
  have "pq_count q > 0" "pq_bytes q = total (queued q)"
    using length_queued [OF Cons.prems] Cons.prems by (simp_all add: eq queue_ok_def)
  note step = push_drop.simps [of n limit q d] this
  show ?case
  proof (cases "total (queued q) + n > limit")
    case True
    obtain q' where q': "popLocked q = Inr (p, q')" "queue_ok q'" "queued q' = ps"
      "pq_closed q' = pq_closed q" "pq_ready q' = pq_ready q"
      by (rule popLocked_queued [OF Cons.prems eq])
    from Cons.hyps(1) [OF q'(3) [symmetric] q'(2), of "d + glen p"] show ?thesis
      using step True q' by (auto simp: eq returns_def)
  next
    case False
    then show ?thesis using step Cons.prems by (simp add: eq)
  qed
qed

lemma grow_queued:
  assumes "queue_ok q"
  obtains q' where "grow q = Inr q'" "queue_ok q'" "queued q' = queued q" "pq_count q' < length (pq_ring q')"
    "pq_closed q' = pq_closed q" "pq_ready q' = pq_ready q"
proof (cases "pq_count q = length (pq_ring q)")
  case True
  let ?q = "q\<lparr>pq_ring := drop (pq_head q) (pq_ring q) @ take (pq_head q) (pq_ring q) @ replicate (length (pq_ring q)) [],
      pq_head := 0\<rparr>"
  have h: "pq_head q < length (pq_ring q)" using assms by (simp add: queue_ok_def)
  then have r: "rotate (pq_head q) (pq_ring q) = drop (pq_head q) (pq_ring q) @ take (pq_head q) (pq_ring q)"
    by (simp add: rotate_drop_take)
  have "queued ?q = queued q" using True h by (simp add: queued_def r)
  moreover have "pq_ring q \<noteq> []" using h by auto
  ultimately show thesis using that [of ?q] True h assms by (simp add: grow_def queue_ok_def)
next
  case False
  then show thesis using that [of q] assms by (simp add: grow_def queue_ok_def)
qed

lemma store_queued:
  assumes "queue_ok q" "pq_count q < length (pq_ring q)"
  obtains q' where "store q p = Inr q'" "queue_ok q'" "queued q' = queued q @ [p]"
    "pq_closed q' = pq_closed q" "pq_ready q' = pq_ready q"
proof -
  let ?n = "length (pq_ring q)" and ?i = "(pq_head q + pq_count q) mod length (pq_ring q)"
  let ?q = "q\<lparr>pq_ring := (pq_ring q)[?i := p], pq_count := pq_count q + 1, pq_bytes := pq_bytes q + glen p\<rparr>"
  have ok: "pq_head q < ?n" "?i < ?n" using assms by (auto simp: queue_ok_def intro: mod_less_divisor)
  have qd: "queued ?q = queued q @ [p]"
  proof (rule nth_equalityI)
    show len: "length (queued ?q) = length (queued q @ [p])" using assms by (simp add: queued_def)
    fix i assume "i < length (queued ?q)"
    then have i: "i \<le> pq_count q" using assms by (simp add: queued_def)
    have nth: "queued ?q ! i = (pq_ring q)[?i := p] ! ((pq_head q + i) mod ?n)"
      using i assms(2) by (simp add: queued_def nth_rotate)
    show "queued ?q ! i = (queued q @ [p]) ! i"
    proof (cases "i = pq_count q")
      case True
      then show ?thesis using nth ok length_queued [OF assms(1)] by (simp add: nth_append)
    next
      case False
      have "(pq_head q + i) mod ?n \<noteq> ?i"
        using ring_index_inj [of "pq_count q" ?n i "pq_head q"] i False assms(2) by simp
      then show ?thesis using nth ok i False length_queued [OF assms(1)] nth_queued [OF assms(1), of i]
        by (simp add: nth_append)
    qed
  qed
  moreover have "store q p = Inr ?q" using assms(2) by (auto simp: store_def)
  ultimately show thesis using that [of ?q] assms by (simp add: queue_ok_def)
qed

lemma push_locked_queued:
  assumes "queue_ok q"
  shows "returns (push_locked limit q p) (\<lambda>((d, sends), q'). queue_ok q' \<and>
    queued q' = push_spec limit (queued q) p \<and> d = total (queued q) + glen p - total (queued q') \<and>
    sends = (glen p \<le> limit) \<and> pq_closed q' = pq_closed q \<and> pq_ready q' = pq_ready q)"
proof -
  obtain d q1 where q1: "push_drop (glen p) limit q 0 = Inr (d, q1)" "queue_ok q1"
    "queued q1 = drop_oldest (glen p) limit (queued q)" "d = total (queued q) - total (queued q1)"
    "pq_closed q1 = pq_closed q" "pq_ready q1 = pq_ready q"
    using push_drop_queued [OF assms, of "glen p" limit 0] by (auto simp: returns_def)
  have b: "pq_bytes q1 = total (queued q1)" using q1(2) by (simp add: queue_ok_def)
  show ?thesis
  proof (cases "glen p > limit")
    case True
    then have "queued q1 = []" using q1(3) by (simp add: drop_oldest_none)
    then show ?thesis using True q1 b by (simp add: push_locked_def push_spec_def)
  next
    case False
    have fits: "total (queued q1) + glen p \<le> limit"
      using drop_oldest_fits [of "glen p" limit "queued q"] False q1(3) by (cases "queued q1 = []") auto
    obtain q2 where q2: "grow q1 = Inr q2" "queue_ok q2" "queued q2 = queued q1" "pq_count q2 < length (pq_ring q2)"
      "pq_closed q2 = pq_closed q1" "pq_ready q2 = pq_ready q1" by (rule grow_queued [OF q1(2)])
    obtain q3 where q3: "store q2 p = Inr q3" "queue_ok q3" "queued q3 = queued q2 @ [p]"
      "pq_closed q3 = pq_closed q2" "pq_ready q3 = pq_ready q2" by (rule store_queued [OF q2(2,4)])
    show ?thesis using False fits q1 q2 q3 b by (simp add: push_locked_def push_spec_def)
  qed
qed

lemma queued_signal [simp]: "queued (signal_ready q) = queued q" "queue_ok (signal_ready q) = queue_ok q"
  by (simp_all add: signal_ready_def queued_def queue_ok_def)

lemma take_loop_queued:
  "queue_ok q \<Longrightarrow> returns (take_loop mx q sz dst) (\<lambda>(dst', q'). queue_ok q' \<and>
     dst' = dst @ take (batch mx sz (queued q)) (queued q) \<and> queued q' = drop (batch mx sz (queued q)) (queued q) \<and>
     pq_closed q' = pq_closed q \<and> pq_ready q' = pq_ready q)"
proof (induction "queued q" arbitrary: q sz dst)
  case Nil
  then have "pq_count q = 0" using length_queued [of q] by simp
  then show ?case using Nil by (subst take_loop.simps) (simp add: Nil.hyps [symmetric])
next
  case (Cons p ps)
  note eq = Cons.hyps(2) [symmetric]
  have cnt: "pq_count q > 0" using length_queued [OF Cons.prems] by (simp add: eq)
  have h: "pq_head q < length (pq_ring q)" using Cons.prems by (simp add: queue_ok_def)
  have first: "idx (pq_ring q) (int (pq_head q)) = (Inr p :: unit fault + bytes)"
    using nth_queued [OF Cons.prems cnt] h by (simp add: eq)
  note step = take_loop.simps [of mx q sz dst] cnt first
  show ?case
  proof (cases "sz = 0 \<or> sz + glen p \<le> mx")
    case True
    obtain q' where q': "popLocked q = Inr (p, q')" "queue_ok q'" "queued q' = ps"
      "pq_closed q' = pq_closed q" "pq_ready q' = pq_ready q"
      by (rule popLocked_queued [OF Cons.prems eq])
    have "take_loop mx q sz dst = take_loop mx q' (sz + glen p) (dst @ [p])"
      using step True q'(1) by auto
    then show ?thesis using Cons.hyps(1) [OF q'(3) [symmetric] q'(2), of "sz + glen p" "dst @ [p]"] True q'
      by (auto simp: eq returns_def)
  next
    case False
    then show ?thesis using step Cons.prems by (simp add: eq)
  qed
qed

subsection \<open>The interface\<close>

text \<open>
  Producer (\<open>Some p\<close>: a packet comes) and consumer (\<open>None\<close>: a batch is taken) in any order, with
  what was taken so far and the bytes reported as dropped.
\<close>

definition taken :: "bytes list \<Rightarrow> take_result \<Rightarrow> bytes list" where
  "taken out r = (case r of Taken ps \<Rightarrow> out @ ps | _ \<Rightarrow> out)"

fun run_ops :: "(int \<Rightarrow> 'q \<Rightarrow> bytes \<Rightarrow> unit fault + (int \<times> 'q)) \<Rightarrow>
    (int \<Rightarrow> 'q \<Rightarrow> bytes list \<Rightarrow> unit fault + (take_result \<times> 'q)) \<Rightarrow>
    int \<Rightarrow> int \<Rightarrow> bytes option list \<Rightarrow> 'q \<Rightarrow> bytes list \<Rightarrow> int \<Rightarrow> unit fault + (bytes list \<times> int \<times> 'q)" where
  "run_ops put get limit mx [] q out lost = Inr (out, lost, q)"
| "run_ops put get limit mx (Some p # ops) q out lost =
     rbind (put limit q p) (\<lambda>(d, q). run_ops put get limit mx ops q out (lost + d))"
| "run_ops put get limit mx (None # ops) q out lost =
     rbind (get mx q []) (\<lambda>(r, q). run_ops put get limit mx ops q (taken out r) lost)"

text \<open>
  The packets that came out (\<open>out\<close>) and are still queued (\<open>rest\<close>) are those that went in, in order,
  less the oldest; every byte missing is reported, and none is missing when none is reported.
\<close>

definition faithful :: "int \<Rightarrow> bytes list \<Rightarrow> int \<Rightarrow> bytes list \<Rightarrow> int \<Rightarrow> bytes list \<Rightarrow> bool" where
  "faithful limit seen lost out lost' rest \<longleftrightarrow>
     total rest \<le> limit \<and> subseq (out @ rest) seen \<and> lost' + total (out @ rest) = lost + total seen \<and>
     lost \<le> lost' \<and> (lost' = lost \<longrightarrow> out @ rest = seen)"

lemma total_suffix: "suffix xs ys \<Longrightarrow> total xs \<le> total ys"
  using total_nonneg by (auto simp: suffix_def)

lemma faithful_push:
  assumes "0 \<le> limit" "d = total ps + glen p - total (push_spec limit ps p)"
    "faithful limit (out @ push_spec limit ps p @ after) (lost + d) out' lost' rest"
  shows "faithful limit (out @ (ps @ [p]) @ after) lost out' lost' rest"
proof -
  have sub: "subseq (out @ push_spec limit ps p @ after) (out @ (ps @ [p]) @ after)"
    by (intro list_emb_append_mono push_spec_subseq) simp_all
  have d0: "0 \<le> d"
    using assms(2) push_spec_loses [of limit ps p] by simp
  have "out @ (ps @ [p]) @ after = out' @ rest" if "lost' = lost"
  proof -
    have "d = 0" using that assms(3) d0 by (simp add: faithful_def)
    then have "push_spec limit ps p = ps @ [p]" using assms(1,2) by (intro push_spec_lossless) simp_all
    then show ?thesis using assms(3) that \<open>d = 0\<close> by (simp add: faithful_def)
  qed
  then show ?thesis
    using assms(2,3) d0 subseq_order.trans [OF _ sub] by (auto simp: faithful_def)
qed

locale packet_buffer =
  fixes contents :: "'q \<Rightarrow> bytes list"
    and closed :: "'q \<Rightarrow> bool"
    and ok :: "'q \<Rightarrow> bool"
    and new :: 'q
    and put :: "int \<Rightarrow> 'q \<Rightarrow> bytes \<Rightarrow> unit fault + (int \<times> 'q)"
    and get :: "int \<Rightarrow> 'q \<Rightarrow> bytes list \<Rightarrow> unit fault + (take_result \<times> 'q)"
    and shut :: "'q \<Rightarrow> 'q"
  assumes new: "ok new" "contents new = []" "\<not> closed new"
    and put: "ok q \<Longrightarrow> returns (put limit q p) (\<lambda>(d, q'). ok q' \<and> contents q' = push_spec limit (contents q) p \<and>
        d = total (contents q) + glen p - total (contents q') \<and> closed q' = closed q)"
    and get: "ok q \<Longrightarrow> returns (get mx q dst) (\<lambda>(r, q'). ok q' \<and> closed q' = closed q \<and>
        (if contents q \<noteq> []
         then r = Taken (dst @ take (batch mx 0 (contents q)) (contents q)) \<and>
              contents q' = drop (batch mx 0 (contents q)) (contents q)
         else r = (if closed q then Drained dst else Waiting) \<and> contents q' = []))"
    and shut: "ok q \<Longrightarrow> ok (shut q) \<and> contents (shut q) = contents q \<and> closed (shut q)"
begin

lemma put_obtain:
  assumes "ok q"
  obtains d q' where "put limit q p = Inr (d, q')" "ok q'" "contents q' = push_spec limit (contents q) p"
    "d = total (contents q) + glen p - total (contents q')" "closed q' = closed q"
  using put [OF assms, of limit p] by (auto simp: returns_def)

lemma run_faithful:
  assumes "0 \<le> limit"
  shows "ok q \<Longrightarrow> total (contents q) \<le> limit \<Longrightarrow>
    returns (run_ops put get limit mx ops q out lost) (\<lambda>(out', lost', q'). ok q' \<and>
      faithful limit (out @ contents q @ List.map_filter (\<lambda>x. x) ops) lost out' lost' (contents q'))"
proof (induction ops arbitrary: q out lost)
  case Nil
  then show ?case by (simp add: faithful_def)
next
  case (Cons op ops)
  show ?case
  proof (cases op)
    case None
    obtain r q1 where g: "get mx q [] = Inr (r, q1)" "ok q1" "suffix (contents q1) (contents q)"
      "taken out r @ contents q1 = out @ contents q"
      using get [OF Cons.prems(1), of mx "[]"]
      by (auto simp: returns_def taken_def suffix_drop split: if_split_asm)
    have "total (contents q1) \<le> limit" using total_suffix [OF g(3)] Cons.prems(2) by simp
    note ih = Cons.IH [OF g(2) this, of "taken out r" lost]
    have "taken out r @ contents q1 @ xs = out @ contents q @ xs" for xs using g(4) by (metis append_assoc)
    from ih [unfolded this] show ?thesis using g(1) by (simp add: None)
  next
    case (Some p)
    obtain d q1 where w: "put limit q p = Inr (d, q1)" "ok q1" "contents q1 = push_spec limit (contents q) p"
      "d = total (contents q) + glen p - total (contents q1)" by (rule put_obtain [OF Cons.prems(1)])
    have "total (contents q1) \<le> limit" using push_spec_total [OF assms] w(3) by simp
    from Cons.IH [OF w(2) this, of out "lost + d"]
    have "returns (run_ops put get limit mx ops q1 out (lost + d)) (\<lambda>(out', lost', q'). ok q' \<and>
      faithful limit (out @ (contents q @ [p]) @ List.map_filter (\<lambda>x. x) ops) lost out' lost' (contents q'))"
      by (rule returns_mono) (auto simp: w(3) dest: faithful_push [OF assms w(4) [unfolded w(3)]])
    then show ?thesis using w(1) by (simp add: Some)
  qed
qed

end

subsection \<open>The ring buffer provides it\<close>

lemma push_queued:
  assumes "queue_ok q"
  shows "returns (push limit q p) (\<lambda>(d, q'). queue_ok q' \<and> queued q' = push_spec limit (queued q) p \<and>
    d = total (queued q) + glen p - total (queued q') \<and> pq_closed q' = pq_closed q)"
  using push_locked_queued [OF assms, of limit p] by (auto simp: push_def returns_def signal_ready_def queued_def queue_ok_def)

lemma take_pass_queued:
  assumes "queue_ok q"
  shows "returns (take_pass mx q dst) (\<lambda>(r, q'). queue_ok q' \<and> pq_closed q' = pq_closed q \<and>
    (if queued q \<noteq> []
     then r = Taken (dst @ take (batch mx 0 (queued q)) (queued q)) \<and> queued q' = drop (batch mx 0 (queued q)) (queued q)
     else r = (if pq_closed q then Drained dst else Waiting) \<and> queued q' = []))"
proof -
  have "pq_count q > 0 \<longleftrightarrow> queued q \<noteq> []" using length_queued [OF assms] by (metis length_greater_0_conv)
  then show ?thesis
    using take_loop_queued [OF assms, of mx 0 dst] assms by (auto simp: take_pass_def returns_def)
qed

lemma queue_close_queued:
  "queue_ok q \<Longrightarrow> queue_ok (queue_close q) \<and> queued (queue_close q) = queued q \<and> pq_closed (queue_close q)"
  by (simp add: queue_close_def signal_ready_def queue_ok_def queued_def)

interpretation ring: packet_buffer queued pq_closed queue_ok newPacketQueue push take_pass queue_close
  by unfold_locales (simp_all add: new_queue_ok push_queued take_pass_queued queue_close_queued,
    simp add: newPacketQueue_def)

subsection \<open>Waking the writer\<close>

text \<open>
  \<open>push\<close> and \<open>close\<close> release the lock before they send the token, and \<open>take\<close> releases it before it
  waits for the token; the engine's lock lets one producer at a time reach the queue. The writer is
  \<open>Checking\<close> (about to enter a pass of \<open>take\<close>), \<open>Waits\<close> (blocked on the token), \<open>Writes\<close> (has a
  batch) or \<open>Done\<close>; \<open>sending\<close> says that a producer has yet to send the token it owes.
\<close>

datatype writer = Checking | Waits | Writes "bytes list" | Done

record queue_state =
  qs_queue :: packetQueue
  qs_writer :: writer
  qs_sending :: bool

inductive queue_step :: "int \<Rightarrow> int \<Rightarrow> queue_state \<Rightarrow> queue_state \<Rightarrow> bool" for limit mx where
  step_push: "\<not> qs_sending s \<Longrightarrow> push_locked limit (qs_queue s) p = Inr ((d, sends), q) \<Longrightarrow>
    queue_step limit mx s (s\<lparr>qs_queue := q, qs_sending := sends\<rparr>)"
| step_close: "\<not> qs_sending s \<Longrightarrow>
    queue_step limit mx s (s\<lparr>qs_queue := (qs_queue s)\<lparr>pq_closed := True\<rparr>, qs_sending := True\<rparr>)"
| step_send: "qs_sending s \<Longrightarrow>
    queue_step limit mx s (s\<lparr>qs_queue := signal_ready (qs_queue s), qs_sending := False\<rparr>)"
| step_take: "qs_writer s = Checking \<Longrightarrow> take_pass mx (qs_queue s) [] = Inr (r, q) \<Longrightarrow>
    queue_step limit mx s (s\<lparr>qs_queue := q,
      qs_writer := (case r of Taken ps \<Rightarrow> Writes ps | Drained _ \<Rightarrow> Done | Waiting \<Rightarrow> Waits)\<rparr>)"
| step_wake: "qs_writer s = Waits \<Longrightarrow> pq_ready (qs_queue s) \<Longrightarrow>
    queue_step limit mx s (s\<lparr>qs_queue := (qs_queue s)\<lparr>pq_ready := False\<rparr>, qs_writer := Checking\<rparr>)"
| step_written: "qs_writer s = Writes ps \<Longrightarrow>
    queue_step limit mx s (s\<lparr>qs_writer := Checking\<rparr>)"

definition queue_init :: queue_state where
  "queue_init = \<lparr>qs_queue = newPacketQueue, qs_writer = Checking, qs_sending = False\<rparr>"

definition wake_inv :: "queue_state \<Rightarrow> bool" where
  "wake_inv s \<longleftrightarrow> queue_ok (qs_queue s) \<and>
     (qs_writer s = Waits \<and> (queued (qs_queue s) \<noteq> [] \<or> pq_closed (qs_queue s)) \<longrightarrow>
        pq_ready (qs_queue s) \<or> qs_sending s) \<and>
     (qs_writer s = Done \<longrightarrow> pq_closed (qs_queue s))"

lemma push_spec_keeps:
  "push_spec limit ps p \<noteq> [] \<Longrightarrow> glen p \<le> limit"
  by (simp add: push_spec_def split: if_split_asm)

lemma wake_inv_step: "queue_step limit mx s t \<Longrightarrow> wake_inv s \<Longrightarrow> wake_inv t"
proof (induction rule: queue_step.induct)
  case (step_push s p d sends q)
  then show ?case
    using push_locked_queued [of "qs_queue s" limit p] push_spec_keeps [of limit "queued (qs_queue s)" p]
    by (auto simp: wake_inv_def returns_def)
next
  case (step_take s r q)
  then show ?case
    using take_pass_queued [of "qs_queue s" mx "[]"] by (auto simp: wake_inv_def returns_def split: if_split_asm)
qed (auto simp: wake_inv_def queue_ok_def queued_def signal_ready_def)

subsection \<open>Properties\<close>

text \<open>
  C13. The ring buffer implements a byte-budgeted first-in first-out list: whatever its layout
  (wrapped, full, grown), pushing a packet drops exactly the oldest packets that do not leave room
  and appends the packet, the number returned is the number of bytes lost, and taking a batch
  removes the longest front that fits (at least one packet); no index ever leaves the ring.
\<close>

theorem packetQueue_refines:
  assumes "queue_ok q"
  shows "returns (push limit q p) (\<lambda>(d, q'). queue_ok q' \<and> queued q' = push_spec limit (queued q) p \<and>
      d = total (queued q) + glen p - total (queued q')) \<and>
    returns (take_pass mx q dst) (\<lambda>(r, q'). queue_ok q' \<and>
      (if queued q = [] then r = (if pq_closed q then Drained dst else Waiting) \<and> queued q' = []
       else r = Taken (dst @ take (batch mx 0 (queued q)) (queued q)) \<and>
         queued q' = drop (batch mx 0 (queued q)) (queued q)))"
  by (intro conjI returns_mono [OF ring.put [OF assms]] returns_mono [OF ring.get [OF assms]])
    (auto split: if_split_asm)

definition demo_queue :: packetQueue where
  "demo_queue = \<lparr>pq_ring = [[3], [1, 1], [2]], pq_head = 1, pq_count = 3, pq_bytes = 4,
     pq_closed = False, pq_ready = True\<rparr>"

theorem packetQueue_refines_witness:
  "queued demo_queue = [[1, 1], [2], [3]] \<and>
    returns (push 4 demo_queue [4]) (\<lambda>(d, q'). queue_ok q' \<and> queued q' = [[2], [3], [4]] \<and> d = 2) \<and>
    returns (take_pass 3 demo_queue []) (\<lambda>(r, q'). r = Taken [[1, 1], [2]] \<and> queued q' = [[3]])"
proof -
  have ok: "queue_ok demo_queue" by (simp add: queue_ok_def queued_def demo_queue_def rotate_drop_take)
  have q: "queued demo_queue = [[1, 1], [2], [3]]" by (simp add: queued_def demo_queue_def rotate_drop_take)
  show ?thesis
    using packetQueue_refines [OF ok, of 4 "[4]" 3 "[]"] by (auto simp: q returns_def push_spec_def)
qed

text \<open>
  C17. No packet is reordered, duplicated or lost unreported: for every interleaving of packets
  arriving and batches taken, what was taken followed by what is queued is a subsequence of what
  arrived, the bytes reported as dropped are exactly those missing, with no drop reported every
  packet is there in order, and the queue never holds more than its budget.
\<close>

theorem packetQueue_in_order:
  assumes "0 \<le> limit"
  shows "returns (run_ops push take_pass limit mx ops newPacketQueue [] 0) (\<lambda>(out, lost, q).
    faithful limit (List.map_filter (\<lambda>x. x) ops) 0 out lost (queued q))"
  using ring.run_faithful [OF assms new_queue_ok(1), of mx ops "[]" 0] assms
  by (auto simp: new_queue_ok returns_def)

theorem packetQueue_in_order_witness:
  "returns (run_ops push take_pass 4 3 [Some [1, 1], Some [2], None, Some [3], Some [4, 4, 4, 4], None] newPacketQueue [] 0)
    (\<lambda>(out, lost, q). faithful 4 [[1, 1], [2], [3], [4, 4, 4, 4]] 0 out lost (queued q))"
  using packetQueue_in_order [of 4 3 "[Some [1, 1], Some [2], None, Some [3], Some [4, 4, 4, 4], None]"]
  by (simp add: List.map_filter_def)



end
