(* ===== verification/Fanout.thy ===== *)
theory Fanout
  imports PacketQueue
begin

section \<open>The fan-out engine\<close>

text \<open>
  \<open>internal/stream/fanout/engine.go\<close> and \<open>subscription.go\<close>: one live source is handed to any
  number of packet and signaling subscribers. Subscribers come and go while packets are dispatched;
  the engine starts with the first and stops for good after the last.

  A subscription is an object that the engine's maps, its ordered list and the subscriber's own
  goroutines share, so the subscriptions live in a store (\<open>en_psubs\<close>, \<open>en_ssubs\<close>) keyed by the id
  \<open>attach\<close> gives them; \<open>en_packets\<close> and \<open>en_sections\<close> are the keys of the Go maps, \<open>en_packetSubs\<close>
  and \<open>en_sectionSubs\<close> the ordered lists. A \<open>chan struct{}\<close> that is only ever closed is a flag, and
  closing it twice is a panic; a signaling queue is a list with a capacity, and sending to it after
  it was closed is a panic. \<open>nextID\<close> is a natural number: an engine does not attach \<open>2 ^ 64\<close>
  subscribers.

  What is not under the engine is a parameter: the transport (\<open>transport.go\<close>), as a record of its
  operations on a state \<open>'t\<close> the filters share (\<open>ts\<close> demultiplexes once for all services), and the
  hooks, whose calls are recorded in \<open>en_calls\<close>. Metrics and log lines are left out.
\<close>

datatype fan_error = ErrSubscriberOverflow | ErrStopped | ErrShortWrite | External string

record ('s, 't, 'f, 'd) transport =
  tr_Feed :: "'t \<Rightarrow> bytes \<Rightarrow> (fan_error + 's list) \<times> 't"
  tr_NewFilter :: "'t \<Rightarrow> uint16 \<Rightarrow> 'f"
  tr_Packet :: "'t \<Rightarrow> 'f \<Rightarrow> bytes \<Rightarrow> (fan_error + bytes option) \<times> 'f \<times> 't"
  tr_NewDropDetector :: 'd
  tr_FilterDropDetector :: "'f \<Rightarrow> 'd option"
  tr_Observe :: "'d \<Rightarrow> bytes \<Rightarrow> bool \<times> 'd"

definition SubscriberBufferBytes :: int where
  "SubscriberBufferBytes = 8 * 2 ^ 20"

definition sectionSubscriberBuffer :: nat where
  "sectionSubscriberBuffer = 512"

record ('f, 'd) packetSubscription =
  ps_filter :: "'f option"
  ps_serviceID :: "uint16 option"
  ps_drops :: 'd
  ps_queue :: packetQueue
  ps_err :: "fan_error option"
  ps_finished :: bool
  ps_done :: bool
  ps_writerDone :: bool
  ps_statsPacket :: nat
  ps_statsDrop :: nat
  ps_dropping :: bool
  ps_droppedBytes :: int

record 's sectionSubscription =
  ss_accept :: "('s \<Rightarrow> bool) option"
  ss_queue :: "'s list"
  ss_queueClosed :: bool
  ss_err :: "fan_error option"
  ss_finished :: bool
  ss_done :: bool
  ss_writerDone :: bool

datatype 's hook_call = PacketHook nat bytes | SectionHook nat 's

record ('s, 't, 'f, 'd) engine =
  en_transport :: 't
  en_nextID :: nat
  en_psubs :: "nat \<rightharpoonup> ('f, 'd) packetSubscription"
  en_packets :: "nat set"
  en_packetSubs :: "nat list"
  en_ssubs :: "nat \<rightharpoonup> 's sectionSubscription"
  en_sections :: "nat set"
  en_sectionSubs :: "nat list"
  en_onPackets :: nat
  en_onSections :: nat
  en_calls :: "'s hook_call list"
  en_cancel :: bool
  en_canceled :: bool
  en_closing :: bool
  en_started :: bool
  en_stopped :: bool
  en_once :: bool
  en_done :: bool
  en_err :: "fan_error option"
  en_onEmpty :: nat

definition New :: "'t \<Rightarrow> ('s, 't, 'f, 'd) engine" where
  "New t = \<lparr>en_transport = t, en_nextID = 0, en_psubs = Map.empty, en_packets = {}, en_packetSubs = [],
     en_ssubs = Map.empty, en_sections = {}, en_sectionSubs = [], en_onPackets = 0, en_onSections = 0,
     en_calls = [], en_cancel = False, en_canceled = False, en_closing = False, en_started = False,
     en_stopped = False, en_once = False, en_done = False, en_err = None, en_onEmpty = 0\<rparr>"

definition WithPackets :: "nat \<Rightarrow> ('s, 't, 'f, 'd) engine \<Rightarrow> ('s, 't, 'f, 'd) engine" where
  "WithPackets n e = e\<lparr>en_onPackets := en_onPackets e + n\<rparr>"

definition WithSections :: "nat \<Rightarrow> ('s, 't, 'f, 'd) engine \<Rightarrow> ('s, 't, 'f, 'd) engine" where
  "WithSections n e = e\<lparr>en_onSections := en_onSections e + n\<rparr>"

text \<open>Attaching.\<close>

definition startLocked :: "('s, 't, 'f, 'd) engine \<Rightarrow> ('s, 't, 'f, 'd) engine" where
  "startLocked e = (if en_started e then e else e\<lparr>en_cancel := True, en_started := True\<rparr>)"

definition new_packet_subscription ::
  "('s, 't, 'f, 'd) transport \<Rightarrow> 't \<Rightarrow> uint16 option \<Rightarrow> ('f, 'd) packetSubscription" where
  "new_packet_subscription tr t serviceID =
     (let flt = map_option (tr_NewFilter tr t) serviceID;
          drops = (case flt of
                     None \<Rightarrow> tr_NewDropDetector tr
                   | Some f \<Rightarrow> (case tr_FilterDropDetector tr f of None \<Rightarrow> tr_NewDropDetector tr | Some d \<Rightarrow> d))
      in \<lparr>ps_filter = flt, ps_serviceID = serviceID, ps_drops = drops, ps_queue = newPacketQueue,
          ps_err = None, ps_finished = False, ps_done = False, ps_writerDone = False,
          ps_statsPacket = 0, ps_statsDrop = 0, ps_dropping = False, ps_droppedBytes = 0\<rparr>)"

definition attachPacket ::
  "('s, 't, 'f, 'd) transport \<Rightarrow> uint16 option \<Rightarrow> ('s, 't, 'f, 'd) engine \<Rightarrow>
   (fan_error + nat) \<times> ('s, 't, 'f, 'd) engine" where
  "attachPacket tr serviceID e =
     (if en_stopped e then (Inl ErrStopped, e)
      else
        let key = en_nextID e
        in (Inr key, startLocked (e\<lparr>en_nextID := key + 1,
              en_psubs := (en_psubs e)(key \<mapsto> new_packet_subscription tr (en_transport e) serviceID),
              en_packets := insert key (en_packets e), en_packetSubs := en_packetSubs e @ [key]\<rparr>)))"

definition new_section_subscription :: "('s \<Rightarrow> bool) option \<Rightarrow> 's sectionSubscription" where
  "new_section_subscription accept = \<lparr>ss_accept = accept, ss_queue = [], ss_queueClosed = False, ss_err = None,
     ss_finished = False, ss_done = False, ss_writerDone = False\<rparr>"

definition attachSection ::
  "('s \<Rightarrow> bool) option \<Rightarrow> bool \<Rightarrow> ('s, 't, 'f, 'd) engine \<Rightarrow> (fan_error + nat) \<times> ('s, 't, 'f, 'd) engine" where
  "attachSection accept start e =
     (if en_stopped e then (Inl ErrStopped, e)
      else
        let key = en_nextID e;
            e = e\<lparr>en_nextID := key + 1, en_ssubs := (en_ssubs e)(key \<mapsto> new_section_subscription accept),
                  en_sections := insert key (en_sections e), en_sectionSubs := en_sectionSubs e @ [key]\<rparr>
        in (Inr key, if start then startLocked e else e))"

text \<open>Finishing. \<open>en_closing\<close>: the goroutine \<open>go e.close(nil)\<close> was started.\<close>

definition cancelIfEmptyLocked :: "('s, 't, 'f, 'd) engine \<Rightarrow> ('s, 't, 'f, 'd) engine" where
  "cancelIfEmptyLocked e =
     (if en_packets e \<noteq> {} \<or> en_sections e \<noteq> {} then e
      else if en_cancel e then e\<lparr>en_stopped := True, en_canceled := True\<rparr>
      else e\<lparr>en_stopped := True, en_closing := True\<rparr>)"

definition finishPacketLocked ::
  "nat \<Rightarrow> fan_error option \<Rightarrow> ('s, 't, 'f, 'd) engine \<Rightarrow> unit fault + ('s, 't, 'f, 'd) engine" where
  "finishPacketLocked key err e =
     (case (if key \<in> en_packets e then en_psubs e key else None) of
        None \<Rightarrow> Inr e
      | Some sub \<Rightarrow>
          if ps_finished sub then Inr e
          else if ps_done sub then Inl Panic
          else Inr (cancelIfEmptyLocked (e\<lparr>
            en_psubs := (en_psubs e)(key \<mapsto> sub\<lparr>ps_finished := True, ps_err := err,
               ps_queue := queue_close (ps_queue sub), ps_done := True\<rparr>),
            en_packets := en_packets e - {key},
            en_packetSubs := filter (\<lambda>i. i \<noteq> key) (en_packetSubs e)\<rparr>)))"

definition finishSectionLocked ::
  "nat \<Rightarrow> fan_error option \<Rightarrow> ('s, 't, 'f, 'd) engine \<Rightarrow> unit fault + ('s, 't, 'f, 'd) engine" where
  "finishSectionLocked key err e =
     (case (if key \<in> en_sections e then en_ssubs e key else None) of
        None \<Rightarrow> Inr e
      | Some sub \<Rightarrow>
          if ss_finished sub then Inr e
          else if ss_queueClosed sub \<or> ss_done sub then Inl Panic
          else Inr (cancelIfEmptyLocked (e\<lparr>
            en_ssubs := (en_ssubs e)(key \<mapsto> sub\<lparr>ss_finished := True, ss_err := err,
               ss_queueClosed := True, ss_done := True\<rparr>),
            en_sections := en_sections e - {key},
            en_sectionSubs := filter (\<lambda>i. i \<noteq> key) (en_sectionSubs e)\<rparr>)))"

text \<open>
  Dispatching. The loops index a list that finishing a subscription shortens. Every pass either
  advances the index or removes an entry, so the number of entries left bounds the passes; a loop
  that used more would not end, which \<open>Err ()\<close> stands for.
\<close>

definition enqueueLocked :: "('f, 'd) packetSubscription \<Rightarrow> bytes \<Rightarrow> unit fault + ('f, 'd) packetSubscription" where
  "enqueueLocked sub packet =
     rbind (push SubscriberBufferBytes (ps_queue sub) packet) (\<lambda>(dropped, queue).
       let sub = sub\<lparr>ps_queue := queue\<rparr>
       in if dropped > 0 then Inr (sub\<lparr>ps_dropping := True, ps_droppedBytes := ps_droppedBytes sub + dropped\<rparr>)
          else if ps_dropping sub then Inr (sub\<lparr>ps_dropping := False, ps_droppedBytes := 0\<rparr>)
          else Inr sub)"

fun dispatch_packet ::
  "('s, 't, 'f, 'd) transport \<Rightarrow> bytes \<Rightarrow> nat \<Rightarrow> nat \<Rightarrow> ('s, 't, 'f, 'd) engine \<Rightarrow> unit fault + ('s, 't, 'f, 'd) engine" where
  "dispatch_packet tr packet fuel i e =
     (if i < length (en_packetSubs e) then
        case fuel of
          0 \<Rightarrow> Inl (Err ())
        | Suc fuel \<Rightarrow>
            let key = en_packetSubs e ! i
            in (case en_psubs e key of
                  None \<Rightarrow> Inl Panic
                | Some sub \<Rightarrow>
                    (case ps_filter sub of
                       None \<Rightarrow>
                         rbind (enqueueLocked sub packet) (\<lambda>sub.
                           dispatch_packet tr packet fuel (i + 1) (e\<lparr>en_psubs := (en_psubs e)(key \<mapsto> sub)\<rparr>))
                     | Some f \<Rightarrow>
                         (case tr_Packet tr (en_transport e) f packet of
                            (result, f, t) \<Rightarrow>
                              let sub = sub\<lparr>ps_filter := Some f\<rparr>;
                                  e = e\<lparr>en_transport := t, en_psubs := (en_psubs e)(key \<mapsto> sub)\<rparr>
                              in (case result of
                                    Inl err \<Rightarrow>
                                      rbind (finishPacketLocked key (Some err) e) (dispatch_packet tr packet fuel i)
                                  | Inr None \<Rightarrow> dispatch_packet tr packet fuel (i + 1) e
                                  | Inr (Some filtered) \<Rightarrow>
                                      rbind (enqueueLocked sub filtered) (\<lambda>sub.
                                        dispatch_packet tr packet fuel (i + 1)
                                          (e\<lparr>en_psubs := (en_psubs e)(key \<mapsto> sub)\<rparr>))))))
      else Inr e)"

fun dispatch_section ::
  "'s \<Rightarrow> nat \<Rightarrow> nat \<Rightarrow> ('s, 't, 'f, 'd) engine \<Rightarrow> unit fault + ('s, 't, 'f, 'd) engine" where
  "dispatch_section sct fuel i e =
     (if i < length (en_sectionSubs e) then
        case fuel of
          0 \<Rightarrow> Inl (Err ())
        | Suc fuel \<Rightarrow>
            let key = en_sectionSubs e ! i
            in (case en_ssubs e key of
                  None \<Rightarrow> Inl Panic
                | Some sub \<Rightarrow>
                    if (case ss_accept sub of None \<Rightarrow> False | Some accept \<Rightarrow> \<not> accept sct)
                    then dispatch_section sct fuel (i + 1) e
                    else if ss_queueClosed sub then Inl Panic
                    else if length (ss_queue sub) < sectionSubscriberBuffer
                    then dispatch_section sct fuel (i + 1)
                           (e\<lparr>en_ssubs := (en_ssubs e)(key \<mapsto> sub\<lparr>ss_queue := ss_queue sub @ [sct]\<rparr>)\<rparr>)
                    else rbind (finishSectionLocked key (Some ErrSubscriberOverflow) e) (dispatch_section sct fuel i))
      else Inr e)"

declare dispatch_packet.simps [simp del] dispatch_section.simps [simp del]

fun dispatch_sections :: "'s list \<Rightarrow> ('s, 't, 'f, 'd) engine \<Rightarrow> unit fault + ('s, 't, 'f, 'd) engine" where
  "dispatch_sections [] e = Inr e"
| "dispatch_sections (sct # scts) e =
     (let e = e\<lparr>en_calls := en_calls e @ map (\<lambda>n. SectionHook n sct) [0..<en_onSections e]\<rparr>
      in rbind (dispatch_section sct (length (en_sectionSubs e)) 0 e) (dispatch_sections scts))"

definition dispatchLocked ::
  "('s, 't, 'f, 'd) transport \<Rightarrow> bytes \<Rightarrow> 's list \<Rightarrow> ('s, 't, 'f, 'd) engine \<Rightarrow> unit fault + ('s, 't, 'f, 'd) engine" where
  "dispatchLocked tr packet sections e =
     (let e = e\<lparr>en_calls := en_calls e @ map (\<lambda>n. PacketHook n packet) [0..<en_onPackets e]\<rparr>
      in rbind (dispatch_packet tr packet (length (en_packetSubs e)) 0 e) (dispatch_sections sections))"

text \<open>Closing: every subscriber is finished, in order, \<open>done\<close> is closed and \<open>onEmpty\<close> runs.\<close>

fun finish_packets :: "nat \<Rightarrow> fan_error option \<Rightarrow> ('s, 't, 'f, 'd) engine \<Rightarrow> unit fault + ('s, 't, 'f, 'd) engine" where
  "finish_packets fuel err e =
     (case en_packetSubs e of
        [] \<Rightarrow> Inr e
      | key # _ \<Rightarrow> (case fuel of
          0 \<Rightarrow> Inl (Err ())
        | Suc fuel \<Rightarrow> rbind (finishPacketLocked key err e) (finish_packets fuel err)))"

fun finish_sections :: "nat \<Rightarrow> fan_error option \<Rightarrow> ('s, 't, 'f, 'd) engine \<Rightarrow> unit fault + ('s, 't, 'f, 'd) engine" where
  "finish_sections fuel err e =
     (case en_sectionSubs e of
        [] \<Rightarrow> Inr e
      | key # _ \<Rightarrow> (case fuel of
          0 \<Rightarrow> Inl (Err ())
        | Suc fuel \<Rightarrow> rbind (finishSectionLocked key err e) (finish_sections fuel err)))"

declare finish_packets.simps [simp del] finish_sections.simps [simp del]

definition engine_close :: "fan_error option \<Rightarrow> ('s, 't, 'f, 'd) engine \<Rightarrow> unit fault + ('s, 't, 'f, 'd) engine" where
  "engine_close err e =
     (if en_once e then Inr e
      else
        let e = e\<lparr>en_once := True, en_err := err, en_stopped := True\<rparr>
        in rbind (finish_packets (length (en_packetSubs e)) err e) (\<lambda>e.
           rbind (finish_sections (length (en_sectionSubs e)) err e) (\<lambda>e.
             if en_done e then Inl Panic
             else Inr (e\<lparr>en_done := True, en_onEmpty := en_onEmpty e + 1\<rparr>))))"

text \<open>\<open>Stop\<close> up to where it waits for \<open>done\<close>.\<close>

definition Stop :: "('s, 't, 'f, 'd) engine \<Rightarrow> unit fault + ('s, 't, 'f, 'd) engine" where
  "Stop e =
     (if en_stopped e then Inr e
      else
        let e = e\<lparr>en_stopped := True\<rparr>
        in if \<not> en_started e then engine_close None e
           else if en_cancel e then Inr (e\<lparr>en_canceled := True\<rparr>) else Inr e)"

text \<open>One packet of the source, in \<open>run\<close>: its signaling is parsed and dispatched; a parse error ends
  the run, which closes the engine.\<close>

definition run_packet ::
  "('s, 't, 'f, 'd) transport \<Rightarrow> bytes \<Rightarrow> ('s, 't, 'f, 'd) engine \<Rightarrow> unit fault + ('s, 't, 'f, 'd) engine" where
  "run_packet tr packet e =
     (case tr_Feed tr (en_transport e) packet of
        (Inl err, t) \<Rightarrow> engine_close (Some err) (e\<lparr>en_transport := t\<rparr>)
      | (Inr sections, t) \<Rightarrow> dispatchLocked tr packet sections (e\<lparr>en_transport := t\<rparr>))"

text \<open>A subscriber's writers.\<close>

fun observe_batch :: "('s, 't, 'f, 'd) transport \<Rightarrow> bytes list \<Rightarrow> ('f, 'd) packetSubscription \<Rightarrow> ('f, 'd) packetSubscription" where
  "observe_batch tr [] sub = sub"
| "observe_batch tr (packet # ps) sub =
     (let (gap, drops) = tr_Observe tr (ps_drops sub) packet
      in observe_batch tr ps (sub\<lparr>ps_drops := drops, ps_statsPacket := ps_statsPacket sub + 1,
           ps_statsDrop := ps_statsDrop sub + (if gap then 1 else 0)\<rparr>))"

text \<open>One pass of \<open>writePackets\<close>: the bytes it writes, or that it ends or waits. A failed write is
  followed by \<open>finishPacket\<close>.\<close>

definition writePackets ::
  "('s, 't, 'f, 'd) transport \<Rightarrow> nat \<Rightarrow> ('s, 't, 'f, 'd) engine \<Rightarrow> unit fault + (bytes option \<times> ('s, 't, 'f, 'd) engine)" where
  "writePackets tr key e =
     (case en_psubs e key of
        None \<Rightarrow> Inl Panic
      | Some sub \<Rightarrow>
          rbind (take_pass packetWriteBatchBytes (ps_queue sub) []) (\<lambda>(r, queue).
            let sub = sub\<lparr>ps_queue := queue\<rparr>;
                put = (\<lambda>sub. e\<lparr>en_psubs := (en_psubs e)(key \<mapsto> sub)\<rparr>)
            in (case r of
                  Taken ps \<Rightarrow> Inr (Some (concat ps), put (observe_batch tr ps sub))
                | Drained _ \<Rightarrow> Inr (None, put (sub\<lparr>ps_writerDone := True\<rparr>))
                | Waiting \<Rightarrow> Inr (None, put sub))))"

text \<open>One pass of \<open>writeSections\<close>: the unit handed to \<open>observe\<close>; a failing \<open>observe\<close> is followed by
  \<open>finishSection\<close>.\<close>

definition writeSections :: "nat \<Rightarrow> ('s, 't, 'f, 'd) engine \<Rightarrow> unit fault + ('s option \<times> ('s, 't, 'f, 'd) engine)" where
  "writeSections key e =
     (case en_ssubs e key of
        None \<Rightarrow> Inl Panic
      | Some sub \<Rightarrow>
          (case ss_queue sub of
             sct # rest \<Rightarrow> Inr (Some sct, e\<lparr>en_ssubs := (en_ssubs e)(key \<mapsto> sub\<lparr>ss_queue := rest\<rparr>)\<rparr>)
           | [] \<Rightarrow>
               if ss_queueClosed sub
               then Inr (None, e\<lparr>en_ssubs := (en_ssubs e)(key \<mapsto> sub\<lparr>ss_writerDone := True\<rparr>)\<rparr>)
               else Inr (None, e)))"

definition PacketSubscriberCount :: "('s, 't, 'f, 'd) engine \<Rightarrow> nat" where
  "PacketSubscriberCount e = card (en_packets e)"

definition SectionSubscriberCount :: "('s, 't, 'f, 'd) engine \<Rightarrow> nat" where
  "SectionSubscriberCount e = card (en_sections e)"

definition Stopped :: "('s, 't, 'f, 'd) engine \<Rightarrow> bool" where
  "Stopped e = en_stopped e"

end
