(* ===== verification/FanoutCorrect.thy ===== *)
theory FanoutCorrect
  imports Fanout
begin

section \<open>Correctness of the fan-out engine\<close>

text \<open>
  The invariant of the engine's maps and lists, that every operation keeps it, and what follows:
  no channel is closed twice or sent to after its close, every loop over the subscribers ends,
  subscribers do not disturb each other, and the engine's life ends exactly once.
\<close>

subsection \<open>The stores of subscriptions\<close>

text \<open>The list holds the attached subscriptions, each once; all others have been finished.\<close>

definition subs_ok :: "('u \<Rightarrow> bool) \<Rightarrow> ('u \<Rightarrow> bool) \<Rightarrow> nat \<Rightarrow> (nat \<rightharpoonup> 'u) \<Rightarrow> nat set \<Rightarrow> nat list \<Rightarrow> bool" where
  "subs_ok live dead n objs keys ids \<longleftrightarrow>
     distinct ids \<and> set ids = keys \<and>
     (\<forall>k \<in> keys. \<exists>u. objs k = Some u \<and> live u) \<and>
     (\<forall>k u. objs k = Some u \<longrightarrow> k < n \<and> (k \<notin> keys \<longrightarrow> dead u))"

lemma subs_ok_live: "subs_ok live dead n objs keys ids \<Longrightarrow> k \<in> keys \<Longrightarrow> \<exists>u. objs k = Some u \<and> live u"
  by (simp add: subs_ok_def)

lemma subs_ok_key: "subs_ok live dead n objs keys ids \<Longrightarrow> k \<in> keys \<Longrightarrow> k < n"
  unfolding subs_ok_def by blast

lemma subs_ok_update:
  "subs_ok live dead n objs keys ids \<Longrightarrow> k \<in> keys \<Longrightarrow> live u \<Longrightarrow> subs_ok live dead n (objs(k \<mapsto> u)) keys ids"
  using subs_ok_key [of live dead n objs keys ids k] by (simp add: subs_ok_def)

lemma subs_ok_replace:
  assumes "subs_ok live dead n objs keys ids" "k < n" "dead u"
  shows "subs_ok live dead n (objs(k \<mapsto> u)) (keys - {k}) (filter (\<lambda>i. i \<noteq> k) ids)"
proof -
  have "\<exists>v. (objs(k \<mapsto> u)) i = Some v \<and> live v" if "i \<in> keys - {k}" for i
    using that subs_ok_live [OF assms(1), of i] by simp
  moreover have "i < n \<and> (i \<notin> keys - {k} \<longrightarrow> dead v)" if "(objs(k \<mapsto> u)) i = Some v" for i v
    using that assms by (cases "i = k") (simp_all add: subs_ok_def)
  ultimately show ?thesis using assms(1) by (auto simp: subs_ok_def)
qed

lemma subs_ok_write:
  assumes ok: "subs_ok live dead n objs keys ids" and v: "objs k = Some v"
    and keep: "live v \<Longrightarrow> live u" "dead v \<Longrightarrow> dead u"
  shows "subs_ok live dead n (objs(k \<mapsto> u)) keys ids"
proof (cases "k \<in> keys")
  case True
  then have "live u" using subs_ok_live [OF ok True] v keep(1) by simp
  then show ?thesis by (rule subs_ok_update [OF ok True])
next
  case False
  then have "k < n" "dead u" using ok v keep(2) by (simp_all add: subs_ok_def)
  moreover have "filter (\<lambda>i. i \<noteq> k) ids = ids" using False ok by (auto simp: subs_ok_def intro!: filter_True)
  ultimately show ?thesis using subs_ok_replace [OF ok, of k u] False by simp
qed

lemma subs_ok_finish:
  assumes "subs_ok live dead n objs keys ids" "k \<in> keys" "dead u"
  shows "subs_ok live dead n (objs(k \<mapsto> u)) (keys - {k}) (filter (\<lambda>i. i \<noteq> k) ids)"
  using subs_ok_replace [OF assms(1) subs_ok_key [OF assms(1,2)] assms(3)] .

lemma subs_ok_Suc: "subs_ok live dead n objs keys ids \<Longrightarrow> subs_ok live dead (n + 1) objs keys ids"
  by (simp add: subs_ok_def less_SucI)

lemma subs_ok_attach:
  assumes "subs_ok live dead n objs keys ids" "live u"
  shows "subs_ok live dead (n + 1) (objs(n \<mapsto> u)) (insert n keys) (ids @ [n])"
proof -
  have n: "n \<notin> keys" using subs_ok_key [OF assms(1), of n] by auto
  have "\<exists>v. (objs(n \<mapsto> u)) i = Some v \<and> live v" if "i \<in> insert n keys" for i
    using that subs_ok_live [OF assms(1), of i] assms(2) by (cases "i = n") simp_all
  moreover have "i < n + 1 \<and> (i \<notin> insert n keys \<longrightarrow> dead v)" if "(objs(n \<mapsto> u)) i = Some v" for i v
    using that assms by (cases "i = n") (simp_all add: subs_ok_def less_SucI)
  ultimately show ?thesis using assms(1) n by (auto simp: subs_ok_def)
qed

lemma subs_ok_nth:
  "subs_ok live dead n objs keys ids \<Longrightarrow> i < length ids \<Longrightarrow> ids ! i \<in> keys"
  by (auto simp: subs_ok_def)

lemma drop_removed:
  assumes "distinct ids" "i < length ids"
  shows "drop i (filter (\<lambda>k. k \<noteq> ids ! i) ids) = drop (Suc i) ids" "length (filter (\<lambda>k. k \<noteq> ids ! i) ids) = length ids - 1"
proof -
  let ?xs = "take i ids" and ?ys = "drop (Suc i) ids"
  have ids: "?xs @ ids ! i # ?ys = ids" using assms(2) by (rule id_take_nth_drop [symmetric])
  have "distinct (?xs @ ids ! i # ?ys)" using assms(1) ids by simp
  then have "ids ! i \<notin> set ?xs" "ids ! i \<notin> set ?ys" by auto
  then have keep: "filter (\<lambda>k. k \<noteq> ids ! i) ?xs = ?xs" "filter (\<lambda>k. k \<noteq> ids ! i) ?ys = ?ys"
    by (auto intro!: filter_True)
  have "filter (\<lambda>k. k \<noteq> ids ! i) (?xs @ ids ! i # ?ys) = ?xs @ ?ys"
    by (simp only: filter_append keep filter.simps) simp
  then have eq: "filter (\<lambda>k. k \<noteq> ids ! i) ids = ?xs @ ?ys" by (simp only: ids)
  show "drop i (filter (\<lambda>k. k \<noteq> ids ! i) ids) = drop (Suc i) ids"
    "length (filter (\<lambda>k. k \<noteq> ids ! i) ids) = length ids - 1"
    unfolding eq using assms(2) by simp_all
qed

lemma nth_not_in_drop: "distinct ids \<Longrightarrow> i < length ids \<Longrightarrow> ids ! i \<notin> set (drop (Suc i) ids)"
  by (metis Cons_nth_drop_Suc distinct.simps(2) distinct_drop)

subsection \<open>The invariant\<close>

definition queue_within :: "packetQueue \<Rightarrow> bool" where
  "queue_within q \<longleftrightarrow> queue_ok q \<and> total (queued q) \<le> SubscriberBufferBytes"

definition live_psub :: "('f, 'd) packetSubscription \<Rightarrow> bool" where
  "live_psub sub \<longleftrightarrow> \<not> ps_finished sub \<and> \<not> ps_done sub \<and> \<not> pq_closed (ps_queue sub) \<and> queue_within (ps_queue sub)"

definition dead_psub :: "('f, 'd) packetSubscription \<Rightarrow> bool" where
  "dead_psub sub \<longleftrightarrow> ps_finished sub \<and> ps_done sub \<and> pq_closed (ps_queue sub) \<and> queue_within (ps_queue sub)"

definition live_ssub :: "'s sectionSubscription \<Rightarrow> bool" where
  "live_ssub sub \<longleftrightarrow> \<not> ss_finished sub \<and> \<not> ss_done sub \<and> \<not> ss_queueClosed sub \<and>
     length (ss_queue sub) \<le> sectionSubscriberBuffer"

definition dead_ssub :: "'s sectionSubscription \<Rightarrow> bool" where
  "dead_ssub sub \<longleftrightarrow> ss_finished sub \<and> ss_done sub \<and> ss_queueClosed sub \<and>
     length (ss_queue sub) \<le> sectionSubscriberBuffer"

definition subs_inv :: "('s, 't, 'f, 'd) engine \<Rightarrow> bool" where
  "subs_inv e \<longleftrightarrow>
     subs_ok live_psub dead_psub (en_nextID e) (en_psubs e) (en_packets e) (en_packetSubs e) \<and>
     subs_ok live_ssub dead_ssub (en_nextID e) (en_ssubs e) (en_sections e) (en_sectionSubs e)"

definition life_inv :: "('s, 't, 'f, 'd) engine \<Rightarrow> bool" where
  "life_inv e \<longleftrightarrow>
     (en_packets e = {} \<and> en_sections e = {} \<and> en_nextID e > 0 \<longrightarrow> en_stopped e) \<and>
     (en_cancel e \<longleftrightarrow> en_started e) \<and>
     (en_done e \<longleftrightarrow> en_once e) \<and>
     en_onEmpty e = (if en_done e then 1 else 0) \<and>
     (en_once e \<longrightarrow> en_stopped e \<and> en_packets e = {} \<and> en_sections e = {})"

definition engine_inv :: "('s, 't, 'f, 'd) engine \<Rightarrow> bool" where
  "engine_inv e \<longleftrightarrow> subs_inv e \<and> life_inv e"

text \<open>How subscriptions ending changes an engine.\<close>

definition evolves :: "('s, 't, 'f, 'd) engine \<Rightarrow> ('s, 't, 'f, 'd) engine \<Rightarrow> bool" where
  "evolves e e' \<longleftrightarrow>
     en_nextID e' = en_nextID e \<and> en_cancel e' = en_cancel e \<and> en_started e' = en_started e \<and>
     en_once e' = en_once e \<and> en_done e' = en_done e \<and> en_onEmpty e' = en_onEmpty e \<and> en_err e' = en_err e \<and>
     (en_stopped e \<longrightarrow> en_stopped e') \<and> en_packets e' \<subseteq> en_packets e \<and> en_sections e' \<subseteq> en_sections e \<and>
     (en_packets e' = {} \<and> en_sections e' = {} \<and> \<not> (en_packets e = {} \<and> en_sections e = {}) \<longrightarrow> en_stopped e')"

lemma evolves_refl [simp]: "evolves e e"
  by (auto simp: evolves_def)

lemma evolves_trans: "evolves a b \<Longrightarrow> evolves b c \<Longrightarrow> evolves a c"
  unfolding evolves_def by (intro conjI) (simp_all, blast+)

lemma evolves_life: "evolves e e' \<Longrightarrow> life_inv e \<Longrightarrow> life_inv e'"
  unfolding evolves_def life_inv_def by auto

lemma cancelIfEmptyLocked_frame:
  "en_psubs (cancelIfEmptyLocked e) = en_psubs e" "en_packets (cancelIfEmptyLocked e) = en_packets e"
  "en_packetSubs (cancelIfEmptyLocked e) = en_packetSubs e" "en_ssubs (cancelIfEmptyLocked e) = en_ssubs e"
  "en_sections (cancelIfEmptyLocked e) = en_sections e" "en_sectionSubs (cancelIfEmptyLocked e) = en_sectionSubs e"
  "en_nextID (cancelIfEmptyLocked e) = en_nextID e" "en_transport (cancelIfEmptyLocked e) = en_transport e"
  by (simp_all add: cancelIfEmptyLocked_def)

lemma subs_inv_cancel [simp]: "subs_inv (cancelIfEmptyLocked e) = subs_inv e"
  by (simp add: subs_inv_def cancelIfEmptyLocked_frame)

lemma subs_inv_live:
  "subs_inv e \<Longrightarrow> key \<in> en_packets e \<Longrightarrow> \<exists>sub. en_psubs e key = Some sub \<and> live_psub sub"
  using subs_ok_live unfolding subs_inv_def by blast

lemma queue_within_close: "queue_within q \<Longrightarrow> queue_within (queue_close q)"
  using queue_close_queued [of q] by (simp add: queue_within_def)

lemma finishPacketLocked_live:
  assumes "subs_inv e" "key \<in> en_packets e"
  obtains sub where "en_psubs e key = Some sub" "live_psub sub"
    "finishPacketLocked key err e = Inr (cancelIfEmptyLocked (e\<lparr>
            en_psubs := (en_psubs e)(key \<mapsto> sub\<lparr>ps_finished := True, ps_err := err,
               ps_queue := queue_close (ps_queue sub), ps_done := True\<rparr>),
            en_packets := en_packets e - {key},
            en_packetSubs := filter (\<lambda>i. i \<noteq> key) (en_packetSubs e)\<rparr>))"
proof -
  obtain sub where s: "en_psubs e key = Some sub" "live_psub sub"
    using assms subs_ok_live unfolding subs_inv_def by blast
  then show thesis using assms(2) by (intro that [OF s]) (simp add: finishPacketLocked_def live_psub_def)
qed

lemma finishPacketLocked_gone: "key \<notin> en_packets e \<Longrightarrow> finishPacketLocked key err e = Inr e"
  by (simp add: finishPacketLocked_def)

text \<open>What finishing one packet subscription does.\<close>

definition finished_packet ::
  "nat \<Rightarrow> fan_error option \<Rightarrow> ('s, 't, 'f, 'd) engine \<Rightarrow> ('s, 't, 'f, 'd) engine \<Rightarrow> bool" where
  "finished_packet key err e e' \<longleftrightarrow>
     en_packets e' = en_packets e - {key} \<and>
     en_packetSubs e' = filter (\<lambda>i. i \<noteq> key) (en_packetSubs e) \<and>
     (\<exists>sub sub'. en_psubs e key = Some sub \<and> en_psubs e' = (en_psubs e)(key \<mapsto> sub') \<and> dead_psub sub' \<and>
        ps_err sub' = err \<and> queued (ps_queue sub') = queued (ps_queue sub)) \<and>
     en_ssubs e' = en_ssubs e \<and> en_sections e' = en_sections e \<and> en_sectionSubs e' = en_sectionSubs e \<and>
     en_transport e' = en_transport e"

lemma finishPacketLocked_returns:
  assumes "subs_inv e" "key \<in> en_packets e"
  shows "returns (finishPacketLocked key err e) (\<lambda>e'. subs_inv e' \<and> evolves e e' \<and> finished_packet key err e e')"
proof -
  obtain sub where s: "en_psubs e key = Some sub" "live_psub sub"
    and f: "finishPacketLocked key err e = Inr (cancelIfEmptyLocked (e\<lparr>
            en_psubs := (en_psubs e)(key \<mapsto> sub\<lparr>ps_finished := True, ps_err := err,
               ps_queue := queue_close (ps_queue sub), ps_done := True\<rparr>),
            en_packets := en_packets e - {key},
            en_packetSubs := filter (\<lambda>i. i \<noteq> key) (en_packetSubs e)\<rparr>))"
    by (rule finishPacketLocked_live [OF assms])
  let ?sub = "sub\<lparr>ps_finished := True, ps_err := err, ps_queue := queue_close (ps_queue sub), ps_done := True\<rparr>"
  have q: "queue_ok (ps_queue sub)" using s(2) by (simp add: live_psub_def queue_within_def)
  have dead: "dead_psub ?sub"
    using s(2) queue_close_queued [OF q] by (simp add: live_psub_def dead_psub_def queue_within_close)
  have "subs_ok live_psub dead_psub (en_nextID e) ((en_psubs e)(key \<mapsto> ?sub)) (en_packets e - {key})
      (filter (\<lambda>i. i \<noteq> key) (en_packetSubs e))"
    using assms dead by (intro subs_ok_finish) (simp_all add: subs_inv_def)
  then have "returns (finishPacketLocked key err e) subs_inv"
    using assms(1) by (simp add: f) (simp add: subs_inv_def)
  moreover have "returns (finishPacketLocked key err e) (finished_packet key err e)"
    using s(1) dead queue_close_queued [OF q] by (auto simp: f finished_packet_def cancelIfEmptyLocked_frame)
  moreover have "returns (finishPacketLocked key err e) (evolves e)"
    unfolding f by (auto simp: evolves_def cancelIfEmptyLocked_def)
  ultimately show ?thesis by (auto simp: returns_def)
qed

definition finished_section ::
  "nat \<Rightarrow> fan_error option \<Rightarrow> ('s, 't, 'f, 'd) engine \<Rightarrow> ('s, 't, 'f, 'd) engine \<Rightarrow> bool" where
  "finished_section key err e e' \<longleftrightarrow>
     en_sections e' = en_sections e - {key} \<and>
     en_sectionSubs e' = filter (\<lambda>i. i \<noteq> key) (en_sectionSubs e) \<and>
     (\<exists>sub sub'. en_ssubs e key = Some sub \<and> en_ssubs e' = (en_ssubs e)(key \<mapsto> sub') \<and> dead_ssub sub' \<and>
        ss_accept sub' = ss_accept sub \<and> ss_err sub' = err \<and> ss_queue sub' = ss_queue sub) \<and>
     en_psubs e' = en_psubs e \<and> en_packets e' = en_packets e \<and> en_packetSubs e' = en_packetSubs e \<and>
     en_transport e' = en_transport e"

lemma finishSectionLocked_returns:
  assumes "subs_inv e" "key \<in> en_sections e"
  shows "returns (finishSectionLocked key err e) (\<lambda>e'. subs_inv e' \<and> evolves e e' \<and> finished_section key err e e')"
proof -
  obtain sub where s: "en_ssubs e key = Some sub" "live_ssub sub"
    using assms subs_ok_live unfolding subs_inv_def by blast
  let ?sub = "sub\<lparr>ss_finished := True, ss_err := err, ss_queueClosed := True, ss_done := True\<rparr>"
  let ?e = "e\<lparr>en_ssubs := (en_ssubs e)(key \<mapsto> ?sub), en_sections := en_sections e - {key},
            en_sectionSubs := filter (\<lambda>i. i \<noteq> key) (en_sectionSubs e)\<rparr>"
  have f: "finishSectionLocked key err e = Inr (cancelIfEmptyLocked ?e)"
    using assms(2) s by (simp add: finishSectionLocked_def live_ssub_def)
  have dead: "dead_ssub ?sub" using s(2) by (simp add: live_ssub_def dead_ssub_def)
  have "subs_ok live_ssub dead_ssub (en_nextID e) ((en_ssubs e)(key \<mapsto> ?sub)) (en_sections e - {key})
      (filter (\<lambda>i. i \<noteq> key) (en_sectionSubs e))"
    using assms dead by (intro subs_ok_finish) (simp_all add: subs_inv_def)
  then have "returns (finishSectionLocked key err e) subs_inv"
    using assms(1) by (simp add: f) (simp add: subs_inv_def)
  moreover have "returns (finishSectionLocked key err e) (finished_section key err e)"
    using s(1) dead by (auto simp: f finished_section_def cancelIfEmptyLocked_frame)
  moreover have "returns (finishSectionLocked key err e) (evolves e)"
    unfolding f by (auto simp: evolves_def cancelIfEmptyLocked_def)
  ultimately show ?thesis by (auto simp: returns_def)
qed

subsection \<open>Dispatching\<close>

lemma push_within:
  assumes "queue_within q"
  obtains d q' where "push SubscriberBufferBytes q p = Inr (d, q')" "queue_within q'"
    "queued q' = push_spec SubscriberBufferBytes (queued q) p" "pq_closed q' = pq_closed q"
proof -
  have "queue_ok q" "0 \<le> SubscriberBufferBytes" using assms by (simp_all add: queue_within_def SubscriberBufferBytes_def)
  then show thesis
    using push_queued [of q SubscriberBufferBytes p] push_spec_total [of SubscriberBufferBytes "queued q" p] that
    by (auto simp: returns_def queue_within_def)
qed

lemma enqueueLocked_live:
  assumes "live_psub sub"
  obtains sub' where "enqueueLocked sub p = Inr sub'" "live_psub sub'" "ps_filter sub' = ps_filter sub"
    "queued (ps_queue sub') = push_spec SubscriberBufferBytes (queued (ps_queue sub)) p"
proof -
  obtain d q' where q': "push SubscriberBufferBytes (ps_queue sub) p = Inr (d, q')" "queue_within q'"
    "queued q' = push_spec SubscriberBufferBytes (queued (ps_queue sub)) p" "pq_closed q' = pq_closed (ps_queue sub)"
    using push_within assms unfolding live_psub_def by metis
  have "returns (enqueueLocked sub p) (\<lambda>sub'. live_psub sub' \<and> ps_filter sub' = ps_filter sub \<and> ps_queue sub' = q')"
    using q' assms by (simp add: enqueueLocked_def Let_def live_psub_def)
  then show thesis using that q'(3) by (auto simp: returns_def)
qed

text \<open>What the dispatch of a packet did to the subscription \<open>sub\<close>.\<close>

definition served ::
  "('s, 't, 'f, 'd) transport \<Rightarrow> bytes \<Rightarrow> nat \<Rightarrow> ('f, 'd) packetSubscription \<Rightarrow> ('s, 't, 'f, 'd) engine \<Rightarrow> bool" where
  "served tr packet key sub e \<longleftrightarrow> (\<exists>sub'. en_psubs e key = Some sub' \<and>
     (case ps_filter sub of
        None \<Rightarrow> key \<in> en_packets e \<and>
          queued (ps_queue sub') = push_spec SubscriberBufferBytes (queued (ps_queue sub)) packet
      | Some f \<Rightarrow> (\<exists>t. case fst (tr_Packet tr t f packet) of
          Inl err \<Rightarrow> key \<notin> en_packets e \<and> ps_err sub' = Some err \<and> queued (ps_queue sub') = queued (ps_queue sub)
        | Inr None \<Rightarrow> key \<in> en_packets e \<and> queued (ps_queue sub') = queued (ps_queue sub)
        | Inr (Some filtered) \<Rightarrow> key \<in> en_packets e \<and>
            queued (ps_queue sub') = push_spec SubscriberBufferBytes (queued (ps_queue sub)) filtered)))"

text \<open>The subscriptions in \<open>todo\<close> are served and the others left alone.\<close>

definition serves_all ::
  "('s, 't, 'f, 'd) transport \<Rightarrow> bytes \<Rightarrow> nat set \<Rightarrow> ('s, 't, 'f, 'd) engine \<Rightarrow> ('s, 't, 'f, 'd) engine \<Rightarrow> bool" where
  "serves_all tr packet todo e e' \<longleftrightarrow>
     (\<forall>key sub. en_psubs e key = Some sub \<longrightarrow>
        (if key \<in> todo then served tr packet key sub e'
         else en_psubs e' key = Some sub \<and> (key \<in> en_packets e' \<longleftrightarrow> key \<in> en_packets e))) \<and>
     en_ssubs e' = en_ssubs e \<and> en_sections e' = en_sections e \<and> en_sectionSubs e' = en_sectionSubs e"

lemma serves_all_none: "serves_all tr packet {} e e"
  by (simp add: serves_all_def)

text \<open>One subscription served, then the rest.\<close>

lemma serves_all_step:
  assumes "key \<notin> todo" "en_psubs e key = Some sub" "served tr packet key sub e1"
    and same: "\<And>k. k \<noteq> key \<Longrightarrow> en_psubs e1 k = en_psubs e k \<and> (k \<in> en_packets e1 \<longleftrightarrow> k \<in> en_packets e)"
    and frame: "en_ssubs e1 = en_ssubs e" "en_sections e1 = en_sections e" "en_sectionSubs e1 = en_sectionSubs e"
    and rest: "serves_all tr packet todo e1 e'"
  shows "serves_all tr packet (insert key todo) e e'"
proof -
  obtain sub1 where sub1: "en_psubs e1 key = Some sub1" using assms(3) by (auto simp: served_def)
  then have keep: "en_psubs e' key = en_psubs e1 key" "key \<in> en_packets e' \<longleftrightarrow> key \<in> en_packets e1"
    using rest assms(1) by (auto simp: serves_all_def)
  have "served tr packet key sub e'" using assms(3) unfolding served_def keep .
  then have "if k \<in> insert key todo then served tr packet k u e'
      else en_psubs e' k = Some u \<and> (k \<in> en_packets e' \<longleftrightarrow> k \<in> en_packets e)"
    if "en_psubs e k = Some u" for k u
    using that assms(2) rest same [of k] by (cases "k = key") (auto simp: serves_all_def)
  moreover have "en_ssubs e' = en_ssubs e" "en_sections e' = en_sections e" "en_sectionSubs e' = en_sectionSubs e"
    using rest frame by (simp_all add: serves_all_def)
  ultimately show ?thesis unfolding serves_all_def by blast
qed

text \<open>An engine with one stored packet subscription rewritten.\<close>

lemma subs_inv_put:
  assumes "subs_inv e" "key \<in> en_packets e" "live_psub sub"
  shows "subs_inv (e\<lparr>en_psubs := (en_psubs e)(key \<mapsto> sub)\<rparr>)"
    "subs_inv (e\<lparr>en_transport := t, en_psubs := (en_psubs e)(key \<mapsto> sub)\<rparr>)"
proof -
  have "subs_ok live_psub dead_psub (en_nextID e) ((en_psubs e)(key \<mapsto> sub)) (en_packets e) (en_packetSubs e)"
    using assms by (intro subs_ok_update) (simp_all add: subs_inv_def)
  then show "subs_inv (e\<lparr>en_psubs := (en_psubs e)(key \<mapsto> sub)\<rparr>)"
    "subs_inv (e\<lparr>en_transport := t, en_psubs := (en_psubs e)(key \<mapsto> sub)\<rparr>)"
    using assms(1) by (simp_all add: subs_inv_def)
qed

lemma subs_inv_calls [simp]: "subs_inv (e\<lparr>en_calls := c\<rparr>) = subs_inv e" "subs_inv (e\<lparr>en_transport := t\<rparr>) = subs_inv e"
  by (simp_all add: subs_inv_def)

lemma evolves_put [simp]:
  "evolves e (e\<lparr>en_psubs := p\<rparr>)" "evolves e (e\<lparr>en_transport := t, en_psubs := p\<rparr>)"
  "evolves e (e\<lparr>en_ssubs := q\<rparr>)" "evolves e (e\<lparr>en_calls := c\<rparr>)" "evolves e (e\<lparr>en_transport := t\<rparr>)"
  by (auto simp: evolves_def)

text \<open>The effect of one pass of the dispatch loop on the subscription it is at.\<close>

lemma dispatch_pass:
  assumes inv: "subs_inv e" and i: "i < length (en_packetSubs e)"
  defines "key \<equiv> en_packetSubs e ! i"
  obtains sub e1 j where
    "dispatch_packet tr packet (Suc fuel) i e = dispatch_packet tr packet fuel j e1"
    "en_psubs e key = Some sub" "served tr packet key sub e1" "subs_inv e1" "evolves e e1"
    "drop j (en_packetSubs e1) = drop (Suc i) (en_packetSubs e)" "length (en_packetSubs e1) - j = length (en_packetSubs e) - Suc i"
    "\<And>k. k \<noteq> key \<Longrightarrow> en_psubs e1 k = en_psubs e k \<and> (k \<in> en_packets e1 \<longleftrightarrow> k \<in> en_packets e)"
    "en_ssubs e1 = en_ssubs e" "en_sections e1 = en_sections e" "en_sectionSubs e1 = en_sectionSubs e"
proof -
  have ids: "subs_ok live_psub dead_psub (en_nextID e) (en_psubs e) (en_packets e) (en_packetSubs e)"
    using inv by (simp add: subs_inv_def)
  have key: "key \<in> en_packets e" using subs_ok_nth [OF ids i] by (simp add: key_def)
  obtain sub where sub: "en_psubs e key = Some sub" "live_psub sub" using subs_ok_live [OF ids key] by auto
  note step = dispatch_packet.simps [of tr packet "Suc fuel" i e]
  show thesis
  proof (cases "ps_filter sub")
    case None
    obtain sub' where s: "enqueueLocked sub packet = Inr sub'" "live_psub sub'"
      "queued (ps_queue sub') = push_spec SubscriberBufferBytes (queued (ps_queue sub)) packet"
      using enqueueLocked_live [OF sub(2), of packet] by metis
    let ?e = "e\<lparr>en_psubs := (en_psubs e)(key \<mapsto> sub')\<rparr>"
    have "dispatch_packet tr packet (Suc fuel) i e = dispatch_packet tr packet fuel (Suc i) ?e"
      using step i sub(1) None s(1) by (simp add: key_def [symmetric] Let_def)
    moreover have "served tr packet key sub ?e" using None s(3) key by (simp add: served_def)
    ultimately show thesis
      using subs_inv_put(1) [OF inv key s(2)] sub(1) by (intro that [of "Suc i" ?e]) simp_all
  next
    case (Some f)
    obtain result f' t where r: "tr_Packet tr (en_transport e) f packet = (result, f', t)"
      by (metis prod_cases3)
    let ?sub = "sub\<lparr>ps_filter := Some f'\<rparr>"
    let ?e = "e\<lparr>en_transport := t, en_psubs := (en_psubs e)(key \<mapsto> ?sub)\<rparr>"
    have live: "live_psub ?sub" using sub(2) by (simp add: live_psub_def)
    note inv1 = subs_inv_put(2) [OF inv key live, of t]
    have eq: "dispatch_packet tr packet (Suc fuel) i e = (case result of
        Inl err \<Rightarrow> rbind (finishPacketLocked key (Some err) ?e) (dispatch_packet tr packet fuel i)
      | Inr None \<Rightarrow> dispatch_packet tr packet fuel (i + 1) ?e
      | Inr (Some filtered) \<Rightarrow> rbind (enqueueLocked ?sub filtered) (\<lambda>sub.
          dispatch_packet tr packet fuel (i + 1) (?e\<lparr>en_psubs := (en_psubs ?e)(key \<mapsto> sub)\<rparr>)))"
      using step i sub(1) Some r by (simp add: key_def [symmetric] Let_def)
    have sv: "served tr packet key sub e1" if "en_psubs e1 key = Some sub1" "case result of
        Inl err \<Rightarrow> key \<notin> en_packets e1 \<and> ps_err sub1 = Some err \<and> queued (ps_queue sub1) = queued (ps_queue sub)
      | Inr None \<Rightarrow> key \<in> en_packets e1 \<and> queued (ps_queue sub1) = queued (ps_queue sub)
      | Inr (Some filtered) \<Rightarrow> key \<in> en_packets e1 \<and>
          queued (ps_queue sub1) = push_spec SubscriberBufferBytes (queued (ps_queue sub)) filtered" for e1 sub1
      using that Some r unfolding served_def by (intro exI [of _ sub1]) (auto intro!: exI [of _ "en_transport e"])
    show thesis
    proof (cases result)
      case (Inl err)
      obtain e1 where e1: "finishPacketLocked key (Some err) ?e = Inr e1" "subs_inv e1" "evolves ?e e1"
        "finished_packet key (Some err) ?e e1"
        using finishPacketLocked_returns [OF inv1, of key "Some err"] key by (auto simp: returns_def)
      have d: "distinct (en_packetSubs e)" using ids by (simp add: subs_ok_def)
      have "en_packetSubs e1 = filter (\<lambda>k. k \<noteq> en_packetSubs e ! i) (en_packetSubs e)"
        using e1(4) by (simp add: finished_packet_def key_def)
      then have dr: "drop i (en_packetSubs e1) = drop (Suc i) (en_packetSubs e)"
        "length (en_packetSubs e1) = length (en_packetSubs e) - 1"
        using drop_removed [OF d i] by simp_all
      have "evolves e e1" using evolves_trans [OF evolves_put(2) e1(3)] .
      moreover have "served tr packet key sub e1"
        using e1(4) Inl by (auto simp: finished_packet_def intro!: sv)
      ultimately show thesis
        using eq Inl e1 dr sub(1) by (intro that [of i e1]) (auto simp: finished_packet_def)
    next
      case (Inr out)
      show thesis
      proof (cases out)
        case None
        have "served tr packet key sub ?e" using Inr None key by (intro sv [of _ ?sub]) simp_all
        then show thesis using eq Inr None inv1 sub(1) by (intro that [of "Suc i" ?e]) simp_all
      next
        case (Some filtered)
        obtain sub' where s: "enqueueLocked ?sub filtered = Inr sub'" "live_psub sub'"
          "queued (ps_queue sub') = push_spec SubscriberBufferBytes (queued (ps_queue ?sub)) filtered"
          using enqueueLocked_live [OF live, of filtered] by metis
        let ?e1 = "?e\<lparr>en_psubs := (en_psubs ?e)(key \<mapsto> sub')\<rparr>"
        have "served tr packet key sub ?e1" using Inr Some key s(3) by (intro sv [of _ sub']) simp_all
        moreover have "subs_inv ?e1" using subs_inv_put(2) [OF inv key s(2), of t] by simp
        ultimately show thesis using eq Inr Some s(1) sub(1) by (intro that [of "Suc i" ?e1]) simp_all
      qed
    qed
  qed
qed

lemma dispatch_packet_returns:
  "subs_inv e \<Longrightarrow> length (en_packetSubs e) \<le> i + fuel \<Longrightarrow>
   returns (dispatch_packet tr packet fuel i e) (\<lambda>e'. subs_inv e' \<and> evolves e e' \<and>
     serves_all tr packet (set (drop i (en_packetSubs e))) e e')"
proof (induction fuel arbitrary: i e)
  case 0
  then show ?case by (subst dispatch_packet.simps) (simp add: serves_all_none)
next
  case (Suc fuel)
  show ?case
  proof (cases "i < length (en_packetSubs e)")
    case False
    then show ?thesis using Suc.prems by (subst dispatch_packet.simps) (simp add: serves_all_none)
  next
    case True
    let ?key = "en_packetSubs e ! i"
    obtain sub e1 j where p:
      "dispatch_packet tr packet (Suc fuel) i e = dispatch_packet tr packet fuel j e1"
      "en_psubs e ?key = Some sub" "served tr packet ?key sub e1" "subs_inv e1" "evolves e e1"
      "drop j (en_packetSubs e1) = drop (Suc i) (en_packetSubs e)"
      "length (en_packetSubs e1) - j = length (en_packetSubs e) - Suc i"
      "\<And>k. k \<noteq> ?key \<Longrightarrow> en_psubs e1 k = en_psubs e k \<and> (k \<in> en_packets e1 \<longleftrightarrow> k \<in> en_packets e)"
      "en_ssubs e1 = en_ssubs e" "en_sections e1 = en_sections e" "en_sectionSubs e1 = en_sectionSubs e"
      using dispatch_pass [OF Suc.prems(1) True, of tr packet fuel] by metis
    have "distinct (en_packetSubs e)" using Suc.prems(1) by (simp add: subs_inv_def subs_ok_def)
    then have new: "?key \<notin> set (drop (Suc i) (en_packetSubs e))" using True by (rule nth_not_in_drop)
    have todo: "set (drop i (en_packetSubs e)) = insert ?key (set (drop (Suc i) (en_packetSubs e)))"
      using True by (metis Cons_nth_drop_Suc list.simps(15))
    have "length (en_packetSubs e1) \<le> j + fuel" using p(7) Suc.prems(2) True by linarith
    from Suc.IH [OF p(4) this]
    show ?thesis unfolding p(1) p(6) todo
    proof (rule returns_mono)
      fix e' assume "subs_inv e' \<and> evolves e1 e' \<and> serves_all tr packet (set (drop (Suc i) (en_packetSubs e))) e1 e'"
      then show "subs_inv e' \<and> evolves e e' \<and>
          serves_all tr packet (insert ?key (set (drop (Suc i) (en_packetSubs e)))) e e'"
        using evolves_trans [OF p(5)] serves_all_step [OF new p(2,3,8-11)] by blast
    qed
  qed
qed

text \<open>Signaling: what a dispatched unit did to a subscription.\<close>

definition informed :: "'s \<Rightarrow> nat \<Rightarrow> 's sectionSubscription \<Rightarrow> ('s, 't, 'f, 'd) engine \<Rightarrow> bool" where
  "informed sct key sub e \<longleftrightarrow> (\<exists>sub'. en_ssubs e key = Some sub' \<and> ss_accept sub' = ss_accept sub \<and>
     (if (case ss_accept sub of None \<Rightarrow> False | Some accept \<Rightarrow> \<not> accept sct)
      then key \<in> en_sections e \<and> ss_queue sub' = ss_queue sub
      else if length (ss_queue sub) < sectionSubscriberBuffer
      then key \<in> en_sections e \<and> ss_queue sub' = ss_queue sub @ [sct]
      else key \<notin> en_sections e \<and> ss_queue sub' = ss_queue sub \<and> ss_err sub' = Some ErrSubscriberOverflow))"

definition informs_all ::
  "'s \<Rightarrow> nat set \<Rightarrow> ('s, 't, 'f, 'd) engine \<Rightarrow> ('s, 't, 'f, 'd) engine \<Rightarrow> bool" where
  "informs_all sct todo e e' \<longleftrightarrow>
     (\<forall>key sub. en_ssubs e key = Some sub \<longrightarrow>
        (if key \<in> todo then informed sct key sub e'
         else en_ssubs e' key = Some sub \<and> (key \<in> en_sections e' \<longleftrightarrow> key \<in> en_sections e))) \<and>
     en_psubs e' = en_psubs e \<and> en_packets e' = en_packets e \<and> en_packetSubs e' = en_packetSubs e"

lemma informs_all_none: "informs_all sct {} e e"
  by (simp add: informs_all_def)

lemma informs_all_step:
  assumes "key \<notin> todo" "en_ssubs e key = Some sub" "informed sct key sub e1"
    and same: "\<And>k. k \<noteq> key \<Longrightarrow> en_ssubs e1 k = en_ssubs e k \<and> (k \<in> en_sections e1 \<longleftrightarrow> k \<in> en_sections e)"
    and frame: "en_psubs e1 = en_psubs e" "en_packets e1 = en_packets e" "en_packetSubs e1 = en_packetSubs e"
    and rest: "informs_all sct todo e1 e'"
  shows "informs_all sct (insert key todo) e e'"
proof -
  obtain sub1 where sub1: "en_ssubs e1 key = Some sub1" using assms(3) by (auto simp: informed_def)
  then have keep: "en_ssubs e' key = en_ssubs e1 key" "key \<in> en_sections e' \<longleftrightarrow> key \<in> en_sections e1"
    using rest assms(1) by (auto simp: informs_all_def)
  have "informed sct key sub e'" using assms(3) unfolding informed_def keep .
  then have "if k \<in> insert key todo then informed sct k u e'
      else en_ssubs e' k = Some u \<and> (k \<in> en_sections e' \<longleftrightarrow> k \<in> en_sections e)"
    if "en_ssubs e k = Some u" for k u
    using that assms(2) rest same [of k] by (cases "k = key") (auto simp: informs_all_def)
  moreover have "en_psubs e' = en_psubs e" "en_packets e' = en_packets e" "en_packetSubs e' = en_packetSubs e"
    using rest frame by (simp_all add: informs_all_def)
  ultimately show ?thesis unfolding informs_all_def by blast
qed

lemma subs_inv_put_section:
  assumes "subs_inv e" "key \<in> en_sections e" "live_ssub sub"
  shows "subs_inv (e\<lparr>en_ssubs := (en_ssubs e)(key \<mapsto> sub)\<rparr>)"
proof -
  have "subs_ok live_ssub dead_ssub (en_nextID e) ((en_ssubs e)(key \<mapsto> sub)) (en_sections e) (en_sectionSubs e)"
    using assms by (intro subs_ok_update) (simp_all add: subs_inv_def)
  then show ?thesis using assms(1) by (simp add: subs_inv_def)
qed

lemma dispatch_section_pass:
  assumes inv: "subs_inv e" and i: "i < length (en_sectionSubs e)"
  defines "key \<equiv> en_sectionSubs e ! i"
  obtains sub e1 j where
    "dispatch_section sct (Suc fuel) i e = dispatch_section sct fuel j e1"
    "en_ssubs e key = Some sub" "informed sct key sub e1" "subs_inv e1" "evolves e e1"
    "drop j (en_sectionSubs e1) = drop (Suc i) (en_sectionSubs e)"
    "length (en_sectionSubs e1) - j = length (en_sectionSubs e) - Suc i"
    "\<And>k. k \<noteq> key \<Longrightarrow> en_ssubs e1 k = en_ssubs e k \<and> (k \<in> en_sections e1 \<longleftrightarrow> k \<in> en_sections e)"
    "en_psubs e1 = en_psubs e" "en_packets e1 = en_packets e" "en_packetSubs e1 = en_packetSubs e"
proof -
  have ids: "subs_ok live_ssub dead_ssub (en_nextID e) (en_ssubs e) (en_sections e) (en_sectionSubs e)"
    using inv by (simp add: subs_inv_def)
  have key: "key \<in> en_sections e" using subs_ok_nth [OF ids i] by (simp add: key_def)
  obtain sub where sub: "en_ssubs e key = Some sub" "live_ssub sub" using subs_ok_live [OF ids key] by auto
  let ?skip = "case ss_accept sub of None \<Rightarrow> False | Some accept \<Rightarrow> \<not> accept sct"
  let ?sub = "sub\<lparr>ss_queue := ss_queue sub @ [sct]\<rparr>"
  let ?e = "e\<lparr>en_ssubs := (en_ssubs e)(key \<mapsto> ?sub)\<rparr>"
  have step: "dispatch_section sct (Suc fuel) i e =
      (if ?skip then dispatch_section sct fuel (i + 1) e
       else if length (ss_queue sub) < sectionSubscriberBuffer then dispatch_section sct fuel (i + 1) ?e
       else rbind (finishSectionLocked key (Some ErrSubscriberOverflow) e) (dispatch_section sct fuel i))"
    using i sub by (subst dispatch_section.simps) (simp add: key_def [symmetric] Let_def live_ssub_def)
  show thesis
  proof (cases "?skip \<or> length (ss_queue sub) < sectionSubscriberBuffer")
    case True
    show thesis
    proof (cases ?skip)
      case True
      then have "informed sct key sub e" using sub(1) key unfolding informed_def by (auto simp only: if_True)
      then show thesis using step True inv sub(1) by (intro that [of "Suc i" e]) simp_all
    next
      case False
      then have len: "length (ss_queue sub) < sectionSubscriberBuffer" using True by blast
      then have "live_ssub ?sub" using sub(2) by (simp add: live_ssub_def)
      then have "subs_inv ?e" by (rule subs_inv_put_section [OF inv key])
      moreover have "informed sct key sub ?e" using False len key unfolding informed_def by simp
      ultimately show thesis using step False len sub(1) by (intro that [of "Suc i" ?e]) simp_all
    qed
  next
    case False
    then have st: "dispatch_section sct (Suc fuel) i e =
        rbind (finishSectionLocked key (Some ErrSubscriberOverflow) e) (dispatch_section sct fuel i)"
      using step by (simp del: if_split)
    obtain e1 where e1: "finishSectionLocked key (Some ErrSubscriberOverflow) e = Inr e1" "subs_inv e1" "evolves e e1"
      "finished_section key (Some ErrSubscriberOverflow) e e1"
      using finishSectionLocked_returns [OF inv key, of "Some ErrSubscriberOverflow"] by (auto simp: returns_def)
    have d: "distinct (en_sectionSubs e)" using ids by (simp add: subs_ok_def)
    have "en_sectionSubs e1 = filter (\<lambda>k. k \<noteq> en_sectionSubs e ! i) (en_sectionSubs e)"
      using e1(4) by (simp add: finished_section_def key_def)
    then have dr: "drop i (en_sectionSubs e1) = drop (Suc i) (en_sectionSubs e)"
      "length (en_sectionSubs e1) = length (en_sectionSubs e) - 1"
      using drop_removed [OF d i] by simp_all
    have "informed sct key sub e1"
      using e1(4) False sub(1) unfolding finished_section_def informed_def by (auto simp del: if_split)
    then show thesis using st e1 dr sub(1) by (intro that [of i e1]) (auto simp: finished_section_def)
  qed
qed

lemma dispatch_section_returns:
  "subs_inv e \<Longrightarrow> length (en_sectionSubs e) \<le> i + fuel \<Longrightarrow>
   returns (dispatch_section sct fuel i e) (\<lambda>e'. subs_inv e' \<and> evolves e e' \<and>
     informs_all sct (set (drop i (en_sectionSubs e))) e e')"
proof (induction fuel arbitrary: i e)
  case 0
  then show ?case by (subst dispatch_section.simps) (simp add: informs_all_none)
next
  case (Suc fuel)
  show ?case
  proof (cases "i < length (en_sectionSubs e)")
    case False
    then show ?thesis using Suc.prems by (subst dispatch_section.simps) (simp add: informs_all_none)
  next
    case True
    let ?key = "en_sectionSubs e ! i"
    obtain sub e1 j where p:
      "dispatch_section sct (Suc fuel) i e = dispatch_section sct fuel j e1"
      "en_ssubs e ?key = Some sub" "informed sct ?key sub e1" "subs_inv e1" "evolves e e1"
      "drop j (en_sectionSubs e1) = drop (Suc i) (en_sectionSubs e)"
      "length (en_sectionSubs e1) - j = length (en_sectionSubs e) - Suc i"
      "\<And>k. k \<noteq> ?key \<Longrightarrow> en_ssubs e1 k = en_ssubs e k \<and> (k \<in> en_sections e1 \<longleftrightarrow> k \<in> en_sections e)"
      "en_psubs e1 = en_psubs e" "en_packets e1 = en_packets e" "en_packetSubs e1 = en_packetSubs e"
      using dispatch_section_pass [OF Suc.prems(1) True, of sct fuel] by metis
    have "distinct (en_sectionSubs e)" using Suc.prems(1) by (simp add: subs_inv_def subs_ok_def)
    then have new: "?key \<notin> set (drop (Suc i) (en_sectionSubs e))" using True by (rule nth_not_in_drop)
    have todo: "set (drop i (en_sectionSubs e)) = insert ?key (set (drop (Suc i) (en_sectionSubs e)))"
      using True by (metis Cons_nth_drop_Suc list.simps(15))
    have "length (en_sectionSubs e1) \<le> j + fuel" using p(7) Suc.prems(2) True by linarith
    from Suc.IH [OF p(4) this]
    show ?thesis unfolding p(1) p(6) todo
    proof (rule returns_mono)
      fix e' assume "subs_inv e' \<and> evolves e1 e' \<and> informs_all sct (set (drop (Suc i) (en_sectionSubs e))) e1 e'"
      then show "subs_inv e' \<and> evolves e e' \<and>
          informs_all sct (insert ?key (set (drop (Suc i) (en_sectionSubs e)))) e e'"
        using evolves_trans [OF p(5)] informs_all_step [OF new p(2,3,8-11)] by blast
    qed
  qed
qed

lemma subs_inv_section_set: "subs_inv e \<Longrightarrow> set (en_sectionSubs e) = en_sections e"
  by (simp add: subs_inv_def subs_ok_def)

lemma subs_inv_packet_set: "subs_inv e \<Longrightarrow> set (en_packetSubs e) = en_packets e"
  by (simp add: subs_inv_def subs_ok_def)

lemma dispatch_sections_returns:
  "subs_inv e \<Longrightarrow> returns (dispatch_sections scts e) (\<lambda>e'. subs_inv e' \<and> evolves e e' \<and>
     en_psubs e' = en_psubs e \<and> en_packets e' = en_packets e \<and> en_packetSubs e' = en_packetSubs e)"
proof (induction scts arbitrary: e)
  case Nil
  then show ?case by simp
next
  case (Cons sct scts)
  let ?e = "e\<lparr>en_calls := en_calls e @ map (\<lambda>n. SectionHook n sct) [0..<en_onSections e]\<rparr>"
  obtain e1 where e1: "dispatch_section sct (length (en_sectionSubs ?e)) 0 ?e = Inr e1" "subs_inv e1" "evolves ?e e1"
    "en_psubs e1 = en_psubs e" "en_packets e1 = en_packets e" "en_packetSubs e1 = en_packetSubs e"
    using dispatch_section_returns [of ?e 0 "length (en_sectionSubs ?e)" sct] Cons.prems
    by (auto simp: returns_def informs_all_def)
  have ev: "evolves e e1" using evolves_trans [OF evolves_put(4) e1(3)] .
  have "dispatch_sections (sct # scts) e = dispatch_sections scts e1" using e1(1) by (simp add: Let_def)
  then show ?case using returns_mono [OF Cons.IH [OF e1(2)]] e1(4-6) evolves_trans [OF ev] by simp
qed

lemma served_cong:
  assumes "en_psubs e' = en_psubs e" "en_packets e' = en_packets e"
  shows "served tr packet key sub e' = served tr packet key sub e"
  unfolding served_def assms ..

lemma dispatchLocked_returns:
  assumes "subs_inv e"
  shows "returns (dispatchLocked tr packet scts e) (\<lambda>e'. subs_inv e' \<and> evolves e e' \<and>
    (\<forall>key \<in> en_packets e. served tr packet key (the (en_psubs e key)) e'))"
proof -
  let ?e = "e\<lparr>en_calls := en_calls e @ map (\<lambda>n. PacketHook n packet) [0..<en_onPackets e]\<rparr>"
  obtain e1 where e1: "dispatch_packet tr packet (length (en_packetSubs ?e)) 0 ?e = Inr e1" "subs_inv e1" "evolves ?e e1"
    "serves_all tr packet (set (en_packetSubs e)) ?e e1"
    using dispatch_packet_returns [of ?e 0 "length (en_packetSubs ?e)" tr packet] assms by (auto simp: returns_def)
  have ev: "evolves e e1" using evolves_trans [OF evolves_put(4) e1(3)] .
  have sv: "served tr packet key (the (en_psubs e key)) e1" if "key \<in> en_packets e" for key
  proof -
    obtain sub where "en_psubs e key = Some sub" using subs_inv_live [OF assms \<open>key \<in> en_packets e\<close>] by blast
    then show ?thesis using e1(4) that subs_inv_packet_set [OF assms] by (simp add: serves_all_def)
  qed
  have "dispatchLocked tr packet scts e = dispatch_sections scts e1" using e1(1) by (simp add: dispatchLocked_def Let_def)
  moreover have "returns (dispatch_sections scts e1) (\<lambda>e'. subs_inv e' \<and> evolves e e' \<and>
    (\<forall>key \<in> en_packets e. served tr packet key (the (en_psubs e key)) e'))"
    by (rule returns_mono [OF dispatch_sections_returns [OF e1(2)]])
      (use sv evolves_trans [OF ev] served_cong in blast)
  ultimately show ?thesis by simp
qed

subsection \<open>Closing\<close>

lemma finish_packets_returns:
  "subs_inv e \<Longrightarrow> length (en_packetSubs e) \<le> fuel \<Longrightarrow>
   returns (finish_packets fuel err e) (\<lambda>e'. subs_inv e' \<and> evolves e e' \<and> en_packets e' = {} \<and>
     en_sections e' = en_sections e \<and> en_sectionSubs e' = en_sectionSubs e)"
proof (induction fuel arbitrary: e)
  case 0
  then have "en_packets e = {}" using subs_inv_packet_set [of e] by simp
  then show ?case using 0 by (subst finish_packets.simps) simp
next
  case (Suc fuel)
  show ?case
  proof (cases "en_packetSubs e")
    case Nil
    then have "en_packets e = {}" using subs_inv_packet_set [OF Suc.prems(1)] by simp
    then show ?thesis using Nil Suc.prems by (subst finish_packets.simps) simp
  next
    case (Cons key ids)
    then have "key \<in> en_packets e" using subs_inv_packet_set [OF Suc.prems(1)] by auto
    from finishPacketLocked_returns [OF Suc.prems(1) this, of err] obtain e1 where
      e1: "finishPacketLocked key err e = Inr e1" "subs_inv e1" "evolves e e1" "finished_packet key err e e1"
      by (auto simp: returns_def)
    have "en_packetSubs e1 = filter (\<lambda>i. i \<noteq> key) ids" "en_sections e1 = en_sections e"
      "en_sectionSubs e1 = en_sectionSubs e"
      using e1(4) Cons by (simp_all add: finished_packet_def)
    moreover have "length (filter (\<lambda>i. i \<noteq> key) ids) \<le> fuel"
      using Suc.prems(2) Cons by (intro order.trans [OF length_filter_le]) simp
    moreover have "finish_packets (Suc fuel) err e = finish_packets fuel err e1"
      using e1(1) Cons by (subst finish_packets.simps) simp
    ultimately show ?thesis
      using returns_mono [OF Suc.IH [OF e1(2)]] evolves_trans [OF e1(3)] by simp
  qed
qed

lemma finish_sections_returns:
  "subs_inv e \<Longrightarrow> length (en_sectionSubs e) \<le> fuel \<Longrightarrow>
   returns (finish_sections fuel err e) (\<lambda>e'. subs_inv e' \<and> evolves e e' \<and> en_sections e' = {})"
proof (induction fuel arbitrary: e)
  case 0
  then have "en_sections e = {}" using subs_inv_section_set [of e] by simp
  then show ?case using 0 by (subst finish_sections.simps) simp
next
  case (Suc fuel)
  show ?case
  proof (cases "en_sectionSubs e")
    case Nil
    then have "en_sections e = {}" using subs_inv_section_set [OF Suc.prems(1)] by simp
    then show ?thesis using Nil Suc.prems by (subst finish_sections.simps) simp
  next
    case (Cons key ids)
    then have "key \<in> en_sections e" using subs_inv_section_set [OF Suc.prems(1)] by auto
    from finishSectionLocked_returns [OF Suc.prems(1) this, of err] obtain e1 where
      e1: "finishSectionLocked key err e = Inr e1" "subs_inv e1" "evolves e e1" "finished_section key err e e1"
      by (auto simp: returns_def)
    have "en_sectionSubs e1 = filter (\<lambda>i. i \<noteq> key) ids" using e1(4) Cons by (simp add: finished_section_def)
    moreover have "length (filter (\<lambda>i. i \<noteq> key) ids) \<le> fuel"
      using Suc.prems(2) Cons by (intro order.trans [OF length_filter_le]) simp
    moreover have "finish_sections (Suc fuel) err e = finish_sections fuel err e1"
      using e1(1) Cons by (subst finish_sections.simps) simp
    ultimately show ?thesis
      using returns_mono [OF Suc.IH [OF e1(2)]] evolves_trans [OF e1(3)] by simp
  qed
qed

lemma engine_close_returns:
  assumes "engine_inv e"
  shows "returns (engine_close err e) (\<lambda>e'. engine_inv e' \<and> en_done e' \<and> en_packets e' = {} \<and> en_sections e' = {} \<and>
    (\<not> en_done e \<longrightarrow> en_err e' = err))"
proof (cases "en_once e")
  case True
  then show ?thesis using assms by (simp add: engine_close_def engine_inv_def life_inv_def)
next
  case False
  let ?e = "e\<lparr>en_once := True, en_err := err, en_stopped := True\<rparr>"
  have life: "life_inv e" "subs_inv ?e" using assms by (simp_all add: engine_inv_def subs_inv_def)
  obtain e1 where e1: "finish_packets (length (en_packetSubs ?e)) err ?e = Inr e1" "subs_inv e1" "evolves ?e e1"
    "en_packets e1 = {}"
    using finish_packets_returns [OF life(2) order_refl, of err] by (auto simp: returns_def)
  obtain e2 where e2: "finish_sections (length (en_sectionSubs e1)) err e1 = Inr e2" "subs_inv e2" "evolves e1 e2"
    "en_sections e2 = {}"
    using finish_sections_returns [OF e1(2) order_refl, of err] by (auto simp: returns_def)
  have ev: "evolves ?e e2" using e1(3) e2(3) by (rule evolves_trans)
  have "en_packets e2 = {}" using e2(3) e1(4) by (auto simp: evolves_def)
  moreover have "\<not> en_done e2" "en_onEmpty e2 = 0" "en_err e2 = err" "en_stopped e2" "en_once e2" "en_cancel e2 = en_started e2"
    using ev life(1) False by (auto simp: evolves_def life_inv_def)
  moreover have "subs_inv (e2\<lparr>en_done := True, en_onEmpty := n\<rparr>)" for n using e2(2) by (simp add: subs_inv_def)
  moreover have "engine_close err e = (if en_done e2 then Inl Panic
      else Inr (e2\<lparr>en_done := True, en_onEmpty := en_onEmpty e2 + 1\<rparr>))"
    using False e1(1) e2(1) by (simp add: engine_close_def Let_def del: if_split)
  ultimately show ?thesis using e2(4) by (simp add: engine_inv_def life_inv_def)
qed

subsection \<open>Every operation keeps the invariant\<close>

lemma engine_inv_New: "engine_inv (New t)"
  by (simp add: engine_inv_def subs_inv_def life_inv_def New_def subs_ok_def)

lemma startLocked_inv: "subs_inv e \<Longrightarrow> subs_inv (startLocked e)" "life_inv e \<Longrightarrow> life_inv (startLocked e)"
  by (simp_all add: startLocked_def subs_inv_def life_inv_def)

lemma new_packet_subscription_live: "live_psub (new_packet_subscription tr t sid)"
  by (simp add: live_psub_def new_packet_subscription_def Let_def queue_within_def new_queue_ok SubscriberBufferBytes_def)
    (simp add: newPacketQueue_def)

lemma attachPacket_inv:
  assumes "engine_inv e"
  shows "engine_inv (snd (attachPacket tr sid e))"
proof (cases "en_stopped e")
  case False
  let ?e = "e\<lparr>en_nextID := en_nextID e + 1,
      en_psubs := (en_psubs e)(en_nextID e \<mapsto> new_packet_subscription tr (en_transport e) sid),
      en_packets := insert (en_nextID e) (en_packets e), en_packetSubs := en_packetSubs e @ [en_nextID e]\<rparr>"
  have "subs_ok live_psub dead_psub (en_nextID ?e) (en_psubs ?e) (en_packets ?e) (en_packetSubs ?e)"
    using assms by simp (rule subs_ok_attach [unfolded Suc_eq_plus1 [symmetric]],
      simp add: engine_inv_def subs_inv_def, rule new_packet_subscription_live)
  moreover have "subs_ok live_ssub dead_ssub (en_nextID ?e) (en_ssubs ?e) (en_sections ?e) (en_sectionSubs ?e)"
    using assms by (simp add: engine_inv_def subs_inv_def subs_ok_Suc [unfolded Suc_eq_plus1 [symmetric]])
  ultimately have "subs_inv ?e" by (simp only: subs_inv_def)
  moreover have "life_inv ?e" using assms False by (auto simp: engine_inv_def life_inv_def)
  ultimately show ?thesis using False by (simp add: attachPacket_def Let_def engine_inv_def startLocked_inv)
qed (use assms in \<open>simp add: attachPacket_def\<close>)

lemma new_section_subscription_live: "live_ssub (new_section_subscription accept)"
  by (simp add: live_ssub_def new_section_subscription_def)

lemma attachSection_inv:
  assumes "engine_inv e"
  shows "engine_inv (snd (attachSection accept start e))"
proof (cases "en_stopped e")
  case False
  let ?e = "e\<lparr>en_nextID := en_nextID e + 1, en_ssubs := (en_ssubs e)(en_nextID e \<mapsto> new_section_subscription accept),
      en_sections := insert (en_nextID e) (en_sections e), en_sectionSubs := en_sectionSubs e @ [en_nextID e]\<rparr>"
  have "subs_ok live_ssub dead_ssub (en_nextID ?e) (en_ssubs ?e) (en_sections ?e) (en_sectionSubs ?e)"
    using assms by simp (rule subs_ok_attach [unfolded Suc_eq_plus1 [symmetric]],
      simp add: engine_inv_def subs_inv_def, rule new_section_subscription_live)
  moreover have "subs_ok live_psub dead_psub (en_nextID ?e) (en_psubs ?e) (en_packets ?e) (en_packetSubs ?e)"
    using assms by (simp add: engine_inv_def subs_inv_def subs_ok_Suc [unfolded Suc_eq_plus1 [symmetric]])
  ultimately have "subs_inv ?e" by (simp only: subs_inv_def)
  moreover have "life_inv ?e" using assms False by (auto simp: engine_inv_def life_inv_def)
  ultimately show ?thesis using False by (simp add: attachSection_def Let_def engine_inv_def startLocked_inv)
qed (use assms in \<open>simp add: attachSection_def\<close>)

lemma finishPacket_inv:
  assumes "engine_inv e"
  shows "returns (finishPacketLocked key err e) engine_inv"
proof (cases "key \<in> en_packets e")
  case True
  then show ?thesis using assms evolves_life
    by (intro returns_mono [OF finishPacketLocked_returns]) (auto simp: engine_inv_def)
qed (use assms in \<open>simp add: finishPacketLocked_gone\<close>)

lemma finishSection_inv:
  assumes "engine_inv e"
  shows "returns (finishSectionLocked key err e) engine_inv"
proof (cases "key \<in> en_sections e")
  case True
  then show ?thesis using assms evolves_life
    by (intro returns_mono [OF finishSectionLocked_returns]) (auto simp: engine_inv_def)
qed (use assms in \<open>simp add: finishSectionLocked_def\<close>)

lemma dispatchLocked_inv:
  assumes "engine_inv e"
  shows "returns (dispatchLocked tr packet scts e) engine_inv"
  by (rule returns_mono [OF dispatchLocked_returns]) (use assms evolves_life in \<open>auto simp: engine_inv_def\<close>)

lemma engine_inv_transport: "engine_inv e \<Longrightarrow> engine_inv (e\<lparr>en_transport := t\<rparr>)"
  by (simp add: engine_inv_def life_inv_def)

lemma run_packet_inv:
  assumes "engine_inv e"
  shows "returns (run_packet tr packet e) engine_inv"
proof (cases "tr_Feed tr (en_transport e) packet")
  case (Pair r t)
  note inv = engine_inv_transport [OF assms, of t]
  show ?thesis
  proof (cases r)
    case (Inl err)
    then show ?thesis using Pair returns_mono [OF engine_close_returns [OF inv]] by (simp add: run_packet_def)
  next
    case (Inr scts)
    then show ?thesis using Pair dispatchLocked_inv [OF inv] by (simp add: run_packet_def)
  qed
qed

lemma Stop_inv:
  assumes "engine_inv e"
  shows "returns (Stop e) engine_inv"
proof -
  have inv: "engine_inv (e\<lparr>en_stopped := True\<rparr>)" "engine_inv (e\<lparr>en_stopped := True, en_canceled := True\<rparr>)"
    using assms by (simp_all add: engine_inv_def subs_inv_def life_inv_def)
  show ?thesis using assms inv returns_mono [OF engine_close_returns [OF inv(1)]] by (simp add: Stop_def Let_def)
qed

lemma take_pass_within:
  assumes "queue_within q"
  shows "returns (take_pass mx q dst) (\<lambda>(r, q'). queue_within q' \<and> pq_closed q' = pq_closed q)"
proof -
  have ok: "queue_ok q" using assms by (simp add: queue_within_def)
  have "total (drop n (queued q)) \<le> SubscriberBufferBytes" for n
    using total_suffix [OF suffix_drop] assms by (fastforce simp: queue_within_def intro: order.trans)
  then show ?thesis
    by (intro returns_mono [OF take_pass_queued [OF ok]])
      (auto simp: queue_within_def SubscriberBufferBytes_def split: if_split_asm)
qed

lemma observe_batch_frame:
  "ps_queue (observe_batch tr ps sub) = ps_queue sub" "ps_finished (observe_batch tr ps sub) = ps_finished sub"
  "ps_done (observe_batch tr ps sub) = ps_done sub"
  by (induction ps arbitrary: sub) (simp_all add: Let_def split_beta)

lemma subs_inv_write:
  assumes "engine_inv e" "en_psubs e key = Some sub" "ps_finished sub' = ps_finished sub" "ps_done sub' = ps_done sub"
    "queue_within (ps_queue sub')" "pq_closed (ps_queue sub') = pq_closed (ps_queue sub)"
  shows "engine_inv (e\<lparr>en_psubs := (en_psubs e)(key \<mapsto> sub')\<rparr>)"
proof -
  have "subs_ok live_psub dead_psub (en_nextID e) ((en_psubs e)(key \<mapsto> sub')) (en_packets e) (en_packetSubs e)"
    using assms by (intro subs_ok_write [where v = sub])
      (simp_all add: engine_inv_def subs_inv_def live_psub_def dead_psub_def)
  then show ?thesis using assms(1) by (simp add: engine_inv_def subs_inv_def life_inv_def)
qed

lemma writePackets_inv:
  assumes "engine_inv e" "en_psubs e key = Some sub"
  shows "returns (writePackets tr key e) (\<lambda>(_, e'). engine_inv e')"
proof -
  have "live_psub sub \<or> dead_psub sub"
    using assms unfolding engine_inv_def subs_inv_def subs_ok_def by fastforce
  then have "queue_within (ps_queue sub)" by (auto simp: live_psub_def dead_psub_def)
  from take_pass_within [OF this, of packetWriteBatchBytes "[]"] obtain r q where
    q: "take_pass packetWriteBatchBytes (ps_queue sub) [] = Inr (r, q)" "queue_within q"
      "pq_closed q = pq_closed (ps_queue sub)"
    by (auto simp: returns_def)
  have inv: "engine_inv (e\<lparr>en_psubs := (en_psubs e)(key \<mapsto> sub')\<rparr>)"
    if "ps_queue sub' = q" "ps_finished sub' = ps_finished sub" "ps_done sub' = ps_done sub" for sub'
    using that q(2,3) by (intro subs_inv_write [OF assms]) simp_all
  show ?thesis
    using q(1) assms(2) by (cases r) (auto simp: writePackets_def Let_def observe_batch_frame intro!: inv)
qed

lemma writeSections_inv:
  assumes "engine_inv e" "en_ssubs e key = Some sub"
  shows "returns (writeSections key e) (\<lambda>(_, e'). engine_inv e')"
proof -
  have inv: "engine_inv (e\<lparr>en_ssubs := (en_ssubs e)(key \<mapsto> sub')\<rparr>)"
    if "ss_finished sub' = ss_finished sub" "ss_done sub' = ss_done sub" "ss_queueClosed sub' = ss_queueClosed sub"
      "length (ss_queue sub') \<le> length (ss_queue sub)" for sub'
  proof -
    have "subs_ok live_ssub dead_ssub (en_nextID e) ((en_ssubs e)(key \<mapsto> sub')) (en_sections e) (en_sectionSubs e)"
      using assms that by (intro subs_ok_write [where v = sub])
        (simp_all add: engine_inv_def subs_inv_def live_ssub_def dead_ssub_def)
    then show ?thesis using assms(1) by (simp add: engine_inv_def subs_inv_def life_inv_def)
  qed
  show ?thesis using assms by (cases "ss_queue sub") (auto simp: writeSections_def intro!: inv)
qed

subsection \<open>Reachable engines\<close>

inductive engine_step :: "('s, 't, 'f, 'd) transport \<Rightarrow> ('s, 't, 'f, 'd) engine \<Rightarrow> ('s, 't, 'f, 'd) engine \<Rightarrow> bool" for tr where
  es_hook_packets: "engine_step tr e (WithPackets n e)"
| es_hook_sections: "engine_step tr e (WithSections n e)"
| es_attach_packet: "engine_step tr e (snd (attachPacket tr serviceID e))"
| es_attach_section: "engine_step tr e (snd (attachSection accept start e))"
| es_packet: "run_packet tr packet e = Inr e' \<Longrightarrow> engine_step tr e e'"
| es_finish_packet: "finishPacketLocked key err e = Inr e' \<Longrightarrow> engine_step tr e e'"
| es_finish_section: "finishSectionLocked key err e = Inr e' \<Longrightarrow> engine_step tr e e'"
| es_write_packets: "writePackets tr key e = Inr (out, e') \<Longrightarrow> engine_step tr e e'"
| es_write_sections: "writeSections key e = Inr (unit, e') \<Longrightarrow> engine_step tr e e'"
| es_stop: "Stop e = Inr e' \<Longrightarrow> engine_step tr e e'"
| es_close: "engine_close err e = Inr e' \<Longrightarrow> engine_step tr e e'"

lemma engine_inv_hooks: "engine_inv e \<Longrightarrow> engine_inv (WithPackets n e)" "engine_inv e \<Longrightarrow> engine_inv (WithSections n e)"
  by (simp_all add: WithPackets_def WithSections_def engine_inv_def subs_inv_def life_inv_def)

lemma engine_step_inv: "engine_step tr e e' \<Longrightarrow> engine_inv e \<Longrightarrow> engine_inv e'"
proof (induction rule: engine_step.induct)
  case (es_write_packets key e out e')
  then obtain sub where "en_psubs e key = Some sub" by (auto simp: writePackets_def split: option.splits)
  then show ?case using es_write_packets writePackets_inv [of e key sub tr] by (simp add: returns_def)
next
  case (es_write_sections key e unit e')
  then obtain sub where "en_ssubs e key = Some sub" by (auto simp: writeSections_def split: option.splits)
  then show ?case using es_write_sections writeSections_inv [of e key sub] by (simp add: returns_def)
next
  case (es_packet packet e e')
  then show ?case using run_packet_inv [of e tr packet] by (simp add: returns_def)
next
  case (es_finish_packet key err e e')
  then show ?case using finishPacket_inv [of e key err] by (simp add: returns_def)
next
  case (es_finish_section key err e e')
  then show ?case using finishSection_inv [of e key err] by (simp add: returns_def)
next
  case (es_stop e e')
  then show ?case using Stop_inv [of e] by (simp add: returns_def)
next
  case (es_close err e e')
  then show ?case using engine_close_returns [of e err] by (simp add: returns_def)
qed (simp_all add: attachPacket_inv attachSection_inv engine_inv_hooks)

lemma engine_reachable_inv: "(engine_step tr)\<^sup>*\<^sup>* (New t) e \<Longrightarrow> engine_inv e"
  by (induction rule: rtranclp_induct) (auto intro: engine_inv_New engine_step_inv)

lemma writePackets_stopped:
  assumes "writePackets tr key e = Inr (out, e')"
  shows "en_stopped e' = en_stopped e"
proof -
  obtain sub r q where s: "en_psubs e key = Some sub" "take_pass packetWriteBatchBytes (ps_queue sub) [] = Inr (r, q)"
    using assms by (auto simp: writePackets_def rbind_eq_Inr_iff split: option.splits)
  then show ?thesis using assms by (cases r) (auto simp: writePackets_def Let_def)
qed

lemma engine_step_stopped:
  assumes "engine_step tr e e'" "engine_inv e" "en_stopped e"
  shows "en_stopped e'"
  using assms
proof (induction rule: engine_step.induct)
  case (es_packet packet e e')
  have inv: "subs_inv (e\<lparr>en_transport := t\<rparr>)" "engine_inv (e\<lparr>en_transport := t\<rparr>)" for t
    using es_packet(2) engine_inv_transport [OF es_packet(2)] by (simp_all add: engine_inv_def)
  obtain r t where r: "tr_Feed tr (en_transport e) packet = (r, t)" by fastforce
  show ?case
  proof (cases r)
    case (Inl err)
    then show ?thesis using es_packet r engine_close_returns [OF inv(2) [of t], of "Some err"]
      by (auto simp: run_packet_def returns_def engine_inv_def life_inv_def)
  next
    case (Inr scts)
    then show ?thesis using es_packet r dispatchLocked_returns [OF inv(1) [of t], of tr packet scts]
      by (auto simp: run_packet_def returns_def evolves_def)
  qed
next
  case (es_close err e e')
  then show ?case using engine_close_returns [of e err] by (auto simp: returns_def engine_inv_def life_inv_def)
qed (auto simp: WithPackets_def WithSections_def attachPacket_def attachSection_def finishPacketLocked_def
    finishSectionLocked_def cancelIfEmptyLocked_def writePackets_stopped writeSections_def Stop_def Let_def
    split: option.split_asm list.split_asm if_split_asm)

text \<open>A finished subscription's writer, pass after pass, until it ends.\<close>

fun drain :: "('s, 't, 'f, 'd) transport \<Rightarrow> nat \<Rightarrow> nat \<Rightarrow> ('s, 't, 'f, 'd) engine \<Rightarrow> unit fault + (bytes \<times> ('s, 't, 'f, 'd) engine)" where
  "drain tr key 0 e = Inr ([], e)"
| "drain tr key (Suc n) e =
     rbind (writePackets tr key e) (\<lambda>(out, e).
       case out of
         None \<Rightarrow> Inr ([], e)
       | Some buf \<Rightarrow> rbind (drain tr key n e) (\<lambda>(rest, e). Inr (buf @ rest, e)))"

lemma batch_pos: "ps \<noteq> [] \<Longrightarrow> 0 < batch mx 0 ps"
  by (cases ps) simp_all

lemma writePackets_closed:
  assumes "en_psubs e key = Some sub" "queue_within (ps_queue sub)" "pq_closed (ps_queue sub)"
  shows "returns (writePackets tr key e) (\<lambda>(out, e'). \<exists>sub'. en_psubs e' key = Some sub' \<and>
    queue_within (ps_queue sub') \<and> pq_closed (ps_queue sub') \<and>
    (if queued (ps_queue sub) = [] then out = None \<and> ps_writerDone sub' \<and> queued (ps_queue sub') = []
     else (\<exists>n > 0. out = Some (concat (take n (queued (ps_queue sub)))) \<and>
       queued (ps_queue sub') = drop n (queued (ps_queue sub)))))"
proof -
  let ?q = "ps_queue sub"
  obtain r q where q: "take_pass packetWriteBatchBytes ?q [] = Inr (r, q)" "queue_within q" "pq_closed q"
    using take_pass_within [OF assms(2), of packetWriteBatchBytes "[]"] assms(3) by (auto simp: returns_def)
  have r: "if queued ?q \<noteq> []
     then r = Taken (take (batch packetWriteBatchBytes 0 (queued ?q)) (queued ?q)) \<and>
       queued q = drop (batch packetWriteBatchBytes 0 (queued ?q)) (queued ?q)
     else r = Drained [] \<and> queued q = []"
    using take_pass_queued [of ?q packetWriteBatchBytes "[]"] q(1) assms(2,3)
    by (auto simp: returns_def queue_within_def split: if_split_asm)
  show ?thesis
  proof (cases "queued ?q = []")
    case True
    then show ?thesis using r q assms(1) by (simp add: writePackets_def Let_def)
  next
    case False
    then show ?thesis using r q assms(1) batch_pos [OF False, of packetWriteBatchBytes]
      by (auto simp: writePackets_def Let_def observe_batch_frame)
  qed
qed

lemma drain_closed:
  "en_psubs e key = Some sub \<Longrightarrow> queue_within (ps_queue sub) \<Longrightarrow> pq_closed (ps_queue sub) \<Longrightarrow>
   length (queued (ps_queue sub)) < n \<Longrightarrow>
   returns (drain tr key n e) (\<lambda>(out, e'). out = concat (queued (ps_queue sub)) \<and>
     (\<exists>sub'. en_psubs e' key = Some sub' \<and> ps_writerDone sub' \<and> queued (ps_queue sub') = []))"
proof (induction n arbitrary: e sub)
  case (Suc n)
  note w = writePackets_closed [OF Suc.prems(1-3), of tr]
  show ?case
  proof (cases "queued (ps_queue sub) = []")
    case True
    then show ?thesis using w by (auto simp: returns_def)
  next
    case False
    then obtain k e1 sub1 where k: "k > 0" "writePackets tr key e = Inr (Some (concat (take k (queued (ps_queue sub)))), e1)"
      "en_psubs e1 key = Some sub1" "queue_within (ps_queue sub1)" "pq_closed (ps_queue sub1)"
      "queued (ps_queue sub1) = drop k (queued (ps_queue sub))"
      using w by (auto simp: returns_def)
    have "length (queued (ps_queue sub1)) < n" using k(1,6) False Suc.prems(4) by (cases "queued (ps_queue sub)") auto
    from Suc.IH [OF k(3-5) this] obtain e2 sub2 where
      d: "drain tr key n e1 = Inr (concat (drop k (queued (ps_queue sub))), e2)" "en_psubs e2 key = Some sub2"
        "ps_writerDone sub2" "queued (ps_queue sub2) = []"
      by (auto simp: returns_def k(6))
    have "concat (take k (queued (ps_queue sub))) @ concat (drop k (queued (ps_queue sub))) = concat (queued (ps_queue sub))"
      by (metis append_take_drop_id concat_append)
    then show ?thesis using k(2) d by simp
  qed
qed simp

subsection \<open>Properties\<close>

text \<open>
  C4. The engine never panics and never hangs: whatever sequence of attachments, packets, ends of
  subscriptions, writer passes and stops an engine has been through, the next packet is dispatched
  to the end (no channel is closed twice or sent to after its close, no loop over the subscribers
  fails to end), and so are finishing a subscriber and closing the engine.
\<close>

theorem engine_never_fails:
  assumes "(engine_step tr)\<^sup>*\<^sup>* (New t) e"
  shows "engine_inv e \<and> returns (run_packet tr packet e) engine_inv \<and>
    returns (finishPacketLocked key err e) engine_inv \<and> returns (finishSectionLocked key err e) engine_inv \<and>
    returns (Stop e) engine_inv \<and> returns (engine_close err e) engine_inv"
  using engine_reachable_inv [OF assms] run_packet_inv finishPacket_inv finishSection_inv Stop_inv
    returns_mono [OF engine_close_returns] by blast

definition demo_transport :: "(bytes, nat, uint16, nat) transport" where
  "demo_transport = \<lparr>tr_Feed = (\<lambda>t p. (if p = [] then Inl (External ''empty'') else Inr [p], t + 1)),
     tr_NewFilter = (\<lambda>t s. s),
     tr_Packet = (\<lambda>t f p. (if p = [0] then Inl (External ''gone'') else Inr (if f = 1 then Some p else None), f, t)),
     tr_NewDropDetector = 0, tr_FilterDropDetector = (\<lambda>f. None), tr_Observe = (\<lambda>d p. (False, d + 1))\<rparr>"

definition demo_engine :: "(bytes, nat, uint16, nat) engine" where
  "demo_engine = snd (attachPacket demo_transport (Some 1) (snd (attachPacket demo_transport None (New 0))))"

lemma demo_engine_reachable: "(engine_step demo_transport)\<^sup>*\<^sup>* (New 0) demo_engine"
  unfolding demo_engine_def by (rule rtranclp.rtrancl_into_rtrancl [OF r_into_rtranclp]; rule es_attach_packet)

theorem engine_never_fails_witness:
  "returns (run_packet demo_transport [0] demo_engine) engine_inv"
  using engine_never_fails [OF demo_engine_reachable] by blast

text \<open>
  C5. Subscribers do not disturb each other: a packet reaches the queue of every attached
  subscriber that takes the whole stream, whatever the others' filters do and however full their
  queues are; a filtering subscriber gets what its filter returns or nothing, and is detached, with
  the filter's error and its queued packets kept, only when its own filter fails.
\<close>

theorem dispatch_isolates_subscribers:
  assumes "(engine_step tr)\<^sup>*\<^sup>* (New t) e"
  shows "returns (dispatchLocked tr packet scts e) (\<lambda>e'.
    \<forall>key sub. key \<in> en_packets e \<and> en_psubs e key = Some sub \<longrightarrow> (\<exists>sub'. en_psubs e' key = Some sub' \<and>
      (case ps_filter sub of
         None \<Rightarrow> key \<in> en_packets e' \<and>
           queued (ps_queue sub') = push_spec SubscriberBufferBytes (queued (ps_queue sub)) packet
       | Some f \<Rightarrow> (\<exists>t. case fst (tr_Packet tr t f packet) of
           Inl err \<Rightarrow> key \<notin> en_packets e' \<and> ps_err sub' = Some err \<and> queued (ps_queue sub') = queued (ps_queue sub)
         | Inr None \<Rightarrow> key \<in> en_packets e' \<and> queued (ps_queue sub') = queued (ps_queue sub)
         | Inr (Some filtered) \<Rightarrow> key \<in> en_packets e' \<and>
             queued (ps_queue sub') = push_spec SubscriberBufferBytes (queued (ps_queue sub)) filtered))))"
proof -
  have "subs_inv e" using engine_reachable_inv [OF assms] by (simp add: engine_inv_def)
  from dispatchLocked_returns [OF this] show ?thesis
    by (rule returns_mono) (use served_def in fastforce)
qed

theorem dispatch_isolates_subscribers_witness:
  "returns (dispatchLocked demo_transport [0] [] demo_engine) (\<lambda>e'.
     \<exists>sub'. en_psubs e' 0 = Some sub' \<and> 0 \<in> en_packets e' \<and> queued (ps_queue sub') = [[0]])"
proof (rule returns_mono [OF dispatch_isolates_subscribers [OF demo_engine_reachable]], elim allE impE)
  show "0 \<in> en_packets demo_engine \<and> en_psubs demo_engine 0 = Some (new_packet_subscription demo_transport 0 None)"
    by (simp add: demo_engine_def attachPacket_def New_def Let_def startLocked_def)
qed (auto simp: new_packet_subscription_def Let_def new_queue_ok push_spec_def SubscriberBufferBytes_def)

text \<open>
  C20. The engine's life: it is stopped once its last subscriber has left, a stopped engine never
  takes a subscriber again and never restarts, and the callback that reports it empty runs exactly
  once, when the engine is closed and every subscriber has been finished.
\<close>

theorem engine_lifecycle:
  assumes "(engine_step tr)\<^sup>*\<^sup>* (New t) e"
  shows "(en_packets e = {} \<and> en_sections e = {} \<and> en_nextID e > 0 \<longrightarrow> Stopped e) \<and>
    (Stopped e \<longrightarrow> attachPacket tr serviceID e = (Inl ErrStopped, e) \<and> attachSection accept start e = (Inl ErrStopped, e)) \<and>
    (\<forall>e'. engine_step tr e e' \<and> Stopped e \<longrightarrow> Stopped e') \<and>
    en_onEmpty e = (if en_done e then 1 else 0) \<and>
    (en_done e \<longrightarrow> Stopped e \<and> en_packets e = {} \<and> en_sections e = {} \<and>
       (\<forall>key sub. en_psubs e key = Some sub \<longrightarrow> ps_done sub \<and> pq_closed (ps_queue sub)) \<and>
       (\<forall>key sub. en_ssubs e key = Some sub \<longrightarrow> ss_done sub \<and> ss_queueClosed sub))"
proof -
  have inv: "subs_inv e" "life_inv e" using engine_reachable_inv [OF assms] by (simp_all add: engine_inv_def)
  then show ?thesis using engine_step_stopped [of tr e] engine_reachable_inv [OF assms]
    by (auto simp: life_inv_def Stopped_def attachPacket_def attachSection_def subs_inv_def subs_ok_def dead_psub_def dead_ssub_def)
qed

definition demo_stopped :: "(bytes, nat, uint16, nat) engine" where
  "demo_stopped = (New 0)\<lparr>en_once := True, en_stopped := True, en_done := True, en_onEmpty := 1\<rparr>"

lemma demo_stopped_reachable: "(engine_step demo_transport)\<^sup>*\<^sup>* (New 0) demo_stopped"
proof -
  have "Stop (New 0) = Inr demo_stopped"
    by (simp add: Stop_def engine_close_def New_def demo_stopped_def Let_def finish_packets.simps finish_sections.simps)
  then show ?thesis by (intro r_into_rtranclp es_stop)
qed

theorem engine_lifecycle_witness:
  "Stopped demo_stopped \<and> attachPacket demo_transport (Some 2) demo_stopped = (Inl ErrStopped, demo_stopped) \<and>
   en_onEmpty demo_stopped = 1"
  using engine_lifecycle [OF demo_stopped_reachable, of "Some 2" None True]
  by (simp add: Stopped_def demo_stopped_def)


lemma demo_finished:
  obtains e sub where "(engine_step demo_transport)\<^sup>*\<^sup>* (New 0) e" "en_psubs e 0 = Some sub" "0 \<notin> en_packets e"
    "queued (ps_queue sub) = [[7, 7]]"
proof -
  let ?e = "demo_engine\<lparr>en_transport := 1\<rparr>" and ?sub = "new_packet_subscription demo_transport 0 None"
  have demo: "0 \<in> en_packets ?e" "en_psubs ?e 0 = Some ?sub" "en_transport demo_engine = 0"
    by (simp_all add: demo_engine_def attachPacket_def New_def Let_def startLocked_def)
  have inv: "subs_inv ?e" using engine_reachable_inv [OF demo_engine_reachable] by (simp add: engine_inv_def)
  obtain e1 where e1: "dispatchLocked demo_transport [7, 7] [[7, 7]] ?e = Inr e1" "subs_inv e1"
    "served demo_transport [7, 7] 0 ?sub e1"
    using dispatchLocked_returns [OF inv, of demo_transport "[7, 7]" "[[7, 7]]"] demo(1,2) by (auto simp: returns_def)
  have "run_packet demo_transport [7, 7] demo_engine = Inr e1"
    using e1(1) demo(3) by (simp add: run_packet_def demo_transport_def)
  then have r1: "(engine_step demo_transport)\<^sup>*\<^sup>* (New 0) e1"
    using demo_engine_reachable by (blast intro: rtranclp.rtrancl_into_rtrancl es_packet)
  obtain sub1 where s1: "en_psubs e1 0 = Some sub1" "0 \<in> en_packets e1" "queued (ps_queue sub1) = [[7, 7]]"
    using e1(3) by (auto simp: served_def new_packet_subscription_def Let_def new_queue_ok push_spec_def SubscriberBufferBytes_def)
  obtain e2 where e2: "finishPacketLocked 0 None e1 = Inr e2" "finished_packet 0 None e1 e2"
    using finishPacketLocked_returns [OF e1(2) s1(2), of None] by (auto simp: returns_def)
  have "(engine_step demo_transport)\<^sup>*\<^sup>* (New 0) e2"
    using r1 e2(1) by (blast intro: rtranclp.rtrancl_into_rtrancl es_finish_packet)
  then show thesis using that [of e2] e2(2) s1 by (auto simp: finished_packet_def)
qed


end
