(* ===== verification/JobManager.thy ===== *)
theory JobManager
  imports Prelude
begin

section \<open>The job manager\<close>

text \<open>
  \<open>internal/job/manager.go\<close> and \<open>job.go\<close>: jobs are queued, dispatched by priority within
  concurrency limits and key locks, retried after a delay, aborted and kept in a bounded history.

  The manager's lock makes every method one step, so a method is a function of the manager's state.
  A job is an object that the history, the queue and the goroutine running it share: \<open>jm_jobs\<close>
  stores the jobs by their id (a UUID, given by the caller of the model and required to be fresh
  where a job is created), the history and the queue hold ids. The handler of a job is code of its
  owner: its outcome is an argument of \<open>run_done\<close>. Times are arguments. A result is carried
  as the text of its JSON encoding. Go maps whose absent keys
  read as zero are total functions (\<open>jm_groupRunning\<close>, \<open>jm_activeSharedKeys\<close>, \<open>jm_groupLimits\<close>),
  maps to \<open>true\<close> are sets or, where the code walks over them, lists. The cron scheduler, metrics
  and log lines are left out; a change notification is an entry of \<open>jm_events\<close>.
\<close>

datatype JobStatus = StatusQueued | StatusStandby | StatusRunning | StatusFinished

datatype handler_error = Canceled | Failed string

datatype JobError = ErrDefinitionNotFound | ErrInvalidDefinition | ErrManagerShutdown | ErrJobNotFound
  | ErrJobNotRunning | ErrJobNotRerunnable | ErrJobAlreadyRunning

record JobDefinition =
  jd_Key :: string
  jd_Name :: string
  jd_Handler :: bool
  jd_DependsOn :: "string list"
  jd_ExclusiveKeys :: "string list"
  jd_SharedKeys :: "string list"
  jd_ConcurrencyGroup :: string
  jd_Priority :: int
  jd_IsRerunnable :: bool
  jd_RetryDelays :: "int list"
  jd_RetryIf :: "(handler_error \<Rightarrow> bool) option"

record Job =
  jb_ID :: string
  jb_Key :: string
  jb_Name :: string
  jb_Status :: JobStatus
  jb_RetryCount :: nat
  jb_IsAborting :: bool
  jb_HasAborted :: bool
  jb_HasSkipped :: bool
  jb_HasFailed :: bool
  jb_Error :: string
  jb_Result :: "string option"
  jb_CreatedAt :: int
  jb_UpdatedAt :: int
  jb_StartedAt :: "int option"
  jb_FinishedAt :: "int option"
  jb_NextRunAt :: "int option"
  jb_definition :: JobDefinition
  jb_done :: bool

record Manager =
  jm_definitions :: "string \<rightharpoonup> JobDefinition"
  jm_jobs :: "string \<rightharpoonup> Job"
  jm_history :: "string list"
  jm_queue :: "string list"
  jm_active :: "string set"
  jm_canceled :: "string set"
  jm_activeKeys :: "string set"
  jm_activeExclusiveKeys :: "string set"
  jm_activeSharedKeys :: "string \<Rightarrow> int"
  jm_running :: int
  jm_maxConcurrent :: int
  jm_groupLimits :: "string \<Rightarrow> int"
  jm_independentGroups :: "string list"
  jm_groupRunning :: "string \<Rightarrow> int"
  jm_manualSchedules :: "string \<rightharpoonup> string"
  jm_maxHistory :: int
  jm_shutdown :: bool
  jm_events :: "(string \<times> string \<times> JobStatus) list"

type_synonym 'a job_step = "JobError fault + 'a"

record Config =
  cfg_MaxHistory :: int
  cfg_MaxConcurrentJobs :: int
  cfg_GroupLimits :: "string \<Rightarrow> int"
  cfg_IndependentGroups :: "string list"

definition NewManager :: "Config \<Rightarrow> Manager" where
  "NewManager cfg =
     \<lparr>jm_definitions = Map.empty, jm_jobs = Map.empty, jm_history = [], jm_queue = [], jm_active = {},
      jm_canceled = {}, jm_activeKeys = {}, jm_activeExclusiveKeys = {}, jm_activeSharedKeys = (\<lambda>_. 0),
      jm_running = 0,
      jm_maxConcurrent = (if cfg_MaxConcurrentJobs cfg \<le> 0 then 1 else cfg_MaxConcurrentJobs cfg),
      jm_groupLimits = cfg_GroupLimits cfg, jm_independentGroups = cfg_IndependentGroups cfg,
      jm_groupRunning = (\<lambda>_. 0), jm_manualSchedules = Map.empty,
      jm_maxHistory = (if cfg_MaxHistory cfg \<le> 0 then 100 else cfg_MaxHistory cfg),
      jm_shutdown = False, jm_events = []\<rparr>"

definition Register :: "JobDefinition \<Rightarrow> Manager \<Rightarrow> Manager" where
  "Register def m = m\<lparr>jm_definitions := (jm_definitions m)(jd_Key def \<mapsto> def)\<rparr>"

definition AddManualSchedule :: "string \<Rightarrow> string \<Rightarrow> Manager \<Rightarrow> Manager" where
  "AddManualSchedule key description m = m\<lparr>jm_manualSchedules := (jm_manualSchedules m)(key \<mapsto> description)\<rparr>"

text \<open>Reading and writing a job through its pointer.\<close>

definition get_job :: "Manager \<Rightarrow> string \<Rightarrow> Job job_step" where
  "get_job m i = (case jm_jobs m i of None \<Rightarrow> Inl Panic | Some item \<Rightarrow> Inr item)"

definition put_job :: "string \<Rightarrow> Job \<Rightarrow> Manager \<Rightarrow> Manager" where
  "put_job i item m = m\<lparr>jm_jobs := (jm_jobs m)(i \<mapsto> item)\<rparr>"

definition job_of :: "Manager \<Rightarrow> string \<Rightarrow> Job" where
  "job_of m i = the (jm_jobs m i)"

definition def_of :: "Manager \<Rightarrow> string \<Rightarrow> JobDefinition" where
  "def_of m i = jb_definition (job_of m i)"

definition has_status :: "Manager \<Rightarrow> JobStatus \<Rightarrow> string \<Rightarrow> bool" where
  "has_status m st i = (case jm_jobs m i of None \<Rightarrow> False | Some item \<Rightarrow> jb_Status item = st)"

definition publishJobChangeLocked :: "string \<Rightarrow> string \<Rightarrow> Manager \<Rightarrow> Manager" where
  "publishJobChangeLocked typ i m = m\<lparr>jm_events := jm_events m @ [(typ, i, jb_Status (job_of m i))]\<rparr>"

text \<open>The history. Removing an entry shifts the rest of the array down in place.\<close>

fun remove_finished :: "Manager \<Rightarrow> string list \<Rightarrow> string list option" where
  "remove_finished m [] = None"
| "remove_finished m (i # is) =
     (if has_status m StatusFinished i then Some is
      else map_option (\<lambda>is. i # is) (remove_finished m is))"

lemma remove_finished_length: "remove_finished m is = Some is' \<Longrightarrow> length is = Suc (length is')"
  by (induction "is" arbitrary: is') (auto split: if_split_asm)

function trim :: "Manager \<Rightarrow> int \<Rightarrow> string list \<Rightarrow> string list" where
  "trim m mx history =
     (if glen history > mx then
        (case remove_finished m history of
           None \<Rightarrow> history
         | Some history \<Rightarrow> trim m mx history)
      else history)"
  by auto
termination
  by (relation "measure (\<lambda>(m, mx, history). length history)") (auto dest: remove_finished_length)

declare trim.simps [simp del]

definition trimHistory :: "Manager \<Rightarrow> Manager" where
  "trimHistory m = m\<lparr>jm_history := trim m (jm_maxHistory m) (jm_history m)\<rparr>"

definition addHistoryLocked :: "string \<Rightarrow> Manager \<Rightarrow> Manager" where
  "addHistoryLocked i m = trimHistory (m\<lparr>jm_history := jm_history m @ [i]\<rparr>)"

definition enqueueItemLocked :: "string \<Rightarrow> Manager \<Rightarrow> Manager" where
  "enqueueItemLocked i m = m\<lparr>jm_queue := jm_queue m @ [i]\<rparr>"

definition findJob :: "Manager \<Rightarrow> string \<Rightarrow> string option" where
  "findJob m i = (if i \<in> set (jm_history m) then Some i else None)"

text \<open>Choosing the next job.\<close>

definition shared_running :: "Manager \<Rightarrow> int" where
  "shared_running m = jm_running m - (\<Sum>g \<leftarrow> jm_independentGroups m. jm_groupRunning m g)"

definition group_limit :: "Manager \<Rightarrow> string \<Rightarrow> int" where
  "group_limit m g = (if g \<noteq> '''' then jm_groupLimits m g else jm_maxConcurrent m)"

definition within_limits :: "Manager \<Rightarrow> string \<Rightarrow> bool" where
  "within_limits m g \<longleftrightarrow>
     \<not> (g \<notin> set (jm_independentGroups m) \<and> shared_running m \<ge> jm_maxConcurrent m) \<and>
     \<not> (group_limit m g \<le> 0 \<or> jm_groupRunning m g \<ge> group_limit m g)"

definition blocks :: "Manager \<Rightarrow> JobDefinition \<Rightarrow> string \<Rightarrow> bool" where
  "blocks m def writer \<longleftrightarrow>
     jd_ExclusiveKeys (def_of m writer) \<noteq> [] \<and>
     list_all (\<lambda>dep. dep \<notin> jm_activeKeys m) (jd_DependsOn (def_of m writer)) \<and>
     list_ex (\<lambda>key. key \<in> set (jd_SharedKeys def)) (jd_ExclusiveKeys (def_of m writer))"

definition blockedByWriterLocked :: "Manager \<Rightarrow> string \<Rightarrow> bool" where
  "blockedByWriterLocked m i \<longleftrightarrow> list_ex (\<lambda>writer. writer \<noteq> i \<and> blocks m (def_of m i) writer) (jm_queue m)"

definition dependenciesSatisfiedLocked :: "Manager \<Rightarrow> JobDefinition \<Rightarrow> bool" where
  "dependenciesSatisfiedLocked m def \<longleftrightarrow>
     list_all (\<lambda>key. key \<notin> jm_activeKeys m) (jd_DependsOn def) \<and>
     list_all (\<lambda>key. key \<notin> jm_activeExclusiveKeys m \<and> \<not> jm_activeSharedKeys m key > 0) (jd_ExclusiveKeys def) \<and>
     list_all (\<lambda>key. key \<notin> jm_activeExclusiveKeys m) (jd_SharedKeys def)"

definition runnable :: "Manager \<Rightarrow> string \<Rightarrow> bool" where
  "runnable m i \<longleftrightarrow> within_limits m (jd_ConcurrencyGroup (def_of m i)) \<and>
     \<not> blockedByWriterLocked m i \<and> dependenciesSatisfiedLocked m (def_of m i)"

fun select_loop :: "Manager \<Rightarrow> string list \<Rightarrow> string option \<Rightarrow> string option" where
  "select_loop m [] selected = selected"
| "select_loop m (i # is) selected =
     (if \<not> runnable m i then select_loop m is selected
      else select_loop m is
        (case selected of
           None \<Rightarrow> Some i
         | Some s \<Rightarrow> if jd_Priority (def_of m i) > jd_Priority (def_of m s) then Some i else Some s))"

definition popRunnableQueueLocked :: "Manager \<Rightarrow> (string \<times> Manager) option" where
  "popRunnableQueueLocked m =
     (case select_loop m (jm_queue m) None of
        None \<Rightarrow> None
      | Some i \<Rightarrow> Some (i, m\<lparr>jm_queue := remove1 i (jm_queue m)\<rparr>))"

text \<open>Starting and completing.\<close>

definition startJobLocked :: "int \<Rightarrow> string \<Rightarrow> Manager \<Rightarrow> Manager job_step" where
  "startJobLocked now i m =
     rbind (get_job m i) (\<lambda>item.
       let def = jb_definition item;
           m = put_job i (item\<lparr>jb_Status := StatusRunning, jb_StartedAt := Some now, jb_UpdatedAt := now\<rparr>) m;
           m = m\<lparr>jm_active := insert i (jm_active m),
                 jm_canceled := jm_canceled m - {i},
                 jm_activeExclusiveKeys := jm_activeExclusiveKeys m \<union> set (jd_ExclusiveKeys def),
                 jm_activeSharedKeys := (\<lambda>key. jm_activeSharedKeys m key + int (count_list (jd_SharedKeys def) key)),
                 jm_running := jm_running m + 1,
                 jm_groupRunning := (jm_groupRunning m)(jd_ConcurrencyGroup def := jm_groupRunning m (jd_ConcurrencyGroup def) + 1)\<rparr>
       in Inr (publishJobChangeLocked ''update'' i m))"

definition completeActiveLocked :: "string \<Rightarrow> Manager \<Rightarrow> Manager job_step" where
  "completeActiveLocked i m =
     rbind (get_job m i) (\<lambda>item.
       let def = jb_definition item
       in Inr (m\<lparr>jm_active := jm_active m - {i},
                 jm_activeExclusiveKeys := jm_activeExclusiveKeys m - set (jd_ExclusiveKeys def),
                 jm_activeSharedKeys := (\<lambda>key. jm_activeSharedKeys m key - int (count_list (jd_SharedKeys def) key)),
                 jm_running := jm_running m - 1,
                 jm_groupRunning := (jm_groupRunning m)(jd_ConcurrencyGroup def := jm_groupRunning m (jd_ConcurrencyGroup def) - 1)\<rparr>))"

lemma select_loop_mem: "select_loop m is selected = Some i \<Longrightarrow> i \<in> set is \<or> selected = Some i"
  by (induction m "is" selected rule: select_loop.induct) (auto split: if_split_asm option.split_asm)

lemma popRunnable_length: "popRunnableQueueLocked m = Some (i, m') \<Longrightarrow> length (jm_queue m') < length (jm_queue m)"
  using select_loop_mem [of m "jm_queue m" None i]
  by (auto simp: popRunnableQueueLocked_def length_remove1 split: option.split_asm)
    (metis One_nat_def Suc_pred length_pos_if_in_set lessI)

lemma startJobLocked_queue: "startJobLocked now i m = Inr m' \<Longrightarrow> jm_queue m' = jm_queue m"
  by (auto simp: startJobLocked_def rbind_eq_Inr_iff Let_def publishJobChangeLocked_def put_job_def)

function dispatchLocked :: "int \<Rightarrow> Manager \<Rightarrow> Manager job_step" where
  "dispatchLocked now m =
     (if jm_queue m \<noteq> [] \<and> \<not> jm_shutdown m then
        (case popRunnableQueueLocked m of
           None \<Rightarrow> Inr m
         | Some (i, m) \<Rightarrow> rbind (startJobLocked now i m) (dispatchLocked now))
      else Inr m)"
  by auto
termination
  by (relation "measure (\<lambda>(now, m). length (jm_queue m))")
    (auto dest!: popRunnable_length simp: startJobLocked_queue)

declare dispatchLocked.simps [simp del]

text \<open>Finishing.\<close>

definition finishLocked :: "int \<Rightarrow> string \<Rightarrow> handler_error option \<Rightarrow> bool \<Rightarrow> Manager \<Rightarrow> Manager job_step" where
  "finishLocked now i err aborted m =
     rbind (get_job m i) (\<lambda>item.
       if jb_Status item = StatusFinished then Inr m
       else if jb_done item then Inl Panic
       else
         let item = item\<lparr>jb_Status := StatusFinished, jb_UpdatedAt := now, jb_FinishedAt := Some now,
               jb_NextRunAt := None, jb_HasAborted := jb_HasAborted item \<or> aborted\<rparr>;
             item = (case err of
                       Some (Failed e) \<Rightarrow>
                         if \<not> jb_HasAborted item then item\<lparr>jb_HasFailed := True, jb_Error := e\<rparr> else item
                     | _ \<Rightarrow> item);
             m = put_job i (item\<lparr>jb_done := True\<rparr>) m;
             m = m\<lparr>jm_activeKeys := jm_activeKeys m - {jb_Key item}\<rparr>
         in Inr (trimHistory (publishJobChangeLocked ''update'' i m)))"

definition shouldRetryLocked :: "Manager \<Rightarrow> Job \<Rightarrow> handler_error option \<Rightarrow> bool" where
  "shouldRetryLocked m item err =
     (case err of
        None \<Rightarrow> False
      | Some Canceled \<Rightarrow> False
      | Some e \<Rightarrow>
          if jb_RetryCount item \<ge> length (jd_RetryDelays (jb_definition item)) \<or> jm_shutdown m then False
          else (case jd_RetryIf (jb_definition item) of None \<Rightarrow> True | Some f \<Rightarrow> f e))"

definition error_text :: "handler_error \<Rightarrow> string" where
  "error_text e = (case e of Canceled \<Rightarrow> ''context canceled'' | Failed s \<Rightarrow> s)"

definition standbyLocked :: "int \<Rightarrow> string \<Rightarrow> handler_error option \<Rightarrow> Manager \<Rightarrow> Manager job_step" where
  "standbyLocked now i err m =
     rbind (get_job m i) (\<lambda>item.
     rbind (idx (jd_RetryDelays (jb_definition item)) (int (jb_RetryCount item))) (\<lambda>delay.
       (case err of
          None \<Rightarrow> Inl Panic
        | Some e \<Rightarrow>
            Inr (publishJobChangeLocked ''update'' i
              (put_job i (item\<lparr>jb_RetryCount := jb_RetryCount item + 1, jb_Status := StatusStandby, jb_UpdatedAt := now,
                 jb_NextRunAt := Some (now + delay), jb_Error := error_text e\<rparr>) m)))))"

text \<open>The tail of \<open>run\<close>, once the handler has returned \<open>err\<close>.\<close>

definition run_done :: "int \<Rightarrow> string \<Rightarrow> handler_error option \<Rightarrow> Manager \<Rightarrow> Manager job_step" where
  "run_done now i err m =
     rbind (completeActiveLocked i m) (\<lambda>m.
     rbind (get_job m i) (\<lambda>item.
     rbind (if \<not> jb_HasAborted item \<and> shouldRetryLocked m item err
            then standbyLocked now i err m
            else finishLocked now i err (jb_HasAborted item) m)
       (dispatchLocked now)))"

definition retryToQueueLocked :: "int \<Rightarrow> string \<Rightarrow> Manager \<Rightarrow> Manager job_step" where
  "retryToQueueLocked now i m =
     rbind (get_job m i) (\<lambda>item.
       Inr (publishJobChangeLocked ''update'' i (enqueueItemLocked i
         (put_job i (item\<lparr>jb_Status := StatusQueued, jb_UpdatedAt := now, jb_NextRunAt := None\<rparr>) m))))"

text \<open>The goroutine of a job on standby, once its timer has fired.\<close>

definition retry_timer :: "int \<Rightarrow> string \<Rightarrow> Manager \<Rightarrow> Manager job_step" where
  "retry_timer now i m =
     rbind (get_job m i) (\<lambda>item.
       if jb_Status item \<noteq> StatusStandby \<or> jb_HasAborted item \<or> jm_shutdown m then Inr m
       else rbind (retryToQueueLocked now i m) (dispatchLocked now))"

text \<open>Enqueueing. \<open>uuid\<close> is the id the new job gets.\<close>

definition enqueueLocked :: "int \<Rightarrow> string \<Rightarrow> JobDefinition \<Rightarrow> Manager \<Rightarrow> (string \<times> Manager) job_step" where
  "enqueueLocked now uuid def m =
     (if jm_shutdown m then Inl (Err ErrManagerShutdown)
      else if jd_Key def = '''' \<or> \<not> jd_Handler def \<or>
              jd_ConcurrencyGroup def \<noteq> '''' \<and> jm_groupLimits m (jd_ConcurrencyGroup def) \<le> 0
      then Inl (Err ErrInvalidDefinition)
      else if jd_Key def \<in> jm_activeKeys m then Inl (Err ErrJobAlreadyRunning)
      else
        let item = \<lparr>jb_ID = uuid, jb_Key = jd_Key def, jb_Name = jd_Name def, jb_Status = StatusQueued,
              jb_RetryCount = 0, jb_IsAborting = False, jb_HasAborted = False, jb_HasSkipped = False, jb_HasFailed = False, jb_Error = '''',
              jb_Result = None, jb_CreatedAt = now, jb_UpdatedAt = now, jb_StartedAt = None, jb_FinishedAt = None,
              jb_NextRunAt = None, jb_definition = def, jb_done = False\<rparr>;
            m = enqueueItemLocked uuid (addHistoryLocked uuid (put_job uuid item m));
            m = m\<lparr>jm_activeKeys := insert (jd_Key def) (jm_activeKeys m)\<rparr>
        in rbind (dispatchLocked now (publishJobChangeLocked ''create'' uuid m)) (\<lambda>m. Inr (uuid, m)))"

definition Enqueue :: "int \<Rightarrow> string \<Rightarrow> string \<Rightarrow> Manager \<Rightarrow> (string \<times> Manager) job_step" where
  "Enqueue now uuid key m =
     (case jm_definitions m key of
        None \<Rightarrow> Inl (Err ErrDefinitionNotFound)
      | Some def \<Rightarrow> enqueueLocked now uuid def m)"

definition EnqueueDefinition :: "int \<Rightarrow> string \<Rightarrow> JobDefinition \<Rightarrow> Manager \<Rightarrow> (string \<times> Manager) job_step" where
  "EnqueueDefinition now uuid def m = enqueueLocked now uuid def m"

definition Rerun :: "int \<Rightarrow> string \<Rightarrow> string \<Rightarrow> Manager \<Rightarrow> Manager job_step" where
  "Rerun now uuid i m =
     (case findJob m i of
        None \<Rightarrow> Inl (Err ErrJobNotFound)
      | Some i \<Rightarrow>
          rbind (get_job m i) (\<lambda>item.
            if \<not> jd_IsRerunnable (jb_definition item) then Inl (Err ErrJobNotRerunnable)
            else map_sum id snd (EnqueueDefinition now uuid (jb_definition item) m)))"

text \<open>The task a cron schedule runs.\<close>

definition wrapHandler :: "int \<Rightarrow> string \<Rightarrow> string \<Rightarrow> Manager \<Rightarrow> Manager job_step" where
  "wrapHandler now uuid key m =
     (case Enqueue now uuid key m of
        Inl (Err ErrJobAlreadyRunning) \<Rightarrow> Inr m
      | r \<Rightarrow> map_sum id snd r)"

text \<open>Aborting.\<close>

definition abortPendingLocked :: "int \<Rightarrow> string \<Rightarrow> Manager \<Rightarrow> Manager job_step" where
  "abortPendingLocked now i m =
     rbind (get_job m i) (\<lambda>item.
       finishLocked now i (Some Canceled) True (put_job i (item\<lparr>jb_IsAborting := True\<rparr>) m))"

definition abortActiveLocked :: "int \<Rightarrow> string \<Rightarrow> Manager \<Rightarrow> (bool \<times> Manager) job_step" where
  "abortActiveLocked now i m =
     (if i \<notin> jm_active m then Inr (False, m)
      else
        rbind (case findJob m i of
                 None \<Rightarrow> Inr m
               | Some i \<Rightarrow>
                   rbind (get_job m i) (\<lambda>item.
                     Inr (publishJobChangeLocked ''update'' i
                       (put_job i (item\<lparr>jb_IsAborting := True, jb_HasAborted := True, jb_UpdatedAt := now\<rparr>) m)))) (\<lambda>m.
          Inr (True, m\<lparr>jm_canceled := insert i (jm_canceled m)\<rparr>)))"

definition abortQueuedLocked :: "int \<Rightarrow> string \<Rightarrow> Manager \<Rightarrow> (bool \<times> Manager) job_step" where
  "abortQueuedLocked now i m =
     (if i \<notin> set (jm_queue m) then Inr (False, m)
      else rbind (abortPendingLocked now i (m\<lparr>jm_queue := remove1 i (jm_queue m)\<rparr>)) (\<lambda>m. Inr (True, m)))"

definition abortStandbyLocked :: "int \<Rightarrow> string \<Rightarrow> Manager \<Rightarrow> (bool \<times> Manager) job_step" where
  "abortStandbyLocked now i m =
     (case findJob m i of
        None \<Rightarrow> Inr (False, m)
      | Some i \<Rightarrow>
          rbind (get_job m i) (\<lambda>item.
            if jb_Status item \<noteq> StatusStandby then Inr (False, m)
            else rbind (abortPendingLocked now i (put_job i (item\<lparr>jb_HasAborted := True\<rparr>) m)) (\<lambda>m. Inr (True, m))))"

definition Abort :: "int \<Rightarrow> string \<Rightarrow> Manager \<Rightarrow> Manager job_step" where
  "Abort now i m =
     rbind (abortActiveLocked now i m) (\<lambda>(ok, m). if ok then Inr m else
     rbind (abortQueuedLocked now i m) (\<lambda>(ok, m). if ok then Inr m else
     rbind (abortStandbyLocked now i m) (\<lambda>(ok, m). if ok then Inr m else
       Inl (Err ErrJobNotRunning))))"

text \<open>
  Shutting down. The loop over the history ranges over the array as it was when the loop began,
  while \<open>trimHistory\<close> shifts entries of that array down: after a removal the array reads as the
  shorter history followed by what it held from there on (\<open>shifted\<close>).
\<close>

definition shifted :: "string list \<Rightarrow> string list \<Rightarrow> string list" where
  "shifted history arr = history @ drop (length history) arr"

fun abort_standby :: "int \<Rightarrow> nat \<Rightarrow> nat \<Rightarrow> string list \<Rightarrow> Manager \<Rightarrow> Manager job_step" where
  "abort_standby now 0 k arr m = Inr m"
| "abort_standby now (Suc left) k arr m =
     rbind (idx arr (int k)) (\<lambda>i.
     rbind (get_job m i) (\<lambda>item.
       if jb_Status item = StatusStandby
       then rbind (abortPendingLocked now i m) (\<lambda>m'.
              abort_standby now left (k + 1) (shifted (jm_history m') arr) m')
       else abort_standby now left (k + 1) arr m))"

fun abort_queued :: "int \<Rightarrow> string list \<Rightarrow> Manager \<Rightarrow> Manager job_step" where
  "abort_queued now [] m = Inr m"
| "abort_queued now (i # is) m = rbind (abortPendingLocked now i m) (abort_queued now is)"

definition abortQueuedAndStandbyLocked :: "int \<Rightarrow> Manager \<Rightarrow> Manager job_step" where
  "abortQueuedAndStandbyLocked now m =
     rbind (abort_queued now (jm_queue m) (m\<lparr>jm_queue := []\<rparr>)) (\<lambda>m.
       abort_standby now (length (jm_history m)) 0 (jm_history m) m)"

definition cancelActiveLocked :: "Manager \<Rightarrow> Manager" where
  "cancelActiveLocked m = m\<lparr>jm_canceled := jm_canceled m \<union> jm_active m\<rparr>"

text \<open>\<open>Shutdown\<close> up to where it waits for the scheduler and the jobs.\<close>

definition Shutdown :: "int \<Rightarrow> Manager \<Rightarrow> Manager job_step" where
  "Shutdown now m =
     rbind (abortQueuedAndStandbyLocked now (m\<lparr>jm_shutdown := True\<rparr>)) (\<lambda>m. Inr (cancelActiveLocked m))"

text \<open>Reporting.\<close>

definition setJobResult :: "int \<Rightarrow> string \<Rightarrow> string \<Rightarrow> Manager \<Rightarrow> Manager job_step" where
  "setJobResult now i result m =
     rbind (get_job m i) (\<lambda>item.
       if jb_Status item = StatusFinished then Inr m
       else Inr (publishJobChangeLocked ''update'' i (put_job i (item\<lparr>jb_Result := Some result, jb_UpdatedAt := now\<rparr>) m)))"

fun active_keys :: "Manager \<Rightarrow> (string \<Rightarrow> bool) \<Rightarrow> string list \<Rightarrow> string list \<Rightarrow> string list" where
  "active_keys m matches [] seen = []"
| "active_keys m matches (i # is) seen =
     (let key = jb_Key (job_of m i)
      in if has_status m StatusFinished i \<or> \<not> matches key \<or> key \<in> set seen then active_keys m matches is seen
         else key # active_keys m matches is (key # seen))"

definition GetActiveJobKeysByPrefix :: "string \<Rightarrow> Manager \<Rightarrow> string list" where
  "GetActiveJobKeysByPrefix prefix m =
     active_keys m (\<lambda>key. take (length prefix) key = prefix) (jm_history m) []"

end
