(* ===== verification/JobCorrect.thy ===== *)
theory JobCorrect
  imports JobManager
begin

section \<open>Correctness of the job manager\<close>

text \<open>
  The invariant that ties the manager's queue, maps and counters to the states of its jobs, that
  every method keeps it, and what follows: jobs that hold a key exclusively run alone on it, no
  concurrency limit is exceeded, a key has at most one job that is not finished, the loops end and
  nothing panics.
\<close>

subsection \<open>The invariant\<close>

definition st :: "Manager \<Rightarrow> string \<Rightarrow> JobStatus option" where
  "st m i = map_option jb_Status (jm_jobs m i)"

definition unfinished :: "Manager \<Rightarrow> string \<Rightarrow> bool" where
  "unfinished m i \<longleftrightarrow> st m i \<noteq> None \<and> st m i \<noteq> Some StatusFinished"

definition key_of :: "Manager \<Rightarrow> string \<Rightarrow> string" where
  "key_of m i = jb_Key (job_of m i)"

definition wf_job :: "string \<Rightarrow> Job \<Rightarrow> bool" where
  "wf_job i item \<longleftrightarrow> jb_ID item = i \<and> jb_Key item = jd_Key (jb_definition item) \<and>
     jb_RetryCount item \<le> length (jd_RetryDelays (jb_definition item)) \<and>
     (jb_done item \<longleftrightarrow> jb_Status item = StatusFinished)"

definition wf_jobs :: "Manager \<Rightarrow> bool" where
  "wf_jobs m \<longleftrightarrow> (\<forall>i item. jm_jobs m i = Some item \<longrightarrow> wf_job i item)"

definition keys_ok :: "Manager \<Rightarrow> bool" where
  "keys_ok m \<longleftrightarrow> jm_activeKeys m = key_of m ` {i. unfinished m i} \<and> inj_on (key_of m) {i. unfinished m i}"

definition hist_ok :: "Manager \<Rightarrow> bool" where
  "hist_ok m \<longleftrightarrow> distinct (jm_history m) \<and> {i. unfinished m i} \<subseteq> set (jm_history m) \<and>
     set (jm_history m) \<subseteq> {i. st m i \<noteq> None}"

definition locks_ok :: "Manager \<Rightarrow> bool" where
  "locks_ok m \<longleftrightarrow> finite (jm_active m) \<and> jm_running m = int (card (jm_active m)) \<and>
     (\<forall>g. jm_groupRunning m g = int (card {i \<in> jm_active m. jd_ConcurrencyGroup (def_of m i) = g})) \<and>
     (\<forall>k. jm_activeSharedKeys m k = (\<Sum>i \<in> jm_active m. int (count_list (jd_SharedKeys (def_of m i)) k))) \<and>
     jm_activeExclusiveKeys m = (\<Union>i \<in> jm_active m. set (jd_ExclusiveKeys (def_of m i)))"

definition exclusion :: "Manager \<Rightarrow> bool" where
  "exclusion m \<longleftrightarrow> (\<forall>i \<in> jm_active m. \<forall>j \<in> jm_active m. i \<noteq> j \<longrightarrow>
     set (jd_ExclusiveKeys (def_of m i)) \<inter> (set (jd_ExclusiveKeys (def_of m j)) \<union> set (jd_SharedKeys (def_of m j))) = {})"

definition limits_ok :: "Manager \<Rightarrow> bool" where
  "limits_ok m \<longleftrightarrow> distinct (jm_independentGroups m) \<and> 1 \<le> jm_maxConcurrent m \<and>
     shared_running m \<le> jm_maxConcurrent m \<and>
     (\<forall>g. jm_groupRunning m g > 0 \<longrightarrow> jm_groupRunning m g \<le> group_limit m g)"

text \<open>The invariant, except that the jobs in \<open>H\<close> are between two places.\<close>

definition inv_except :: "string set \<Rightarrow> Manager \<Rightarrow> bool" where
  "inv_except H m \<longleftrightarrow> wf_jobs m \<and> keys_ok m \<and> hist_ok m \<and> locks_ok m \<and> exclusion m \<and> limits_ok m \<and>
     distinct (jm_queue m) \<and> set (jm_queue m) = {i. st m i = Some StatusQueued} - H \<and>
     jm_active m = {i. st m i = Some StatusRunning} - H"

definition manager_inv :: "Manager \<Rightarrow> bool" where
  "manager_inv m \<longleftrightarrow> inv_except {} m"

lemma manager_inv_New: "distinct (cfg_IndependentGroups cfg) \<Longrightarrow> manager_inv (NewManager cfg)"
  by (auto simp: manager_inv_def inv_except_def wf_jobs_def keys_ok_def hist_ok_def locks_ok_def exclusion_def
      limits_ok_def NewManager_def st_def unfinished_def shared_running_def sum_list_0)

lemma st_Some: "st m i = Some s \<Longrightarrow> \<exists>item. jm_jobs m i = Some item \<and> jb_Status item = s"
  by (auto simp: st_def)

lemma get_job_st: "st m i \<noteq> None \<Longrightarrow> \<exists>item. get_job m i = Inr item \<and> jm_jobs m i = Some item"
  by (auto simp: st_def get_job_def)

text \<open>Rewriting one job, with its definition and key kept.\<close>

lemma put_job_frame [simp]:
  "jm_jobs (put_job i item m) = (jm_jobs m)(i \<mapsto> item)" "jm_queue (put_job i item m) = jm_queue m"
  "jm_active (put_job i item m) = jm_active m" "jm_history (put_job i item m) = jm_history m"
  "jm_activeKeys (put_job i item m) = jm_activeKeys m" "jm_shutdown (put_job i item m) = jm_shutdown m"
  "jm_activeExclusiveKeys (put_job i item m) = jm_activeExclusiveKeys m"
  "jm_activeSharedKeys (put_job i item m) = jm_activeSharedKeys m" "jm_running (put_job i item m) = jm_running m"
  "jm_groupRunning (put_job i item m) = jm_groupRunning m" "jm_maxConcurrent (put_job i item m) = jm_maxConcurrent m"
  "jm_groupLimits (put_job i item m) = jm_groupLimits m" "jm_maxHistory (put_job i item m) = jm_maxHistory m"
  "jm_independentGroups (put_job i item m) = jm_independentGroups m"
  by (simp_all add: put_job_def)

lemma publish_frame [simp]:
  "jm_jobs (publishJobChangeLocked typ i m) = jm_jobs m" "jm_queue (publishJobChangeLocked typ i m) = jm_queue m"
  "jm_active (publishJobChangeLocked typ i m) = jm_active m" "jm_history (publishJobChangeLocked typ i m) = jm_history m"
  "jm_activeKeys (publishJobChangeLocked typ i m) = jm_activeKeys m"
  "jm_shutdown (publishJobChangeLocked typ i m) = jm_shutdown m"
  by (simp_all add: publishJobChangeLocked_def)

lemma st_publish [simp]: "st (publishJobChangeLocked typ i m) = st m"
  by (rule ext) (simp add: st_def)

lemma st_put [simp]: "st (put_job i item m) = (st m)(i := Some (jb_Status item))"
  by (rule ext) (simp add: st_def)

lemma def_of_put: "jm_jobs m i = Some old \<Longrightarrow> jb_definition item = jb_definition old \<Longrightarrow> def_of (put_job i item m) = def_of m"
  by (rule ext) (simp add: def_of_def job_of_def)

lemma key_of_put: "jm_jobs m i = Some old \<Longrightarrow> jb_Key item = jb_Key old \<Longrightarrow> key_of (put_job i item m) = key_of m"
  by (rule ext) (simp add: key_of_def job_of_def)

lemma locks_ok_cong:
  "jm_active m' = jm_active m \<Longrightarrow> jm_running m' = jm_running m \<Longrightarrow> jm_groupRunning m' = jm_groupRunning m \<Longrightarrow>
   jm_activeSharedKeys m' = jm_activeSharedKeys m \<Longrightarrow> jm_activeExclusiveKeys m' = jm_activeExclusiveKeys m \<Longrightarrow>
   (\<And>i. i \<in> jm_active m \<Longrightarrow> def_of m' i = def_of m i) \<Longrightarrow> locks_ok m' = locks_ok m"
  unfolding locks_ok_def by (simp cong: conj_cong sum.cong SUP_cong)

lemma exclusion_cong:
  "jm_active m' = jm_active m \<Longrightarrow> (\<And>i. i \<in> jm_active m \<Longrightarrow> def_of m' i = def_of m i) \<Longrightarrow> exclusion m' = exclusion m"
  unfolding exclusion_def by simp

lemma limits_ok_cong:
  "jm_running m' = jm_running m \<Longrightarrow> jm_groupRunning m' = jm_groupRunning m \<Longrightarrow> jm_maxConcurrent m' = jm_maxConcurrent m \<Longrightarrow>
   jm_groupLimits m' = jm_groupLimits m \<Longrightarrow> jm_independentGroups m' = jm_independentGroups m \<Longrightarrow> limits_ok m' = limits_ok m"
  by (simp add: limits_ok_def shared_running_def group_limit_def)

text \<open>The invariant reads these fields only.\<close>

definition same_core :: "Manager \<Rightarrow> Manager \<Rightarrow> bool" where
  "same_core m m' \<longleftrightarrow> jm_jobs m' = jm_jobs m \<and> jm_queue m' = jm_queue m \<and> jm_active m' = jm_active m \<and>
     jm_history m' = jm_history m \<and> jm_activeKeys m' = jm_activeKeys m \<and>
     jm_activeExclusiveKeys m' = jm_activeExclusiveKeys m \<and> jm_activeSharedKeys m' = jm_activeSharedKeys m \<and>
     jm_running m' = jm_running m \<and> jm_groupRunning m' = jm_groupRunning m \<and>
     jm_maxConcurrent m' = jm_maxConcurrent m \<and> jm_groupLimits m' = jm_groupLimits m \<and>
     jm_independentGroups m' = jm_independentGroups m"

lemma same_jobs:
  assumes "jm_jobs m' = jm_jobs m"
  shows "st m' = st m" "unfinished m' = unfinished m" "key_of m' = key_of m" "def_of m' = def_of m" "wf_jobs m' = wf_jobs m"
proof -
  show st: "st m' = st m" by (rule ext) (simp add: st_def assms)
  show "unfinished m' = unfinished m" by (rule ext) (simp add: unfinished_def st)
  show "key_of m' = key_of m" "def_of m' = def_of m"
    by (simp_all add: key_of_def def_of_def job_of_def assms fun_eq_iff)
  show "wf_jobs m' = wf_jobs m" by (simp add: wf_jobs_def assms)
qed

lemma same_core_parts:
  assumes "same_core m m'"
  shows "keys_ok m' = keys_ok m" "hist_ok m' = hist_ok m" "locks_ok m' = locks_ok m" "exclusion m' = exclusion m"
    "limits_ok m' = limits_ok m"
proof -
  have j: "jm_jobs m' = jm_jobs m" using assms by (simp add: same_core_def)
  note same = same_jobs [OF j]
  show "keys_ok m' = keys_ok m" "hist_ok m' = hist_ok m"
    using assms by (simp_all add: keys_ok_def hist_ok_def same same_core_def)
  show "locks_ok m' = locks_ok m" using assms by (intro locks_ok_cong) (simp_all add: same same_core_def)
  show "exclusion m' = exclusion m" using assms by (intro exclusion_cong) (simp_all add: same same_core_def)
  show "limits_ok m' = limits_ok m" using assms by (intro limits_ok_cong) (simp_all add: same_core_def)
qed

lemma same_core_inv:
  assumes "same_core m m'"
  shows "inv_except H m' = inv_except H m"
proof -
  have j: "jm_jobs m' = jm_jobs m" "jm_queue m' = jm_queue m" "jm_active m' = jm_active m"
    using assms by (simp_all add: same_core_def)
  show ?thesis unfolding inv_except_def same_core_parts [OF assms] same_jobs [OF j(1)] j(2,3) ..
qed

lemma inv_publish [simp]: "inv_except H (publishJobChangeLocked typ i m) = inv_except H m"
  by (rule same_core_inv) (simp add: publishJobChangeLocked_def same_core_def)

subsection \<open>The history\<close>

lemma remove_finished_set:
  "remove_finished m is = Some is' \<Longrightarrow> distinct is \<Longrightarrow>
   set is' \<subseteq> set is \<and> distinct is' \<and> (\<forall>i \<in> set is - set is'. st m i = Some StatusFinished)"
proof (induction "is" arbitrary: is')
  case (Cons i "is")
  show ?case
  proof (cases "has_status m StatusFinished i")
    case True
    then have "is' = is" "st m i = Some StatusFinished" using Cons.prems(1) by (auto simp: has_status_def st_def split: option.splits)
    then show ?thesis using Cons.prems(2) by auto
  next
    case False
    then obtain js where "remove_finished m is = Some js" "is' = i # js" using Cons.prems(1) by auto
    then show ?thesis using Cons.IH [of js] Cons.prems(2) by auto
  qed
qed simp

lemma trim_set:
  "distinct h \<Longrightarrow> set (trim m mx h) \<subseteq> set h \<and> distinct (trim m mx h) \<and>
   (\<forall>i \<in> set h - set (trim m mx h). st m i = Some StatusFinished)"
proof (induction m mx h rule: trim.induct)
  case (1 m mx h)
  show ?case
  proof (cases "glen h > mx \<and> remove_finished m h \<noteq> None")
    case True
    then obtain h' where h': "remove_finished m h = Some h'" by auto
    note s = remove_finished_set [OF h' "1.prems"]
    have "trim m mx h = trim m mx h'" using True h' by (subst trim.simps) simp
    then show ?thesis using "1.IH" [OF _ h'] True s by auto
  next
    case False
    then have "trim m mx h = h" by (subst trim.simps) (auto split: option.splits)
    then show ?thesis using "1.prems" by simp
  qed
qed

lemma inv_trim:
  assumes "inv_except H m"
  shows "inv_except H (trimHistory m)"
proof -
  let ?m = "trimHistory m"
  have j: "jm_jobs ?m = jm_jobs m" by (simp add: trimHistory_def)
  note same = same_jobs [OF j]
  have d: "distinct (jm_history m)" "{i. unfinished m i} \<subseteq> set (jm_history m)" "set (jm_history m) \<subseteq> {i. st m i \<noteq> None}"
    using assms by (simp_all add: inv_except_def hist_ok_def)
  note t = trim_set [OF d(1), of m "jm_maxHistory m"]
  have "i \<in> set (jm_history ?m)" if "unfinished m i" for i
  proof -
    have "i \<in> set (jm_history m)" "st m i \<noteq> Some StatusFinished" using that d(2) by (auto simp: unfinished_def)
    then show ?thesis using t by (auto simp: trimHistory_def)
  qed
  moreover have h: "jm_history ?m = trim m (jm_maxHistory m) (jm_history m)" by (simp add: trimHistory_def)
  ultimately have "hist_ok ?m" using t d(3) unfolding hist_ok_def same h by blast
  moreover have "locks_ok ?m = locks_ok m" by (intro locks_ok_cong) (simp_all add: same, simp_all add: trimHistory_def)
  moreover have "exclusion ?m = exclusion m" by (intro exclusion_cong) (simp_all add: same, simp add: trimHistory_def)
  moreover have "limits_ok ?m = limits_ok m" by (intro limits_ok_cong) (simp_all add: trimHistory_def)
  moreover have "keys_ok ?m = keys_ok m" unfolding keys_ok_def same by (simp add: trimHistory_def)
  moreover have "jm_queue ?m = jm_queue m" "jm_active ?m = jm_active m" by (simp_all add: trimHistory_def)
  ultimately show ?thesis using assms unfolding inv_except_def same by simp
qed

subsection \<open>Moving a job between places\<close>

lemma inv_exceptD:
  assumes "inv_except H m"
  shows "wf_jobs m" "keys_ok m" "hist_ok m" "locks_ok m" "exclusion m" "limits_ok m" "distinct (jm_queue m)"
    "set (jm_queue m) = {i. st m i = Some StatusQueued} - H" "jm_active m = {i. st m i = Some StatusRunning} - H"
  using assms by (simp_all add: inv_except_def)

text \<open>Rewriting a job that is in none of the maps of running jobs.\<close>

lemma put_locks:
  assumes "locks_ok m" "exclusion m" "limits_ok m" "jm_jobs m i = Some old" "jb_definition item = jb_definition old"
  shows "locks_ok (put_job i item m)" "exclusion (put_job i item m)" "limits_ok (put_job i item m)"
proof -
  note d = def_of_put [OF assms(4,5)]
  show "locks_ok (put_job i item m)" using assms(1) locks_ok_cong [of "put_job i item m" m] d by simp
  show "exclusion (put_job i item m)" using assms(2) exclusion_cong [of "put_job i item m" m] d by simp
  show "limits_ok (put_job i item m)" using assms(3) limits_ok_cong [of "put_job i item m" m] by simp
qed

lemma put_wf: "wf_jobs m \<Longrightarrow> wf_job i item \<Longrightarrow> wf_jobs (put_job i item m)"
  by (simp add: wf_jobs_def)

lemma put_keys:
  assumes "keys_ok m" "jm_jobs m i = Some old" "jb_Key item = jb_Key old" "unfinished m i" "jb_Status item \<noteq> StatusFinished"
  shows "keys_ok (put_job i item m)"
proof -
  have "unfinished (put_job i item m) = unfinished m" using assms(4,5) by (auto simp: unfinished_def fun_eq_iff)
  then show ?thesis using assms(1) key_of_put [OF assms(2,3)] by (simp add: keys_ok_def)
qed

lemma put_hist:
  assumes "hist_ok m" "st m i \<noteq> None" "unfinished m i \<or> jb_Status item = StatusFinished"
  shows "hist_ok (put_job i item m)"
proof -
  have "{j. unfinished (put_job i item m) j} \<subseteq> {j. unfinished m j}"
    using assms(3) by (auto simp: unfinished_def split: if_split_asm)
  then show ?thesis using assms(1,2) unfolding hist_ok_def by auto
qed

text \<open>A job changes its flags, or one in transit arrives at a status that has no place.\<close>

lemma put_inv:
  assumes inv: "inv_except H m" and old: "jm_jobs m i = Some old" and wf: "wf_job i item"
    and keep: "jb_definition item = jb_definition old" "jb_Key item = jb_Key old"
    and st: "unfinished m i" "jb_Status item \<noteq> StatusFinished"
    and H: "{j. ((st m)(i := Some (jb_Status item))) j = Some StatusQueued} - H' = {j. st m j = Some StatusQueued} - H"
      "{j. ((st m)(i := Some (jb_Status item))) j = Some StatusRunning} - H' = {j. st m j = Some StatusRunning} - H"
  shows "inv_except H' (put_job i item m)"
proof -
  note d = inv_exceptD [OF inv]
  have "st m i \<noteq> None" using st(1) by (simp add: unfinished_def)
  then have "hist_ok (put_job i item m)" using put_hist [OF d(3)] st(1) by blast
  then show ?thesis
    using put_wf [OF d(1) wf] put_keys [OF d(2) old keep(2) st] put_locks [OF d(4-6) old keep(1)] d(7-9) H
    by (simp add: inv_except_def)
qed

lemma put_flags_inv:
  assumes inv: "inv_except H m" and old: "jm_jobs m i = Some old" and wf: "wf_job i item"
    and keep: "jb_definition item = jb_definition old" "jb_Key item = jb_Key old" "jb_Status item = jb_Status old"
    and un: "jb_Status old \<noteq> StatusFinished"
  shows "inv_except H (put_job i item m)"
proof -
  have "st m i = Some (jb_Status old)" using old by (simp add: st_def)
  then show ?thesis
    using un keep(3) by (intro put_inv [OF inv old wf keep(1,2)]) (auto simp: unfinished_def)
qed

lemma hole_standby:
  "inv_except {} m \<Longrightarrow> st m i = Some StatusStandby \<Longrightarrow> inv_except {i} m"
  by (auto simp: inv_except_def)

lemma hole_queued:
  assumes "inv_except {} m" "i \<in> set (jm_queue m)"
  shows "inv_except {i} (m\<lparr>jm_queue := remove1 i (jm_queue m)\<rparr>)" "st m i = Some StatusQueued"
proof -
  let ?m = "m\<lparr>jm_queue := remove1 i (jm_queue m)\<rparr>"
  note d = inv_exceptD [OF assms(1)]
  show q: "st m i = Some StatusQueued" using d(8) assms(2) by auto
  have j: "jm_jobs ?m = jm_jobs m" by simp
  note same = same_jobs [OF j]
  have "keys_ok ?m = keys_ok m" "hist_ok ?m = hist_ok m" unfolding keys_ok_def hist_ok_def same by simp_all
  moreover have "locks_ok ?m = locks_ok m" by (intro locks_ok_cong) (simp_all add: same)
  moreover have "exclusion ?m = exclusion m" by (intro exclusion_cong) (simp_all add: same)
  moreover have "limits_ok ?m = limits_ok m" by (intro limits_ok_cong) simp_all
  moreover have "set (jm_queue ?m) = {j. st m j = Some StatusQueued} - {i}" "distinct (jm_queue ?m)"
    using d(7,8) by auto
  moreover have "jm_active ?m = {j. st m j = Some StatusRunning} - {i}" using d(9) q by auto
  ultimately show "inv_except {i} ?m" using d unfolding inv_except_def same by blast
qed

text \<open>Finishing a job in transit.\<close>

lemma finishLocked_eq:
  assumes "jm_jobs m i = Some old" "wf_job i old" "jb_Status old \<noteq> StatusFinished"
  obtains item where "wf_job i item" "jb_definition item = jb_definition old" "jb_Key item = jb_Key old"
    "jb_Status item = StatusFinished"
    "finishLocked now i err aborted m = Inr (trimHistory (publishJobChangeLocked ''update'' i
       ((put_job i item m)\<lparr>jm_activeKeys := jm_activeKeys m - {jb_Key old}\<rparr>)))"
proof -
  let ?item = "old\<lparr>jb_Status := StatusFinished, jb_UpdatedAt := now, jb_FinishedAt := Some now,
               jb_NextRunAt := None, jb_HasAborted := jb_HasAborted old \<or> aborted\<rparr>"
  let ?item2 = "case err of
                 Some (Failed e) \<Rightarrow> if \<not> jb_HasAborted ?item then ?item\<lparr>jb_HasFailed := True, jb_Error := e\<rparr> else ?item
               | _ \<Rightarrow> ?item"
  have i2: "jb_ID ?item2 = jb_ID old" "jb_definition ?item2 = jb_definition old" "jb_Key ?item2 = jb_Key old"
    "jb_Status ?item2 = StatusFinished" "jb_RetryCount ?item2 = jb_RetryCount old"
    by (simp_all split: option.split handler_error.split)
  have "finishLocked now i err aborted m = Inr (trimHistory (publishJobChangeLocked ''update'' i
       ((put_job i (?item2\<lparr>jb_done := True\<rparr>) m)\<lparr>jm_activeKeys := jm_activeKeys m - {jb_Key ?item2}\<rparr>)))"
    using assms unfolding finishLocked_def get_job_def wf_job_def by (simp add: Let_def del: if_split)
  then show thesis using that [of "?item2\<lparr>jb_done := True\<rparr>"] i2 assms(2) by (simp add: wf_job_def)
qed

lemma inv_finish_keys:
  assumes inv: "inv_except H m" and i: "i \<in> H" and old: "jm_jobs m i = Some old" "jb_Status old \<noteq> StatusFinished"
    and item: "wf_job i item" "jb_definition item = jb_definition old" "jb_Key item = jb_Key old" "jb_Status item = StatusFinished"
  shows "inv_except (H - {i}) ((put_job i item m)\<lparr>jm_activeKeys := jm_activeKeys m - {jb_Key old}\<rparr>)"
proof -
  let ?m1 = "put_job i item m" and ?m = "(put_job i item m)\<lparr>jm_activeKeys := jm_activeKeys m - {jb_Key old}\<rparr>"
  note d = inv_exceptD [OF inv]
  have sti: "st m i = Some (jb_Status old)" using old(1) by (simp add: st_def)
  have j: "jm_jobs ?m = jm_jobs ?m1" by simp
  note same = same_jobs [OF j]
  have un: "{j. unfinished ?m1 j} = {j. unfinished m j} - {i}" "unfinished m i"
    using item(4) sti old(2) by (auto simp: unfinished_def)
  have "key_of m ` ({j. unfinished m j} - {i}) = key_of m ` {j. unfinished m j} - {key_of m i}"
    using d(2) un(2) by (auto simp: keys_ok_def inj_on_def)
  moreover have "key_of m i = jb_Key old" using old(1) by (simp add: key_of_def job_of_def)
  moreover have "inj_on (key_of m) ({j. unfinished m j} - {i})"
    using d(2) by (auto simp: keys_ok_def intro: inj_on_subset)
  ultimately have "keys_ok ?m"
    using d(2) unfolding keys_ok_def same un(1) key_of_put [OF old(1) item(3)] by simp
  moreover have "hist_ok ?m"
    using put_hist [OF d(3), of i item] sti item(4) unfolding hist_ok_def same by simp
  moreover have "locks_ok ?m = locks_ok ?m1" by (intro locks_ok_cong) (simp_all add: same)
  moreover have "exclusion ?m = exclusion ?m1" by (intro exclusion_cong) (simp_all add: same)
  moreover have "limits_ok ?m = limits_ok ?m1" by (intro limits_ok_cong) simp_all
  moreover have "wf_jobs ?m1" by (rule put_wf [OF d(1) item(1)])
  moreover have "set (jm_queue ?m) = {j. st ?m1 j = Some StatusQueued} - (H - {i})"
    "jm_active ?m = {j. st ?m1 j = Some StatusRunning} - (H - {i})"
    using d(8,9) item(4) i by auto
  ultimately show ?thesis
    using put_locks [OF d(4-6) old(1) item(2)] d(7) unfolding inv_except_def same by simp
qed

lemma finishLocked_returns:
  assumes inv: "inv_except H m" and i: "i \<in> H" and un: "unfinished m i"
  shows "returns (finishLocked now i err aborted m) (\<lambda>m'. inv_except (H - {i}) m' \<and> st m' = (st m)(i := Some StatusFinished) \<and>
    jm_queue m' = jm_queue m \<and> jm_active m' = jm_active m \<and> jm_shutdown m' = jm_shutdown m \<and>
    jm_maxHistory m' = jm_maxHistory m \<and> set (jm_history m') \<subseteq> set (jm_history m) \<and>
    length (jm_history m') \<le> length (jm_history m))"
proof -
  obtain old where old: "jm_jobs m i = Some old" "jb_Status old \<noteq> StatusFinished"
    using un by (auto simp: unfinished_def st_def)
  have "wf_job i old" using inv old(1) by (simp add: inv_except_def wf_jobs_def)
  then obtain item where item: "wf_job i item" "jb_definition item = jb_definition old" "jb_Key item = jb_Key old"
      "jb_Status item = StatusFinished"
    and f: "finishLocked now i err aborted m = Inr (trimHistory (publishJobChangeLocked ''update'' i
       ((put_job i item m)\<lparr>jm_activeKeys := jm_activeKeys m - {jb_Key old}\<rparr>)))"
    using finishLocked_eq [OF old(1) _ old(2)] by metis
  let ?m = "(put_job i item m)\<lparr>jm_activeKeys := jm_activeKeys m - {jb_Key old}\<rparr>"
  let ?m' = "trimHistory (publishJobChangeLocked ''update'' i ?m)"
  have "inv_except (H - {i}) ?m'" using inv_finish_keys [OF inv i old item] inv_trim by simp
  moreover have "st ?m' = st (put_job i item m)" by (rule same_jobs) (simp add: trimHistory_def)
  moreover have "jm_queue ?m' = jm_queue m" "jm_active ?m' = jm_active m" "jm_shutdown ?m' = jm_shutdown m"
    "jm_maxHistory ?m' = jm_maxHistory m"
    by (simp_all add: trimHistory_def publishJobChangeLocked_def)
  moreover have h: "jm_history ?m' = trim (publishJobChangeLocked ''update'' i ?m) (jm_maxHistory m) (jm_history m)"
    by (simp add: trimHistory_def publishJobChangeLocked_def)
  have "distinct (jm_history m)" using inv by (simp add: inv_except_def hist_ok_def)
  then have "set (jm_history ?m') \<subseteq> set (jm_history m)" "distinct (jm_history ?m')"
    using trim_set unfolding h by blast+
  moreover from this have "length (jm_history ?m') \<le> length (jm_history m)"
    using \<open>distinct (jm_history m)\<close> by (metis List.finite_set card_mono distinct_card)
  ultimately show ?thesis using f item(4) by simp
qed

subsection \<open>Starting and completing\<close>

lemma shared_key_active:
  assumes "locks_ok m" "j \<in> jm_active m" "k \<in> set (jd_SharedKeys (def_of m j))"
  shows "jm_activeSharedKeys m k > 0"
proof -
  have "finite (jm_active m)" using assms(1) by (simp add: locks_ok_def)
  then have "int (count_list (jd_SharedKeys (def_of m j)) k) \<le>
      (\<Sum>i \<in> jm_active m. int (count_list (jd_SharedKeys (def_of m i)) k))"
    using assms(2) by (intro member_le_sum) auto
  moreover have "count_list (jd_SharedKeys (def_of m j)) k \<noteq> 0" using assms(3) by (simp add: count_list_0_iff)
  ultimately show ?thesis using assms(1) by (simp add: locks_ok_def)
qed

lemma group_insert:
  assumes "finite A" "i \<notin> A"
  shows "int (card {j \<in> insert i A. f j = g}) = int (card {j \<in> A. f j = g}) + (if f i = g then 1 else 0)"
proof -
  have "{j \<in> insert i A. f j = g} = (if f i = g then insert i {j \<in> A. f j = g} else {j \<in> A. f j = g})" by auto
  then show ?thesis using assms by simp
qed

lemma sum_list_update_distinct:
  "distinct gs \<Longrightarrow> (\<Sum>x \<leftarrow> gs. (f(g := f g + d)) x) = (\<Sum>x \<leftarrow> gs. f x) + (if g \<in> set gs then d else (0 :: int))"
  by (induction gs) auto

text \<open>The locks taken by a job that the checks let through.\<close>

definition add_locks :: "string \<Rightarrow> JobDefinition \<Rightarrow> Manager \<Rightarrow> Manager" where
  "add_locks i def m = m\<lparr>jm_active := insert i (jm_active m), jm_canceled := jm_canceled m - {i},
     jm_activeExclusiveKeys := jm_activeExclusiveKeys m \<union> set (jd_ExclusiveKeys def),
     jm_activeSharedKeys := (\<lambda>key. jm_activeSharedKeys m key + int (count_list (jd_SharedKeys def) key)),
     jm_running := jm_running m + 1,
     jm_groupRunning := (jm_groupRunning m)(jd_ConcurrencyGroup def := jm_groupRunning m (jd_ConcurrencyGroup def) + 1)\<rparr>"

lemma add_locks_frame [simp]:
  "jm_jobs (add_locks i def m) = jm_jobs m" "jm_queue (add_locks i def m) = jm_queue m"
  "jm_history (add_locks i def m) = jm_history m" "jm_activeKeys (add_locks i def m) = jm_activeKeys m"
  "jm_active (add_locks i def m) = insert i (jm_active m)" "jm_shutdown (add_locks i def m) = jm_shutdown m"
  by (simp_all add: add_locks_def)

lemma add_locks_ok:
  assumes ok: "locks_ok m" "exclusion m" "limits_ok m" and i: "i \<notin> jm_active m"
    and dep: "dependenciesSatisfiedLocked m (def_of m i)" and lim: "within_limits m (jd_ConcurrencyGroup (def_of m i))"
  shows "locks_ok (add_locks i (def_of m i) m)" "exclusion (add_locks i (def_of m i) m)" "limits_ok (add_locks i (def_of m i) m)"
proof -
  let ?m = "add_locks i (def_of m i) m"
  have defs: "def_of ?m = def_of m" by (rule same_jobs) simp
  have fin: "finite (jm_active m)" using ok(1) by (simp add: locks_ok_def)
  have "jm_groupRunning ?m g = int (card {j \<in> jm_active ?m. jd_ConcurrencyGroup (def_of m j) = g})" for g
    using ok(1) group_insert [OF fin i, of "\<lambda>j. jd_ConcurrencyGroup (def_of m j)" g]
    by (simp add: locks_ok_def) (auto simp: add_locks_def)
  then show "locks_ok ?m"
    using ok(1) fin i unfolding locks_ok_def defs by (auto simp: add_locks_def)
  have new: "set (jd_ExclusiveKeys (def_of m i)) \<inter> (set (jd_ExclusiveKeys (def_of m j)) \<union> set (jd_SharedKeys (def_of m j))) = {}"
    "set (jd_ExclusiveKeys (def_of m j)) \<inter> (set (jd_ExclusiveKeys (def_of m i)) \<union> set (jd_SharedKeys (def_of m i))) = {}"
    if "j \<in> jm_active m" for j
  proof -
    have ex: "set (jd_ExclusiveKeys (def_of m j)) \<subseteq> jm_activeExclusiveKeys m" using ok(1) that by (auto simp: locks_ok_def)
    then show "set (jd_ExclusiveKeys (def_of m i)) \<inter> (set (jd_ExclusiveKeys (def_of m j)) \<union> set (jd_SharedKeys (def_of m j))) = {}"
      using dep shared_key_active [OF ok(1) that] by (auto simp: dependenciesSatisfiedLocked_def list_all_iff)
    show "set (jd_ExclusiveKeys (def_of m j)) \<inter> (set (jd_ExclusiveKeys (def_of m i)) \<union> set (jd_SharedKeys (def_of m i))) = {}"
      using dep ex by (auto simp: dependenciesSatisfiedLocked_def list_all_iff)
  qed
  then show "exclusion ?m" using ok(2) unfolding exclusion_def defs by (simp add: ball_simps)
  have sh: "shared_running ?m = shared_running m + (if jd_ConcurrencyGroup (def_of m i) \<in> set (jm_independentGroups m) then 0 else 1)"
    using ok(3) sum_list_update_distinct [of "jm_independentGroups m" "jm_groupRunning m" "jd_ConcurrencyGroup (def_of m i)" 1]
    by (simp add: shared_running_def add_locks_def limits_ok_def del: fun_upd_apply)
  show "limits_ok ?m"
    using ok(3) lim sh by (auto simp: limits_ok_def within_limits_def group_limit_def add_locks_def)
qed

lemma startJobLocked_eq:
  assumes "jm_jobs m i = Some old"
  shows "startJobLocked now i m = Inr (publishJobChangeLocked ''update'' i (add_locks i (jb_definition old)
     (put_job i (old\<lparr>jb_Status := StatusRunning, jb_StartedAt := Some now, jb_UpdatedAt := now\<rparr>) m)))"
  using assms by (simp add: startJobLocked_def get_job_def Let_def add_locks_def)

lemma put_checks [simp]:
  "dependenciesSatisfiedLocked (put_job i item m) = dependenciesSatisfiedLocked m"
  "within_limits (put_job i item m) = within_limits m"
  by (simp_all add: dependenciesSatisfiedLocked_def within_limits_def shared_running_def group_limit_def fun_eq_iff)

lemma startJobLocked_returns:
  assumes inv: "inv_except {i} m" and q: "st m i = Some StatusQueued"
    and dep: "dependenciesSatisfiedLocked m (def_of m i)" and lim: "within_limits m (jd_ConcurrencyGroup (def_of m i))"
  shows "returns (startJobLocked now i m) (\<lambda>m'. manager_inv m' \<and> st m' = (st m)(i := Some StatusRunning) \<and>
    jm_queue m' = jm_queue m \<and> jm_shutdown m' = jm_shutdown m)"
proof -
  obtain old where old: "jm_jobs m i = Some old" "jb_Status old = StatusQueued" using q by (auto simp: st_def)
  define item where "item = old\<lparr>jb_Status := StatusRunning, jb_StartedAt := Some now, jb_UpdatedAt := now\<rparr>"
  have "wf_job i old" using inv old(1) by (simp add: inv_except_def wf_jobs_def)
  then have wf: "wf_job i item" using old(2) by (simp add: wf_job_def item_def)
  have keep: "jb_definition item = jb_definition old" "jb_Key item = jb_Key old" "jb_Status item = StatusRunning"
    by (simp_all add: item_def)
  let ?m1 = "put_job i item m"
  have inv1: "inv_except {i} ?m1"
    using q keep(3) by (intro put_inv [OF inv old(1) wf keep(1,2)]) (auto simp: unfinished_def)
  have d1: "def_of ?m1 = def_of m" by (rule def_of_put [OF old(1) keep(1)])
  have di: "def_of m i = jb_definition old" using old(1) by (simp add: def_of_def job_of_def)
  let ?m2 = "add_locks i (def_of ?m1 i) ?m1"
  note d = inv_exceptD [OF inv1]
  have "i \<notin> jm_active ?m1" using d(9) by simp
  then have locks: "locks_ok ?m2" "exclusion ?m2" "limits_ok ?m2"
    using add_locks_ok [OF d(4-6), of i] dep lim d1 by simp_all
  have j: "jm_jobs ?m2 = jm_jobs ?m1" by simp
  note same = same_jobs [OF j]
  have "keys_ok ?m2" "hist_ok ?m2" using d(2,3) unfolding keys_ok_def hist_ok_def same by simp_all
  moreover have "set (jm_queue ?m2) = {j. st ?m1 j = Some StatusQueued}" "jm_active ?m2 = {j. st ?m1 j = Some StatusRunning}"
    using d(8,9) keep(3) by auto
  ultimately have "manager_inv ?m2" using locks d(1,7) unfolding manager_inv_def inv_except_def same by simp
  then show ?thesis
    using startJobLocked_eq [OF old(1), of now] d1 di keep(3) same(1)
    by (simp add: item_def [symmetric] manager_inv_def)
qed

lemma completed_locks:
  assumes "locks_ok m" "exclusion m" "limits_ok m" "i \<in> jm_active m" "jm_jobs m i = Some item"
    and m': "completeActiveLocked i m = Inr m'"
  shows "locks_ok m'" "exclusion m'" "limits_ok m'"
proof -
  have di: "def_of m i = jb_definition item" using assms(5) by (simp add: def_of_def job_of_def)
  let ?A = "jm_active m - {i}"
  have m'_eq: "m' = m\<lparr>jm_active := ?A, jm_activeExclusiveKeys := jm_activeExclusiveKeys m - set (jd_ExclusiveKeys (def_of m i)),
      jm_activeSharedKeys := (\<lambda>key. jm_activeSharedKeys m key - int (count_list (jd_SharedKeys (def_of m i)) key)),
      jm_running := jm_running m - 1,
      jm_groupRunning := (jm_groupRunning m)(jd_ConcurrencyGroup (def_of m i) :=
         jm_groupRunning m (jd_ConcurrencyGroup (def_of m i)) - 1)\<rparr>"
    using m' assms(5) di by (simp add: completeActiveLocked_def get_job_def Let_def)
  have defs: "def_of m' = def_of m" by (rule same_jobs) (simp add: m'_eq)
  have fin: "finite ?A" "i \<notin> ?A" and ins: "jm_active m = insert i ?A" using assms(1,4) by (auto simp: locks_ok_def)
  have "card (jm_active m) = Suc (card ?A)" using fin ins by (metis card_insert_disjoint)
  moreover have "jm_groupRunning m' g = int (card {j \<in> ?A. jd_ConcurrencyGroup (def_of m j) = g})" for g
    using assms(1) group_insert [OF fin, of "\<lambda>j. jd_ConcurrencyGroup (def_of m j)" g, folded ins]
    by (auto simp: locks_ok_def m'_eq)
  moreover have "jm_activeSharedKeys m' k = (\<Sum>j \<in> ?A. int (count_list (jd_SharedKeys (def_of m j)) k))" for k
    using assms(1,4) fin by (simp add: locks_ok_def m'_eq sum.remove)
  moreover have "jm_activeExclusiveKeys m' = (\<Union>j \<in> ?A. set (jd_ExclusiveKeys (def_of m j)))"
    using assms(1,2,4) by (auto simp: locks_ok_def m'_eq exclusion_def)
  ultimately show "locks_ok m'" using assms(1) fin unfolding locks_ok_def defs by (simp add: m'_eq)
  show "exclusion m'" using assms(2) unfolding exclusion_def defs by (simp add: m'_eq)
  have "shared_running m' \<le> shared_running m"
    using assms(3) sum_list_update_distinct [of "jm_independentGroups m" "jm_groupRunning m" "jd_ConcurrencyGroup (def_of m i)" "-1"]
    by (simp add: shared_running_def m'_eq limits_ok_def del: fun_upd_apply)
  moreover have "jm_groupRunning m' g \<le> jm_groupRunning m g" "group_limit m' g = group_limit m g" for g
    by (simp_all add: m'_eq group_limit_def)
  moreover have "jm_maxConcurrent m' = jm_maxConcurrent m" "jm_independentGroups m' = jm_independentGroups m"
    by (simp_all add: m'_eq)
  ultimately show "limits_ok m'" using assms(3) unfolding limits_ok_def by (metis dual_order.trans less_le_trans)
qed

lemma completeActiveLocked_returns:
  assumes inv: "manager_inv m" and run: "i \<in> jm_active m"
  shows "returns (completeActiveLocked i m) (\<lambda>m'. inv_except {i} m' \<and> jm_jobs m' = jm_jobs m \<and>
    jm_queue m' = jm_queue m \<and> jm_shutdown m' = jm_shutdown m)"
proof -
  note d = inv_exceptD [OF inv [unfolded manager_inv_def]]
  have "st m i = Some StatusRunning" using d(9) run by auto
  then obtain item where item: "jm_jobs m i = Some item" "jb_Status item = StatusRunning" by (auto simp: st_def)
  then obtain m' where m': "completeActiveLocked i m = Inr m'"
    by (simp add: completeActiveLocked_def get_job_def Let_def)
  note locks = completed_locks [OF d(4-6) run item(1) m']
  have f: "jm_jobs m' = jm_jobs m" "jm_queue m' = jm_queue m" "jm_history m' = jm_history m" "jm_activeKeys m' = jm_activeKeys m"
    "jm_shutdown m' = jm_shutdown m" "jm_active m' = jm_active m - {i}"
    using m' item(1) by (auto simp: completeActiveLocked_def get_job_def Let_def)
  note same = same_jobs [OF f(1)]
  have "keys_ok m'" "hist_ok m'" using d(2,3) unfolding keys_ok_def hist_ok_def same f by simp_all
  moreover have "set (jm_queue m') = {j. st m j = Some StatusQueued} - {i}" "jm_active m' = {j. st m j = Some StatusRunning} - {i}"
    using d(8,9) f item by (auto simp: st_def)
  ultimately have "inv_except {i} m'" using locks d(1,7) f unfolding inv_except_def same by simp
  then show ?thesis using m' f by simp
qed

subsection \<open>Retrying and queueing\<close>

lemma standbyLocked_returns:
  assumes inv: "inv_except {i} m" and item: "jm_jobs m i = Some item" "jb_Status item \<noteq> StatusFinished"
    and retry: "jb_RetryCount item < length (jd_RetryDelays (jb_definition item))"
  shows "returns (standbyLocked now i (Some e) m) (\<lambda>m'. manager_inv m' \<and> st m' = (st m)(i := Some StatusStandby) \<and>
    jm_queue m' = jm_queue m \<and> jm_shutdown m' = jm_shutdown m)"
proof -
  define item' where "item' = item\<lparr>jb_RetryCount := Suc (jb_RetryCount item), jb_Status := StatusStandby, jb_UpdatedAt := now,
     jb_NextRunAt := Some (now + jd_RetryDelays (jb_definition item) ! jb_RetryCount item), jb_Error := error_text e\<rparr>"
  have "wf_job i item" using inv item(1) by (simp add: inv_except_def wf_jobs_def)
  then have wf: "wf_job i item'" using retry item(2) by (simp add: wf_job_def item'_def)
  have keep: "jb_definition item' = jb_definition item" "jb_Key item' = jb_Key item" "jb_Status item' = StatusStandby"
    by (simp_all add: item'_def)
  have "st m i = Some (jb_Status item)" using item(1) by (simp add: st_def)
  then have "manager_inv (put_job i item' m)" unfolding manager_inv_def
    using item(2) keep(3) by (intro put_inv [OF inv item(1) wf keep(1,2)]) (auto simp: unfinished_def)
  then show ?thesis
    using item(1) retry keep(3)
    by (simp add: standbyLocked_def get_job_def idx_def item'_def [symmetric] manager_inv_def)
qed

lemma inv_enqueueItem:
  assumes inv: "inv_except {i} m" and q: "st m i = Some StatusQueued"
  shows "manager_inv (enqueueItemLocked i m)"
proof -
  let ?m = "enqueueItemLocked i m"
  note d = inv_exceptD [OF inv]
  have j: "jm_jobs ?m = jm_jobs m" by (simp add: enqueueItemLocked_def)
  note same = same_jobs [OF j]
  have "keys_ok ?m = keys_ok m" "hist_ok ?m = hist_ok m" unfolding keys_ok_def hist_ok_def same by (simp_all add: enqueueItemLocked_def)
  moreover have "locks_ok ?m = locks_ok m" by (intro locks_ok_cong) (simp_all add: same, simp_all add: enqueueItemLocked_def)
  moreover have "exclusion ?m = exclusion m" by (intro exclusion_cong) (simp_all add: same, simp add: enqueueItemLocked_def)
  moreover have "limits_ok ?m = limits_ok m" by (intro limits_ok_cong) (simp_all add: enqueueItemLocked_def)
  moreover have "set (jm_queue ?m) = {j. st m j = Some StatusQueued}" "distinct (jm_queue ?m)"
    "jm_active ?m = {j. st m j = Some StatusRunning}"
    using d(7-9) q by (auto simp: enqueueItemLocked_def)
  ultimately show ?thesis using d(1-6) unfolding manager_inv_def inv_except_def same by simp
qed

lemma retryToQueueLocked_returns:
  assumes inv: "manager_inv m" and s: "st m i = Some StatusStandby"
  shows "returns (retryToQueueLocked now i m) (\<lambda>m'. manager_inv m' \<and> st m' = (st m)(i := Some StatusQueued) \<and>
    jm_shutdown m' = jm_shutdown m)"
proof -
  obtain old where old: "jm_jobs m i = Some old" "jb_Status old = StatusStandby" using s by (auto simp: st_def)
  define item where "item = old\<lparr>jb_Status := StatusQueued, jb_UpdatedAt := now, jb_NextRunAt := None\<rparr>"
  have "wf_job i old" using inv old(1) by (simp add: manager_inv_def inv_except_def wf_jobs_def)
  then have wf: "wf_job i item" using old(2) by (simp add: wf_job_def item_def)
  have keep: "jb_definition item = jb_definition old" "jb_Key item = jb_Key old" "jb_Status item = StatusQueued"
    by (simp_all add: item_def)
  have "inv_except {i} (put_job i item m)"
    using s keep(3) by (intro put_inv [OF inv [unfolded manager_inv_def] old(1) wf keep(1,2)]) (auto simp: unfinished_def)
  then have "manager_inv (enqueueItemLocked i (put_job i item m))" by (rule inv_enqueueItem) (simp add: keep(3))
  moreover have "st (enqueueItemLocked i (put_job i item m)) = st (put_job i item m)"
    by (rule same_jobs) (simp add: enqueueItemLocked_def)
  ultimately show ?thesis
    using old(1) keep(3)
    by (simp add: retryToQueueLocked_def get_job_def item_def [symmetric] manager_inv_def)
      (simp add: enqueueItemLocked_def)
qed

text \<open>A new job. The history is trimmed before the key becomes active, which makes no difference.\<close>

lemma has_status_cong: "jm_jobs m' = jm_jobs m \<Longrightarrow> has_status m' = has_status m"
  by (simp add: has_status_def fun_eq_iff)

lemma remove_finished_cong: "jm_jobs m' = jm_jobs m \<Longrightarrow> remove_finished m' h = remove_finished m h"
  by (induction h) (simp_all add: has_status_cong [of m' m])

lemma trim_cong:
  assumes "jm_jobs m' = jm_jobs m"
  shows "trim m' mx h = trim m mx h"
  using assms
proof (induction m mx h rule: trim.induct)
  case (1 m mx h)
  note r = remove_finished_cong [OF "1.prems", of h]
  show ?case
  proof (cases "glen h > mx \<and> remove_finished m h \<noteq> None")
    case True
    then obtain h' where h': "remove_finished m h = Some h'" by auto
    have "trim m' mx h = trim m' mx h'" "trim m mx h = trim m mx h'"
      using True h' r by (simp_all add: trim.simps [of m' mx h] trim.simps [of m mx h])
    then show ?thesis using "1.IH" [OF _ h'] True "1.prems" by simp
  next
    case False
    then show ?thesis using r by (auto simp: trim.simps [of m' mx h] trim.simps [of m mx h] split: option.split)
  qed
qed

lemma inv_new_job:
  assumes inv: "manager_inv m" and fresh: "jm_jobs m i = None" and item: "wf_job i item" "jb_Status item = StatusQueued"
    and key: "jb_Key item \<notin> jm_activeKeys m"
  shows "inv_except {i} ((put_job i item m)\<lparr>jm_history := jm_history m @ [i], jm_activeKeys := insert (jb_Key item) (jm_activeKeys m)\<rparr>)"
proof -
  let ?m = "(put_job i item m)\<lparr>jm_history := jm_history m @ [i], jm_activeKeys := insert (jb_Key item) (jm_activeKeys m)\<rparr>"
  note d = inv_exceptD [OF inv [unfolded manager_inv_def]]
  have n: "st m i = None" using fresh by (simp add: st_def)
  have j: "jm_jobs ?m = (jm_jobs m)(i \<mapsto> item)" by simp
  have sti: "st ?m = (st m)(i := Some StatusQueued)" using item(2) by (auto simp: st_def fun_eq_iff)
  have un: "{j. unfinished ?m j} = insert i {j. unfinished m j}" unfolding unfinished_def sti by auto
  have k: "key_of ?m i = jb_Key item" "\<And>j. unfinished m j \<Longrightarrow> key_of ?m j = key_of m j"
    using n by (auto simp: key_of_def job_of_def unfinished_def)
  have imgs: "key_of ?m ` {j. unfinished m j} = key_of m ` {j. unfinished m j}" using k(2) by (intro image_cong) auto
  have "inj_on (key_of ?m) {j. unfinished m j}"
    using d(2) k(2) by (auto simp: keys_ok_def inj_on_def)
  moreover have "key_of ?m i \<notin> key_of ?m ` ({j. unfinished m j} - {i})"
    using key d(2) k imgs by (auto simp: keys_ok_def)
  ultimately have "keys_ok ?m" using d(2) imgs k(1) unfolding keys_ok_def un by (simp add: inj_on_insert)
  moreover have "i \<notin> set (jm_history m)" using d(3) n by (auto simp: hist_ok_def)
  then have "hist_ok ?m" using d(3) unfolding hist_ok_def un sti by auto
  moreover have i: "i \<notin> jm_active m" using d(9) n by simp
  then have defs: "\<And>j. j \<in> jm_active m \<Longrightarrow> def_of ?m j = def_of m j" by (auto simp: def_of_def job_of_def)
  have "locks_ok ?m = locks_ok m" using defs by (intro locks_ok_cong) simp_all
  moreover have "exclusion ?m = exclusion m" using defs by (intro exclusion_cong) simp_all
  moreover have "limits_ok ?m = limits_ok m" by (intro limits_ok_cong) simp_all
  moreover have "wf_jobs ?m" using d(1) item(1) unfolding wf_jobs_def j by simp
  moreover have "set (jm_queue ?m) = {j. st ?m j = Some StatusQueued} - {i}" "jm_active ?m = {j. st ?m j = Some StatusRunning} - {i}"
    using d(8,9) n unfolding sti by auto
  ultimately show ?thesis using d(4-7) unfolding inv_except_def by simp
qed

end
