(* ===== verification/JobReach.thy ===== *)
theory JobReach
  imports JobCorrect
begin

section \<open>Runs of the job manager\<close>

text \<open>
  Which job \<open>popRunnableQueueLocked\<close> takes, that the dispatch loop leaves no job that could run,
  the methods composed of the steps of \<open>JobCorrect\<close>, and the states reachable by calling them in
  any order.
\<close>

subsection \<open>Choosing a job\<close>

text \<open>\<open>r\<close> is the first of the runnable jobs with the highest priority.\<close>

definition picks :: "Manager \<Rightarrow> string list \<Rightarrow> string \<Rightarrow> bool" where
  "picks m is r \<longleftrightarrow> runnable m r \<and> (\<exists>us vs. is = us @ r # vs \<and>
     (\<forall>j \<in> set us. runnable m j \<longrightarrow> jd_Priority (def_of m j) < jd_Priority (def_of m r)) \<and>
     (\<forall>j \<in> set vs. runnable m j \<longrightarrow> jd_Priority (def_of m j) \<le> jd_Priority (def_of m r)))"

lemma picks_here:
  "runnable m i \<Longrightarrow> \<forall>j \<in> set is. runnable m j \<longrightarrow> jd_Priority (def_of m j) \<le> jd_Priority (def_of m i) \<Longrightarrow> picks m (i # is) i"
  unfolding picks_def by (metis append_Nil empty_iff list.set(1))

lemma picks_later:
  assumes "picks m is r" "runnable m i \<Longrightarrow> jd_Priority (def_of m i) < jd_Priority (def_of m r)"
  shows "picks m (i # is) r"
proof -
  obtain us vs where "is = us @ r # vs" "\<forall>j \<in> set us. runnable m j \<longrightarrow> jd_Priority (def_of m j) < jd_Priority (def_of m r)"
    "\<forall>j \<in> set vs. runnable m j \<longrightarrow> jd_Priority (def_of m j) \<le> jd_Priority (def_of m r)" "runnable m r"
    using assms(1) by (auto simp: picks_def)
  then show ?thesis using assms(2) unfolding picks_def by (intro conjI exI [of _ "i # us"] exI [of _ vs]) auto
qed

lemma select_loop_Some:
  "\<exists>r. select_loop m is (Some s) = Some r \<and>
     (if \<forall>j \<in> set is. runnable m j \<longrightarrow> jd_Priority (def_of m j) \<le> jd_Priority (def_of m s) then r = s
      else picks m is r \<and> jd_Priority (def_of m s) < jd_Priority (def_of m r))"
proof (induction "is" arbitrary: s)
  case (Cons i "is")
  let ?p = "\<lambda>j. jd_Priority (def_of m j)"
  show ?case
  proof (cases "runnable m i \<and> ?p s < ?p i")
    case True
    obtain r where r: "select_loop m is (Some i) = Some r"
      "if \<forall>j \<in> set is. runnable m j \<longrightarrow> ?p j \<le> ?p i then r = i else picks m is r \<and> ?p i < ?p r"
      using Cons.IH [of i] by blast
    then have "picks m (i # is) r \<and> ?p s < ?p r"
      using True picks_here [of m i "is"] picks_later [of m "is" r i] by (auto split: if_split_asm)
    then show ?thesis using True r(1) by (intro exI [of _ r]) auto
  next
    case False
    obtain r where r: "select_loop m is (Some s) = Some r"
      "if \<forall>j \<in> set is. runnable m j \<longrightarrow> ?p j \<le> ?p s then r = s else picks m is r \<and> ?p s < ?p r"
      using Cons.IH [of s] by blast
    have "select_loop m (i # is) (Some s) = Some r" using False r(1) by auto
    moreover have "(\<forall>j \<in> set (i # is). runnable m j \<longrightarrow> ?p j \<le> ?p s) = (\<forall>j \<in> set is. runnable m j \<longrightarrow> ?p j \<le> ?p s)"
      using False by auto
    moreover have "picks m (i # is) r" if "picks m is r" "?p s < ?p r"
      using that False by (intro picks_later) auto
    ultimately show ?thesis using r(2) by (intro exI [of _ r]) (auto split: if_split_asm)
  qed
qed simp

lemma select_loop_None:
  "case select_loop m is None of
     None \<Rightarrow> \<forall>j \<in> set is. \<not> runnable m j
   | Some r \<Rightarrow> picks m is r"
proof (induction "is")
  case (Cons i "is")
  show ?case
  proof (cases "runnable m i")
    case True
    obtain r where "select_loop m is (Some i) = Some r"
      "if \<forall>j \<in> set is. runnable m j \<longrightarrow> jd_Priority (def_of m j) \<le> jd_Priority (def_of m i) then r = i
       else picks m is r \<and> jd_Priority (def_of m i) < jd_Priority (def_of m r)"
      using select_loop_Some by blast
    then show ?thesis using True picks_here [of m i "is"] picks_later [of m "is" r i] by (auto split: if_split_asm)
  next
    case False
    then show ?thesis using Cons.IH picks_later [of m "is" _ i] by (auto split: option.splits)
  qed
qed simp

lemma popRunnable_None: "popRunnableQueueLocked m = None \<longleftrightarrow> (\<forall>j \<in> set (jm_queue m). \<not> runnable m j)"
proof -
  have "picks m is r \<Longrightarrow> r \<in> set is \<and> runnable m r" for "is" r by (auto simp: picks_def)
  then show ?thesis
    using select_loop_None [of "jm_queue m" m] by (auto simp: popRunnableQueueLocked_def split: option.splits)
qed

lemma popRunnable_Some:
  "popRunnableQueueLocked m = Some (i, m') \<Longrightarrow>
   picks m (jm_queue m) i \<and> i \<in> set (jm_queue m) \<and> runnable m i \<and> m' = m\<lparr>jm_queue := remove1 i (jm_queue m)\<rparr>"
  using select_loop_None [of "jm_queue m" m]
  by (auto simp: popRunnableQueueLocked_def picks_def split: option.split_asm)

subsection \<open>The dispatch loop\<close>

lemma queue_checks [simp]:
  "dependenciesSatisfiedLocked (m\<lparr>jm_queue := q\<rparr>) = dependenciesSatisfiedLocked m"
  "within_limits (m\<lparr>jm_queue := q\<rparr>) = within_limits m"
  by (simp_all add: dependenciesSatisfiedLocked_def within_limits_def shared_running_def group_limit_def fun_eq_iff)

text \<open>No queued job could start, unless the manager is shutting down.\<close>

definition dispatched :: "Manager \<Rightarrow> bool" where
  "dispatched m \<longleftrightarrow> jm_shutdown m \<or> (\<forall>i \<in> set (jm_queue m). \<not> runnable m i)"

lemma dispatch_jobs_returns:
  "manager_inv m \<Longrightarrow> returns (dispatchLocked now m) (\<lambda>m'. manager_inv m' \<and> dispatched m' \<and> jm_shutdown m' = jm_shutdown m)"
proof (induction now m rule: dispatchLocked.induct)
  case (1 now m)
  show ?case
  proof (cases "jm_queue m \<noteq> [] \<and> \<not> jm_shutdown m")
    case False
    then show ?thesis using 1 by (auto simp: dispatchLocked.simps [of now m] dispatched_def)
  next
    case run: True
    show ?thesis
    proof (cases "popRunnableQueueLocked m")
      case None
      then show ?thesis using run 1 popRunnable_None [of m] by (simp add: dispatchLocked.simps [of now m] dispatched_def)
    next
      case (Some p)
      obtain i m1 where p: "p = (i, m1)" by (cases p)
      note pop = popRunnable_Some [OF Some [unfolded p]]
      have h: "inv_except {i} m1" "st m i = Some StatusQueued"
        using hole_queued [of m i] pop "1.prems" by (auto simp: manager_inv_def)
      have "jm_jobs m1 = jm_jobs m" using pop by simp
      note same = same_jobs [OF this]
      have "returns (startJobLocked now i m1) (\<lambda>m'. manager_inv m' \<and> jm_shutdown m' = jm_shutdown m)"
      proof (rule returns_mono [OF startJobLocked_returns])
        show "inv_except {i} m1" "st m1 i = Some StatusQueued" using h same by simp_all
        show "dependenciesSatisfiedLocked m1 (def_of m1 i)" "within_limits m1 (jd_ConcurrencyGroup (def_of m1 i))"
          unfolding same using pop by (simp_all add: runnable_def)
      qed (use pop in auto)
      then obtain m2 where m2: "startJobLocked now i m1 = Inr m2" "manager_inv m2" "jm_shutdown m2 = jm_shutdown m"
        by (auto simp: returns_def)
      have "dispatchLocked now m = dispatchLocked now m2"
        using run Some p m2(1) by (simp add: dispatchLocked.simps [of now m])
      then show ?thesis using "1.IH" [OF run Some p [symmetric] m2(1,2)] m2(3) by simp
    qed
  qed
qed

lemma returns_dispatch:
  assumes "returns r (\<lambda>m'. manager_inv m' \<and> jm_shutdown m' = b)"
  shows "returns (rbind r (dispatchLocked now)) (\<lambda>m'. manager_inv m' \<and> dispatched m' \<and> jm_shutdown m' = b)"
proof (rule returns_rbind [OF assms])
  fix m assume "manager_inv m \<and> jm_shutdown m = b"
  then show "returns (dispatchLocked now m) (\<lambda>m'. manager_inv m' \<and> dispatched m' \<and> jm_shutdown m' = b)"
    using dispatch_jobs_returns [of m now] by simp
qed

subsection \<open>The methods\<close>

lemma inv_run_done:
  assumes inv: "manager_inv m" and i: "i \<in> jm_active m"
  shows "returns (run_done now i err m) (\<lambda>m'. manager_inv m' \<and> dispatched m' \<and> jm_shutdown m' = jm_shutdown m)"
proof -
  obtain m1 where m1: "completeActiveLocked i m = Inr m1" "inv_except {i} m1" "jm_jobs m1 = jm_jobs m" "jm_shutdown m1 = jm_shutdown m"
    using completeActiveLocked_returns [OF inv i] by (auto simp: returns_def)
  have "st m i = Some StatusRunning" using inv i by (auto simp: manager_inv_def inv_except_def)
  then obtain item where item: "jm_jobs m1 i = Some item" "jb_Status item = StatusRunning" "unfinished m1 i"
    using m1(3) by (auto simp: st_def unfinished_def)
  have "returns (if \<not> jb_HasAborted item \<and> shouldRetryLocked m1 item err then standbyLocked now i err m1
            else finishLocked now i err (jb_HasAborted item) m1) (\<lambda>m'. manager_inv m' \<and> jm_shutdown m' = jm_shutdown m)"
  proof (cases "\<not> jb_HasAborted item \<and> shouldRetryLocked m1 item err")
    case True
    then obtain e where "err = Some e" "jb_RetryCount item < length (jd_RetryDelays (jb_definition item))"
      by (auto simp: shouldRetryLocked_def split: option.split_asm handler_error.split_asm if_split_asm)
    then show ?thesis
      using True returns_mono [OF standbyLocked_returns [OF m1(2) item(1)]] item(2) m1(4) by simp
  next
    case False
    then show ?thesis
      using returns_mono [OF finishLocked_returns [OF m1(2) _ item(3)]] m1(4) by (auto simp: manager_inv_def)
  qed
  then have "returns (rbind (if \<not> jb_HasAborted item \<and> shouldRetryLocked m1 item err then standbyLocked now i err m1
            else finishLocked now i err (jb_HasAborted item) m1) (dispatchLocked now))
      (\<lambda>m'. manager_inv m' \<and> dispatched m' \<and> jm_shutdown m' = jm_shutdown m)"
    by (rule returns_dispatch)
  then show ?thesis using m1(1) item(1) by (simp add: run_done_def get_job_def)
qed

lemma inv_retry_timer:
  assumes inv: "manager_inv m" and i: "st m i \<noteq> None"
  shows "returns (retry_timer now i m) (\<lambda>m'. manager_inv m' \<and> (m' = m \<or> dispatched m') \<and> jm_shutdown m' = jm_shutdown m)"
proof -
  obtain item where item: "jm_jobs m i = Some item" using i by (auto simp: st_def)
  show ?thesis
  proof (cases "jb_Status item \<noteq> StatusStandby \<or> jb_HasAborted item \<or> jm_shutdown m")
    case True
    then show ?thesis using item inv by (simp add: retry_timer_def get_job_def)
  next
    case False
    then have "st m i = Some StatusStandby" using item by (simp add: st_def)
    from retryToQueueLocked_returns [OF inv this, of now]
    have "returns (retryToQueueLocked now i m) (\<lambda>m'. manager_inv m' \<and> jm_shutdown m' = jm_shutdown m)"
      by (rule returns_mono) simp
    then have "returns (rbind (retryToQueueLocked now i m) (dispatchLocked now)) (\<lambda>m'. manager_inv m' \<and> dispatched m' \<and> jm_shutdown m' = jm_shutdown m)"
      by (rule returns_dispatch)
    then have "returns (rbind (retryToQueueLocked now i m) (dispatchLocked now)) (\<lambda>m'. manager_inv m' \<and> (m' = m \<or> dispatched m') \<and> jm_shutdown m' = jm_shutdown m)"
      by (rule returns_mono) simp
    then show ?thesis using False item by (simp add: retry_timer_def get_job_def)
  qed
qed

lemma enqueueLocked_outcome:
  assumes inv: "manager_inv m" and fresh: "jm_jobs m uuid = None"
  shows "(\<exists>e. e \<in> {ErrManagerShutdown, ErrInvalidDefinition, ErrJobAlreadyRunning} \<and> enqueueLocked now uuid def m = Inl (Err e)) \<or>
    returns (enqueueLocked now uuid def m) (\<lambda>(i, m'). i = uuid \<and> manager_inv m' \<and> dispatched m' \<and> jm_shutdown m' = jm_shutdown m)"
proof (cases "jm_shutdown m \<or> jd_Key def = '''' \<or> \<not> jd_Handler def \<or>
    jd_ConcurrencyGroup def \<noteq> '''' \<and> jm_groupLimits m (jd_ConcurrencyGroup def) \<le> 0 \<or> jd_Key def \<in> jm_activeKeys m")
  case True
  then show ?thesis by (auto simp: enqueueLocked_def)
next
  case False
  define item where "item = \<lparr>jb_ID = uuid, jb_Key = jd_Key def, jb_Name = jd_Name def, jb_Status = StatusQueued,
              jb_RetryCount = 0, jb_IsAborting = False, jb_HasAborted = False, jb_HasSkipped = False, jb_HasFailed = False, jb_Error = '''',
              jb_Result = None, jb_CreatedAt = now, jb_UpdatedAt = now, jb_StartedAt = None, jb_FinishedAt = None,
              jb_NextRunAt = None, jb_definition = def, jb_done = False\<rparr>"
  have wf: "wf_job uuid item" "jb_Status item = StatusQueued" "jb_Key item = jd_Key def" by (simp_all add: wf_job_def item_def)
  let ?m1 = "(put_job uuid item m)\<lparr>jm_history := jm_history m @ [uuid], jm_activeKeys := insert (jd_Key def) (jm_activeKeys m)\<rparr>"
  let ?m2 = "(enqueueItemLocked uuid (addHistoryLocked uuid (put_job uuid item m)))
    \<lparr>jm_activeKeys := insert (jd_Key def) (jm_activeKeys m)\<rparr>"
  have "inv_except {uuid} (trimHistory ?m1)"
    using inv_trim inv_new_job [OF inv fresh wf(1,2)] wf(3) False by simp
  moreover have "st (trimHistory ?m1) uuid = Some StatusQueued" using wf(2) by (simp add: st_def trimHistory_def)
  ultimately have "manager_inv (enqueueItemLocked uuid (trimHistory ?m1))" by (rule inv_enqueueItem)
  moreover have "enqueueItemLocked uuid (trimHistory ?m1) = ?m2"
    by (simp add: enqueueItemLocked_def addHistoryLocked_def trimHistory_def trim_cong [of ?m1 "(put_job uuid item m)\<lparr>jm_history := jm_history m @ [uuid]\<rparr>"])
  ultimately have "manager_inv (publishJobChangeLocked ''create'' uuid ?m2)" by (simp add: manager_inv_def)
  from dispatch_jobs_returns [OF this, of now]
  have "returns (dispatchLocked now (publishJobChangeLocked ''create'' uuid ?m2))
      (\<lambda>m'. manager_inv m' \<and> dispatched m' \<and> jm_shutdown m' = jm_shutdown m)"
    by (simp add: enqueueItemLocked_def addHistoryLocked_def trimHistory_def)
  moreover have "enqueueLocked now uuid def m = rbind (dispatchLocked now (publishJobChangeLocked ''create'' uuid ?m2)) (\<lambda>m. Inr (uuid, m))"
    using False by (simp add: enqueueLocked_def item_def [symmetric] Let_def)
      (auto simp: enqueueItemLocked_def addHistoryLocked_def trimHistory_def)
  ultimately show ?thesis by (auto simp: returns_def)
qed

text \<open>Aborting.\<close>

lemma abortPendingLocked_returns:
  assumes inv: "inv_except H m" and i: "i \<in> H" and un: "unfinished m i"
  shows "returns (abortPendingLocked now i m) (\<lambda>m'. inv_except (H - {i}) m' \<and> st m' = (st m)(i := Some StatusFinished) \<and>
    jm_queue m' = jm_queue m \<and> jm_active m' = jm_active m \<and> jm_shutdown m' = jm_shutdown m \<and>
    jm_maxHistory m' = jm_maxHistory m \<and> set (jm_history m') \<subseteq> set (jm_history m) \<and>
    length (jm_history m') \<le> length (jm_history m))"
proof -
  obtain old where old: "jm_jobs m i = Some old" "jb_Status old \<noteq> StatusFinished" using un by (auto simp: unfinished_def st_def)
  let ?m = "put_job i (old\<lparr>jb_IsAborting := True\<rparr>) m"
  have "wf_job i old" using inv old(1) by (simp add: inv_except_def wf_jobs_def)
  then have "inv_except H ?m" using old by (intro put_flags_inv [OF inv old(1)]) (simp_all add: wf_job_def)
  moreover have s: "st ?m = st m" using old(1) by (auto simp: st_def fun_eq_iff)
  then have "unfinished ?m i" using un by (simp add: unfinished_def)
  ultimately have "returns (finishLocked now i (Some Canceled) True ?m) (\<lambda>m'. inv_except (H - {i}) m' \<and> st m' = (st ?m)(i := Some StatusFinished) \<and>
    jm_queue m' = jm_queue ?m \<and> jm_active m' = jm_active ?m \<and> jm_shutdown m' = jm_shutdown ?m \<and>
    jm_maxHistory m' = jm_maxHistory ?m \<and> set (jm_history m') \<subseteq> set (jm_history ?m) \<and>
    length (jm_history m') \<le> length (jm_history ?m))"
    by (intro finishLocked_returns i)
  then show ?thesis using old(1) unfolding s by (simp add: abortPendingLocked_def get_job_def)
qed

lemma inv_abortActive:
  assumes inv: "manager_inv m"
  shows "returns (abortActiveLocked now i m) (\<lambda>(ok, m'). manager_inv m' \<and> (ok \<longleftrightarrow> i \<in> jm_active m) \<and> (\<not> ok \<longrightarrow> m' = m))"
proof (cases "i \<in> jm_active m")
  case False
  then show ?thesis using inv by (simp add: abortActiveLocked_def)
next
  case True
  have core: "inv_except H (m\<lparr>jm_canceled := C\<rparr>) = inv_except H m" for H m and C
    by (rule same_core_inv) (simp add: same_core_def)
  have run: "st m i = Some StatusRunning" using inv True by (auto simp: manager_inv_def inv_except_def)
  then obtain old where old: "jm_jobs m i = Some old" "jb_Status old = StatusRunning" by (auto simp: st_def)
  have h: "findJob m i = Some i" using inv run by (auto simp: findJob_def manager_inv_def inv_except_def hist_ok_def unfinished_def)
  have "wf_job i old" using inv old(1) by (simp add: manager_inv_def inv_except_def wf_jobs_def)
  then have "inv_except {} (put_job i (old\<lparr>jb_IsAborting := True, jb_HasAborted := True, jb_UpdatedAt := now\<rparr>) m)"
    using old by (intro put_flags_inv [OF inv [unfolded manager_inv_def] old(1)]) (simp_all add: wf_job_def)
  then show ?thesis using True h old(1) by (simp add: abortActiveLocked_def get_job_def manager_inv_def core)
qed

lemma inv_abortQueued:
  assumes inv: "manager_inv m"
  shows "returns (abortQueuedLocked now i m) (\<lambda>(ok, m'). manager_inv m' \<and> (ok \<longleftrightarrow> i \<in> set (jm_queue m)) \<and> (\<not> ok \<longrightarrow> m' = m))"
proof (cases "i \<in> set (jm_queue m)")
  case False
  then show ?thesis using inv by (simp add: abortQueuedLocked_def)
next
  case True
  let ?m = "m\<lparr>jm_queue := remove1 i (jm_queue m)\<rparr>"
  note h = hole_queued [OF inv [unfolded manager_inv_def] True]
  have "st ?m = st m" by (rule same_jobs) simp
  then have "unfinished ?m i" using h(2) by (simp add: unfinished_def)
  from abortPendingLocked_returns [OF h(1) _ this, of now] True show ?thesis
    by (auto simp: abortQueuedLocked_def manager_inv_def returns_def)
qed

lemma inv_abortStandby:
  assumes inv: "manager_inv m"
  shows "returns (abortStandbyLocked now i m) (\<lambda>(ok, m'). manager_inv m' \<and> (ok \<longleftrightarrow> st m i = Some StatusStandby) \<and> (\<not> ok \<longrightarrow> m' = m))"
proof (cases "st m i = Some StatusStandby")
  case True
  then have "findJob m i = Some i" using inv by (auto simp: findJob_def manager_inv_def inv_except_def hist_ok_def unfinished_def)
  moreover obtain old where old: "jm_jobs m i = Some old" "jb_Status old = StatusStandby" using True by (auto simp: st_def)
  let ?m = "put_job i (old\<lparr>jb_HasAborted := True\<rparr>) m"
  have "wf_job i old" using inv old(1) by (simp add: manager_inv_def inv_except_def wf_jobs_def)
  then have "inv_except {i} ?m"
    using old by (intro put_flags_inv [OF hole_standby [OF inv [unfolded manager_inv_def] True] old(1)]) (simp_all add: wf_job_def)
  moreover have "unfinished ?m i" using old(2) by (simp add: unfinished_def)
  ultimately show ?thesis
    using abortPendingLocked_returns [of "{i}" ?m i now] old True
    by (auto simp: abortStandbyLocked_def get_job_def manager_inv_def returns_def)
next
  case False
  have "findJob m i = Some j \<Longrightarrow> \<exists>item. jm_jobs m j = Some item \<and> i = j" for j
    using inv by (auto simp: findJob_def manager_inv_def inv_except_def hist_ok_def st_def split: if_split_asm)
  then show ?thesis using False inv by (auto simp: abortStandbyLocked_def get_job_def st_def split: option.split)
qed

lemma abort_outcome:
  assumes inv: "manager_inv m"
  shows "if unfinished m i then returns (Abort now i m) manager_inv else Abort now i m = Inl (Err ErrJobNotRunning)"
proof -
  obtain ok1 m1 where a1: "abortActiveLocked now i m = Inr (ok1, m1)" "manager_inv m1" "ok1 \<longleftrightarrow> i \<in> jm_active m" "\<not> ok1 \<longrightarrow> m1 = m"
    using inv_abortActive [OF inv, of now i] by (auto simp: returns_def)
  obtain ok2 m2 where a2: "abortQueuedLocked now i m = Inr (ok2, m2)" "manager_inv m2" "ok2 \<longleftrightarrow> i \<in> set (jm_queue m)" "\<not> ok2 \<longrightarrow> m2 = m"
    using inv_abortQueued [OF inv, of now i] by (auto simp: returns_def)
  obtain ok3 m3 where a3: "abortStandbyLocked now i m = Inr (ok3, m3)" "manager_inv m3" "ok3 \<longleftrightarrow> st m i = Some StatusStandby"
    using inv_abortStandby [OF inv, of now i] by (auto simp: returns_def)
  have "unfinished m i \<longleftrightarrow> ok1 \<or> ok2 \<or> ok3"
  proof -
    have "i \<in> jm_active m \<longleftrightarrow> st m i = Some StatusRunning" "i \<in> set (jm_queue m) \<longleftrightarrow> st m i = Some StatusQueued"
      using inv by (auto simp: manager_inv_def inv_except_def)
    then show ?thesis using a1(3) a2(3) a3(3)
      by (cases "st m i"; cases "the (st m i)") (simp_all add: unfinished_def)
  qed
  then show ?thesis using a1 a2 a3 by (auto simp: Abort_def)
qed

text \<open>Shutting down.\<close>

lemma abort_queued_returns:
  "inv_except (set is) m \<Longrightarrow> distinct is \<Longrightarrow> \<forall>i \<in> set is. unfinished m i \<Longrightarrow>
   returns (abort_queued now is m) (\<lambda>m'. manager_inv m' \<and> jm_queue m' = jm_queue m \<and> jm_active m' = jm_active m \<and>
     jm_shutdown m' = jm_shutdown m)"
proof (induction now "is" m rule: abort_queued.induct)
  case (2 now i "is" m)
  have "i \<in> set (i # is)" "unfinished m i" using 2(4) by simp_all
  from abortPendingLocked_returns [OF 2(2) this, of now]
  obtain m1 where m1: "abortPendingLocked now i m = Inr m1" "inv_except (set (i # is) - {i}) m1" "st m1 = (st m)(i := Some StatusFinished)"
    "jm_queue m1 = jm_queue m" "jm_active m1 = jm_active m" "jm_shutdown m1 = jm_shutdown m"
    by (auto simp: returns_def)
  have "set (i # is) - {i} = set is" using 2(3) by auto
  moreover have "\<forall>j \<in> set is. unfinished m1 j" using 2(3,4) m1(3) by (auto simp: unfinished_def)
  ultimately show ?case using 2(1) [of m1] 2(3) m1 by simp
qed (simp add: manager_inv_def)

lemma abort_standby_returns:
  "manager_inv m \<Longrightarrow> k + left \<le> length arr \<Longrightarrow> length (jm_history m) \<le> length arr \<Longrightarrow> \<forall>i \<in> set arr. st m i \<noteq> None \<Longrightarrow>
   returns (abort_standby now left k arr m) (\<lambda>m'. manager_inv m' \<and> jm_queue m' = jm_queue m \<and> jm_active m' = jm_active m \<and>
     jm_shutdown m' = jm_shutdown m)"
proof (induction now left k arr m rule: abort_standby.induct)
  case (2 now left k arr m)
  have k: "idx arr (int k) = Inr (arr ! k)" "arr ! k \<in> set arr" using "2.prems"(2) by (simp_all add: idx_def)
  then obtain item where item: "get_job m (arr ! k) = Inr item" "jm_jobs m (arr ! k) = Some item"
    using get_job_st [of m "arr ! k"] "2.prems"(4) by blast
  show ?case
  proof (cases "jb_Status item = StatusStandby")
    case False
    then show ?thesis using "2.IH"(2) [OF k(1) item(1) False "2.prems"(1)] "2.prems" k(1) item(1) by simp
  next
    case True
    have s: "st m (arr ! k) = Some StatusStandby" using item(2) True by (simp add: st_def)
    then have "unfinished m (arr ! k)" by (simp add: unfinished_def)
    from abortPendingLocked_returns [OF hole_standby [OF "2.prems"(1) [unfolded manager_inv_def] s] _ this, of now]
    obtain m1 where m1: "abortPendingLocked now (arr ! k) m = Inr m1" "manager_inv m1"
        "st m1 = (st m)(arr ! k := Some StatusFinished)" "jm_queue m1 = jm_queue m" "jm_active m1 = jm_active m"
        "jm_shutdown m1 = jm_shutdown m" "length (jm_history m1) \<le> length (jm_history m)"
      by (auto simp: returns_def manager_inv_def)
    have "set (jm_history m1) \<subseteq> {i. st m1 i \<noteq> None}" using m1(2) by (simp add: manager_inv_def inv_except_def hist_ok_def)
    then have "\<forall>i \<in> set (shifted (jm_history m1) arr). st m1 i \<noteq> None"
      using "2.prems"(4) m1(3) by (auto simp: shifted_def dest!: in_set_dropD)
    moreover have "length (shifted (jm_history m1) arr) = length arr"
      using m1(7) "2.prems"(3) by (simp add: shifted_def)
    ultimately show ?thesis
      using "2.IH"(1) [OF k(1) item(1) True, of m1] m1 "2.prems" k(1) item(1) True by simp
  qed
qed simp

lemma inv_Shutdown:
  assumes inv: "manager_inv m"
  shows "returns (Shutdown now m) (\<lambda>m'. manager_inv m' \<and> jm_shutdown m' \<and> jm_queue m' = [] \<and> jm_active m' \<subseteq> jm_canceled m')"
proof -
  let ?m = "m\<lparr>jm_shutdown := True, jm_queue := []\<rparr>"
  note d = inv_exceptD [OF inv [unfolded manager_inv_def]]
  have j: "jm_jobs ?m = jm_jobs m" by simp
  note same = same_jobs [OF j]
  have "keys_ok ?m = keys_ok m" "hist_ok ?m = hist_ok m" unfolding keys_ok_def hist_ok_def same by simp_all
  moreover have "locks_ok ?m = locks_ok m" by (intro locks_ok_cong) (simp_all add: same)
  moreover have "exclusion ?m = exclusion m" by (intro exclusion_cong) (simp_all add: same)
  moreover have "limits_ok ?m = limits_ok m" by (intro limits_ok_cong) simp_all
  moreover have "jm_active ?m = {j. st m j = Some StatusRunning} - set (jm_queue m)" using d(8,9) by auto
  ultimately have "inv_except (set (jm_queue m)) ?m" using d unfolding inv_except_def same by simp
  moreover have "\<forall>i \<in> set (jm_queue m). unfinished ?m i" using d(8) unfolding same by (auto simp: unfinished_def)
  ultimately obtain m1 where m1: "abort_queued now (jm_queue m) ?m = Inr m1" "manager_inv m1" "jm_queue m1 = []" "jm_shutdown m1"
    using abort_queued_returns [of "jm_queue m" ?m now] d(7) by (auto simp: returns_def)
  have "\<forall>i \<in> set (jm_history m1). st m1 i \<noteq> None" using m1(2) by (auto simp: manager_inv_def inv_except_def hist_ok_def)
  from abort_standby_returns [OF m1(2) _ _ this, of 0 "length (jm_history m1)" now]
  obtain m2 where m2: "abort_standby now (length (jm_history m1)) 0 (jm_history m1) m1 = Inr m2" "manager_inv m2" "jm_queue m2 = []" "jm_shutdown m2"
    using m1(3,4) by (auto simp: returns_def)
  have "inv_except {} (cancelActiveLocked m2) = inv_except {} m2" by (rule same_core_inv) (simp add: same_core_def cancelActiveLocked_def)
  moreover have "jm_queue (m\<lparr>jm_shutdown := True\<rparr>) = jm_queue m" by simp
  ultimately show ?thesis
    using m1 m2 unfolding Shutdown_def abortQueuedAndStandbyLocked_def
    by (simp add: manager_inv_def) (simp add: cancelActiveLocked_def)
qed

lemma inv_setJobResult:
  assumes inv: "manager_inv m" and i: "st m i \<noteq> None"
  shows "returns (setJobResult now i result m) (\<lambda>m'. manager_inv m' \<and> st m' = st m)"
proof -
  obtain old where old: "jm_jobs m i = Some old" using i by (auto simp: st_def)
  have "wf_job i old" using inv old(1) by (simp add: manager_inv_def inv_except_def wf_jobs_def)
  then have "inv_except {} (put_job i (old\<lparr>jb_Result := Some result, jb_UpdatedAt := now\<rparr>) m)" if "jb_Status old \<noteq> StatusFinished"
    using old that by (intro put_flags_inv [OF inv [unfolded manager_inv_def] old(1)]) (simp_all add: wf_job_def)
  moreover have "st m i = Some (jb_Status old)" using old by (simp add: st_def)
  ultimately show ?thesis using inv old by (auto simp: setJobResult_def get_job_def manager_inv_def)
qed

subsection \<open>Reachable states\<close>

text \<open>
  The states the manager goes through: \<open>JEnqueueDefinition\<close> is also the second half of \<open>Rerun\<close>,
  which releases the lock in between, \<open>JCancel\<close> is the moment \<open>Shutdown\<close> cancels the context, before
  it takes the lock, \<open>JDone\<close> the return of a handler, \<open>JTimer\<close> the timer of a job on standby.
\<close>

inductive job_reachable :: "Config \<Rightarrow> Manager \<Rightarrow> bool" for cfg where
  JNew: "job_reachable cfg (NewManager cfg)"
| JRegister: "job_reachable cfg m \<Longrightarrow> job_reachable cfg (Register def m)"
| JManual: "job_reachable cfg m \<Longrightarrow> job_reachable cfg (AddManualSchedule key description m)"
| JEnqueue: "job_reachable cfg m \<Longrightarrow> jm_jobs m uuid = None \<Longrightarrow> Enqueue now uuid key m = Inr (i, m') \<Longrightarrow> job_reachable cfg m'"
| JEnqueueDefinition:
    "job_reachable cfg m \<Longrightarrow> jm_jobs m uuid = None \<Longrightarrow> EnqueueDefinition now uuid def m = Inr (i, m') \<Longrightarrow> job_reachable cfg m'"
| JSchedule: "job_reachable cfg m \<Longrightarrow> jm_jobs m uuid = None \<Longrightarrow> wrapHandler now uuid key m = Inr m' \<Longrightarrow> job_reachable cfg m'"
| JRerun: "job_reachable cfg m \<Longrightarrow> jm_jobs m uuid = None \<Longrightarrow> Rerun now uuid i m = Inr m' \<Longrightarrow> job_reachable cfg m'"
| JDone: "job_reachable cfg m \<Longrightarrow> i \<in> jm_active m \<Longrightarrow> run_done now i err m = Inr m' \<Longrightarrow> job_reachable cfg m'"
| JTimer: "job_reachable cfg m \<Longrightarrow> jm_jobs m i \<noteq> None \<Longrightarrow> retry_timer now i m = Inr m' \<Longrightarrow> job_reachable cfg m'"
| JAbort: "job_reachable cfg m \<Longrightarrow> Abort now i m = Inr m' \<Longrightarrow> job_reachable cfg m'"
| JCancel: "job_reachable cfg m \<Longrightarrow> job_reachable cfg (m\<lparr>jm_shutdown := True\<rparr>)"
| JShutdown: "job_reachable cfg m \<Longrightarrow> Shutdown now m = Inr m' \<Longrightarrow> job_reachable cfg m'"
| JResult: "job_reachable cfg m \<Longrightarrow> jm_jobs m i \<noteq> None \<Longrightarrow> setJobResult now i result m = Inr m' \<Longrightarrow> job_reachable cfg m'"

lemma returnsD: "returns r P \<Longrightarrow> r = Inr x \<Longrightarrow> P x"
  by (simp add: returns_def)

lemma enqueue_inv:
  assumes "manager_inv m" "jm_jobs m uuid = None" "enqueueLocked now uuid def m = Inr (i, m')"
  shows "manager_inv m' \<and> dispatched m'"
  using enqueueLocked_outcome [OF assms(1,2), of now def] assms(3) by (auto simp: returns_def)

lemma Enqueue_inv:
  assumes "manager_inv m" "jm_jobs m uuid = None" "Enqueue now uuid key m = Inr (i, m')"
  shows "manager_inv m' \<and> dispatched m'"
  using enqueue_inv [OF assms(1,2)] assms(3) by (auto simp: Enqueue_def split: option.split_asm)

lemma job_reachable_inv:
  assumes "distinct (cfg_IndependentGroups cfg)" "job_reachable cfg m"
  shows "manager_inv m"
  using assms(2)
proof (induction rule: job_reachable.induct)
  case (JSchedule m uuid now key m')
  then show ?case using Enqueue_inv [of m uuid now key]
    by (auto simp: wrapHandler_def split: sum.split_asm fault.split_asm JobError.split_asm)
next
  case (JRerun m uuid now i m')
  then show ?case using enqueue_inv [of m uuid now]
    by (auto simp: Rerun_def EnqueueDefinition_def rbind_eq_Inr_iff map_sum_def split: option.split_asm if_split_asm sum.split_asm)
next
  case (JAbort m now i m')
  then show ?case using abort_outcome [of m i now] by (auto simp: returns_def split: if_split_asm)
next
  case (JCancel m)
  have "inv_except {} (m\<lparr>jm_shutdown := True\<rparr>) = inv_except {} m" by (rule same_core_inv) (simp add: same_core_def)
  then show ?case using JCancel by (simp add: manager_inv_def)
next
  case (JRegister m def)
  have "inv_except {} (Register def m) = inv_except {} m" by (rule same_core_inv) (simp add: same_core_def Register_def)
  then show ?case using JRegister by (simp add: manager_inv_def)
next
  case (JManual m key description)
  have "inv_except {} (AddManualSchedule key description m) = inv_except {} m"
    by (rule same_core_inv) (simp add: same_core_def AddManualSchedule_def)
  then show ?case using JManual by (simp add: manager_inv_def)
next
  case (JDone m i now err m')
  then show ?case using returnsD [OF inv_run_done] by blast
next
  case (JTimer m i now m')
  then have "st m i \<noteq> None" by (simp add: st_def)
  then show ?case using returnsD [OF inv_retry_timer] JTimer by blast
next
  case (JShutdown m now m')
  then show ?case using returnsD [OF inv_Shutdown] by blast
next
  case (JResult m i now result m')
  then have "st m i \<noteq> None" by (simp add: st_def)
  then show ?case using returnsD [OF inv_setJobResult] JResult by blast
next
  case (JEnqueue m uuid now key i m')
  then show ?case using Enqueue_inv by blast
next
  case (JEnqueueDefinition m uuid now def i m')
  then show ?case using enqueue_inv by (auto simp: EnqueueDefinition_def)
qed (simp add: manager_inv_New assms(1))

lemma card_groups:
  assumes "distinct gs" "finite A"
  shows "int (card A) - (\<Sum>g \<leftarrow> gs. int (card {i \<in> A. f i = g})) = int (card {i \<in> A. f i \<notin> set gs})"
  using assms(1)
proof (induction gs)
  case (Cons g gs)
  have fin: "finite {i \<in> A. f i \<notin> set (g # gs)}" "finite {i \<in> A. f i = g}" using assms(2) by auto
  have eq: "{i \<in> A. f i \<notin> set gs} = {i \<in> A. f i \<notin> set (g # gs)} \<union> {i \<in> A. f i = g}"
    "{i \<in> A. f i \<notin> set (g # gs)} \<inter> {i \<in> A. f i = g} = {}" using Cons.prems by auto
  have "card {i \<in> A. f i \<notin> set gs} = card {i \<in> A. f i \<notin> set (g # gs)} + card {i \<in> A. f i = g}"
    using card_Un_disjoint [OF fin eq(2)] by (simp only: eq(1))
  then show ?case using Cons by simp
qed simp

lemma shared_running_card:
  assumes "locks_ok m" "limits_ok m"
  shows "shared_running m = int (card {i \<in> jm_active m. jd_ConcurrencyGroup (def_of m i) \<notin> set (jm_independentGroups m)})"
  using assms card_groups [of "jm_independentGroups m" "jm_active m" "\<lambda>i. jd_ConcurrencyGroup (def_of m i)"]
  by (simp add: shared_running_def locks_ok_def limits_ok_def)

subsection \<open>Properties\<close>

lemma count_list_distinct: "distinct xs \<Longrightarrow> count_list xs x = (if x \<in> set xs then 1 else 0)"
  by (induction xs) auto

lemma safe_enqueue: "manager_inv m \<Longrightarrow> jm_jobs m uuid = None \<Longrightarrow> safe (enqueueLocked now uuid def m)"
  using enqueueLocked_outcome [of m uuid now def] by (auto simp: safe_def returns_def)

lemma safe_Enqueue: "manager_inv m \<Longrightarrow> jm_jobs m uuid = None \<Longrightarrow> safe (Enqueue now uuid key m)"
  using safe_enqueue [of m uuid now] by (auto simp: Enqueue_def safe_def split: option.split)

lemma safe_returns: "returns r P \<Longrightarrow> safe r"
  by (auto simp: returns_def safe_def)

lemma safe_map_sum: "safe r \<Longrightarrow> safe (map_sum id f r)"
  by (cases r) (auto simp: safe_def)

lemma safe_Rerun:
  assumes "manager_inv m" "jm_jobs m uuid = None"
  shows "safe (Rerun now uuid i m)"
proof (cases "findJob m i")
  case (Some j)
  then have "st m j \<noteq> None" using assms(1) by (auto simp: findJob_def manager_inv_def inv_except_def hist_ok_def split: if_split_asm)
  then obtain item where "get_job m j = Inr item" using get_job_st by blast
  then show ?thesis
    using Some safe_map_sum [OF safe_enqueue [OF assms], where f = snd] by (simp add: Rerun_def EnqueueDefinition_def safe_def)
qed (simp add: Rerun_def safe_def)

lemma safe_wrapHandler:
  assumes "manager_inv m" "jm_jobs m uuid = None"
  shows "safe (wrapHandler now uuid key m)"
  using safe_Enqueue [OF assms, of now key]
  by (auto simp: wrapHandler_def safe_def split: sum.split fault.split JobError.split)

text \<open>
  C7. Whatever sequence of calls, handler returns and timers a job manager goes through, no method
  panics: no job pointer dangles, no \<open>done\<close> channel is closed twice, no retry delay is read out of
  range, also while \<open>Shutdown\<close> walks the history that it trims.
\<close>

theorem job_manager_never_fails:
  assumes "distinct (cfg_IndependentGroups cfg)" "job_reachable cfg m"
  shows "(jm_jobs m uuid = None \<longrightarrow> safe (Enqueue now uuid key m) \<and> safe (EnqueueDefinition now uuid def m) \<and>
      safe (wrapHandler now uuid key m) \<and> safe (Rerun now uuid i m)) \<and>
    (i \<in> jm_active m \<longrightarrow> safe (run_done now i err m)) \<and>
    (jm_jobs m i \<noteq> None \<longrightarrow> safe (retry_timer now i m) \<and> safe (setJobResult now i result m)) \<and>
    safe (Abort now i m) \<and> safe (Shutdown now m)"
proof -
  note inv = job_reachable_inv [OF assms]
  have "safe (Abort now i m)" using abort_outcome [OF inv, of i now] by (auto simp: safe_def returns_def split: if_split_asm)
  moreover have "jm_jobs m i \<noteq> None \<longleftrightarrow> st m i \<noteq> None" by (simp add: st_def)
  ultimately show ?thesis
    using safe_enqueue [OF inv] safe_Enqueue [OF inv] safe_wrapHandler [OF inv] safe_Rerun [OF inv]
      safe_returns [OF inv_run_done [OF inv]] safe_returns [OF inv_retry_timer [OF inv]]
      safe_returns [OF inv_setJobResult [OF inv]] safe_returns [OF inv_Shutdown [OF inv]]
    by (simp add: EnqueueDefinition_def)
qed

text \<open>
  C6. At every moment of a run the jobs that are running respect their locks and limits: a key that
  one of them holds exclusively is held by no other, neither exclusively nor shared; a concurrency
  group runs at most as many jobs as its limit; and the jobs outside the independent groups are at
  most \<open>MaxConcurrentJobs\<close> (one if that is not positive).
\<close>

theorem job_mutual_exclusion:
  assumes "distinct (cfg_IndependentGroups cfg)" "job_reachable cfg m"
  shows "(\<forall>i j. has_status m StatusRunning i \<and> has_status m StatusRunning j \<and> i \<noteq> j \<longrightarrow>
      set (jd_ExclusiveKeys (def_of m i)) \<inter> (set (jd_ExclusiveKeys (def_of m j)) \<union> set (jd_SharedKeys (def_of m j))) = {}) \<and>
    (\<forall>g. card {i. has_status m StatusRunning i \<and> jd_ConcurrencyGroup (def_of m i) = g} \<le> nat (group_limit m g)) \<and>
    int (card {i. has_status m StatusRunning i \<and> jd_ConcurrencyGroup (def_of m i) \<notin> set (jm_independentGroups m)})
      \<le> jm_maxConcurrent m"
proof -
  note d = inv_exceptD [OF job_reachable_inv [OF assms, unfolded manager_inv_def]]
  have run: "has_status m StatusRunning i \<longleftrightarrow> i \<in> jm_active m" for i
    using d(9) by (auto simp: has_status_def st_def split: option.splits)
  have "card {i. has_status m StatusRunning i \<and> jd_ConcurrencyGroup (def_of m i) = g} \<le> nat (group_limit m g)" for g
  proof -
    have "jm_groupRunning m g = int (card {i \<in> jm_active m. jd_ConcurrencyGroup (def_of m i) = g})"
      using d(4) by (simp add: locks_ok_def)
    moreover have "jm_groupRunning m g > 0 \<longrightarrow> jm_groupRunning m g \<le> group_limit m g" using d(6) by (simp add: limits_ok_def)
    ultimately show ?thesis unfolding run by linarith
  qed
  moreover have "shared_running m \<le> jm_maxConcurrent m" using d(6) by (simp add: limits_ok_def)
  ultimately show ?thesis
    using d(5) shared_running_card [OF d(4,6)] unfolding exclusion_def run by auto
qed

text \<open>
  C23. At every moment of a run a key has at most one job that is not finished, that job is in the
  history so that it can be found and aborted, the queue holds exactly the queued jobs, each once,
  and no job has been retried more often than it has retry delays.
\<close>

theorem job_single_instance:
  assumes "distinct (cfg_IndependentGroups cfg)" "job_reachable cfg m"
    and "jm_jobs m i = Some a" "jm_jobs m j = Some b"
  shows "(jb_Status a \<noteq> StatusFinished \<and> jb_Status b \<noteq> StatusFinished \<and> jb_Key a = jb_Key b \<longrightarrow> i = j) \<and>
    (jb_Status a \<noteq> StatusFinished \<longrightarrow> findJob m i = Some i \<and> jb_Key a \<in> jm_activeKeys m) \<and>
    count_list (jm_queue m) i = (if jb_Status a = StatusQueued then 1 else 0) \<and>
    jb_RetryCount a \<le> length (jd_RetryDelays (jb_definition a))"
proof -
  note d = inv_exceptD [OF job_reachable_inv [OF assms(1,2), unfolded manager_inv_def]]
  have un: "unfinished m i \<longleftrightarrow> jb_Status a \<noteq> StatusFinished" "unfinished m j \<longleftrightarrow> jb_Status b \<noteq> StatusFinished"
    "st m i = Some (jb_Status a)" using assms(3,4) by (auto simp: unfinished_def st_def)
  have key: "key_of m i = jb_Key a" "key_of m j = jb_Key b" using assms(3,4) by (simp_all add: key_of_def job_of_def)
  have "jb_Status a \<noteq> StatusFinished \<and> jb_Status b \<noteq> StatusFinished \<and> jb_Key a = jb_Key b \<longrightarrow> i = j"
    using d(2) un key by (auto simp: keys_ok_def inj_on_def)
  moreover have "jb_Status a \<noteq> StatusFinished \<longrightarrow> findJob m i = Some i \<and> jb_Key a \<in> jm_activeKeys m"
    using d(2,3) un(1) by (auto simp: keys_ok_def hist_ok_def findJob_def key(1) [symmetric])
  moreover have "count_list (jm_queue m) i = (if jb_Status a = StatusQueued then 1 else 0)"
    using d(7,8) un(3) by (simp add: count_list_distinct)
  moreover have "jb_RetryCount a \<le> length (jd_RetryDelays (jb_definition a))"
    using d(1) assms(3) by (simp add: wf_jobs_def wf_job_def)
  ultimately show ?thesis by blast
qed

text \<open>
  C22. The dispatcher takes, of the queued jobs that may run now (a slot is free in their group and
  overall, no queued writer waits for a key they share, their dependencies are done and their keys
  free), the first one of the highest priority, and takes it out of the queue; it takes none only if
  no queued job may run.
\<close>

theorem job_selection:
  "case popRunnableQueueLocked m of
     None \<Rightarrow> \<forall>i \<in> set (jm_queue m). \<not> runnable m i
   | Some (i, m') \<Rightarrow> runnable m i \<and>
       (\<exists>us vs. jm_queue m = us @ i # vs \<and> m' = m\<lparr>jm_queue := us @ vs\<rparr> \<and>
          (\<forall>j \<in> set us. runnable m j \<longrightarrow> jd_Priority (def_of m j) < jd_Priority (def_of m i)) \<and>
          (\<forall>j \<in> set vs. runnable m j \<longrightarrow> jd_Priority (def_of m j) \<le> jd_Priority (def_of m i)))"
proof (cases "popRunnableQueueLocked m")
  case None
  then show ?thesis using popRunnable_None [of m] by simp
next
  case (Some p)
  obtain i m' where p: "p = (i, m')" by (cases p)
  note pop = popRunnable_Some [OF Some [unfolded p]]
  then obtain us vs where q: "jm_queue m = us @ i # vs"
    "\<forall>j \<in> set us. runnable m j \<longrightarrow> jd_Priority (def_of m j) < jd_Priority (def_of m i)"
    "\<forall>j \<in> set vs. runnable m j \<longrightarrow> jd_Priority (def_of m j) \<le> jd_Priority (def_of m i)"
    by (auto simp: picks_def)
  have "i \<notin> set us" using q(2) pop by auto
  then have "remove1 i (jm_queue m) = us @ vs" using q(1) by (simp add: remove1_append)
  then show ?thesis using pop q Some p by auto
qed

text \<open>
  C21. No job that may run is left waiting when a job is enqueued or a handler returns: unless the
  manager is shutting down, no queued job may run in the state these leave. If nothing runs then,
  every job still queued waits for a dependency that is not finished, shares a key with a queued
  writer, or is in a group whose limit admits no job.
\<close>

theorem job_dispatch_complete:
  assumes "distinct (cfg_IndependentGroups cfg)" "job_reachable cfg m"
    and "(jm_jobs m i = None \<and> EnqueueDefinition now i def m = Inr (i', m')) \<or> (i \<in> jm_active m \<and> run_done now i err m = Inr m')"
    and "\<not> jm_shutdown m'" "j \<in> set (jm_queue m')"
  shows "\<not> runnable m' j \<and>
    (jm_active m' = {} \<longrightarrow> (\<exists>dep \<in> set (jd_DependsOn (def_of m' j)). dep \<in> jm_activeKeys m') \<or>
       blockedByWriterLocked m' j \<or> group_limit m' (jd_ConcurrencyGroup (def_of m' j)) \<le> 0)"
proof -
  note inv = job_reachable_inv [OF assms(1,2)]
  have m': "manager_inv m'" "dispatched m'"
    using assms(3) enqueue_inv [OF inv] returnsD [OF inv_run_done [OF inv]] by (auto simp: EnqueueDefinition_def)
  then have nr: "\<not> runnable m' j" using assms(4,5) by (auto simp: dispatched_def)
  note d = inv_exceptD [OF m'(1) [unfolded manager_inv_def]]
  have "(\<exists>dep \<in> set (jd_DependsOn (def_of m' j)). dep \<in> jm_activeKeys m') \<or>
       blockedByWriterLocked m' j \<or> group_limit m' (jd_ConcurrencyGroup (def_of m' j)) \<le> 0" if "jm_active m' = {}"
  proof -
    have l: "jm_running m' = 0" "\<And>g. jm_groupRunning m' g = 0" "\<And>k. jm_activeSharedKeys m' k = 0" "jm_activeExclusiveKeys m' = {}"
      using d(4) that by (simp_all add: locks_ok_def)
    have "shared_running m' = 0" by (simp add: shared_running_def l sum_list_0)
    moreover have "1 \<le> jm_maxConcurrent m'" using d(6) by (simp add: limits_ok_def)
    ultimately show ?thesis using nr
      by (auto simp: runnable_def within_limits_def dependenciesSatisfiedLocked_def l list_all_iff)
  qed
  then show ?thesis using nr by blast
qed

subsection \<open>Example runs\<close>

definition demo_cfg :: "int \<Rightarrow> int \<Rightarrow> Config" where
  "demo_cfg history jobs = \<lparr>cfg_MaxHistory = history, cfg_MaxConcurrentJobs = jobs, cfg_GroupLimits = (\<lambda>_. 0), cfg_IndependentGroups = []\<rparr>"

definition demo_def :: "string \<Rightarrow> string list \<Rightarrow> string list \<Rightarrow> string list \<Rightarrow> JobDefinition" where
  "demo_def key deps excl shared = \<lparr>jd_Key = key, jd_Name = key, jd_Handler = True, jd_DependsOn = deps, jd_ExclusiveKeys = excl,
     jd_SharedKeys = shared, jd_ConcurrencyGroup = '''', jd_Priority = 0, jd_IsRerunnable = True, jd_RetryDelays = [1], jd_RetryIf = None\<rparr>"

definition after_enqueue :: "JobDefinition \<Rightarrow> Manager \<Rightarrow> Manager" where
  "after_enqueue def m = snd (projr (EnqueueDefinition 0 (jd_Key def) def m))"

definition after_done :: "string \<Rightarrow> handler_error option \<Rightarrow> Manager \<Rightarrow> Manager" where
  "after_done i err m = projr (run_done 0 i err m)"

lemma reach_enqueue:
  "job_reachable cfg m \<Longrightarrow> jm_jobs m (jd_Key def) = None \<Longrightarrow> \<not> isl (EnqueueDefinition 0 (jd_Key def) def m) \<Longrightarrow>
   job_reachable cfg (after_enqueue def m)"
  by (cases "EnqueueDefinition 0 (jd_Key def) def m") (auto simp: after_enqueue_def intro: JEnqueueDefinition)

lemma reach_done:
  "job_reachable cfg m \<Longrightarrow> i \<in> jm_active m \<Longrightarrow> \<not> isl (run_done 0 i err m) \<Longrightarrow> job_reachable cfg (after_done i err m)"
  by (cases "run_done 0 i err m") (auto simp: after_done_def intro: JDone)

text \<open>Two jobs that hold the same key exclusively: the second waits for the first.\<close>

definition demo_run :: "Manager" where
  "demo_run = after_enqueue (demo_def ''b'' [] [''k''] []) (after_enqueue (demo_def ''a'' [] [''k''] []) (NewManager (demo_cfg 10 2)))"

lemma demo_run_reachable: "job_reachable (demo_cfg 10 2) demo_run"
  unfolding demo_run_def by (intro reach_enqueue JNew) code_simp+

theorem job_manager_never_fails_witness:
  "distinct (cfg_IndependentGroups (demo_cfg 10 2)) \<and> job_reachable (demo_cfg 10 2) demo_run \<and>
   ''a'' \<in> jm_active demo_run \<and> safe (run_done 5 ''a'' None demo_run) \<and> safe (Shutdown 5 demo_run)"
proof -
  have "distinct (cfg_IndependentGroups (demo_cfg 10 2))" "''a'' \<in> jm_active demo_run" by code_simp+
  then show ?thesis
    using job_manager_never_fails [OF _ demo_run_reachable, of "''c''" 5 "''c''" "demo_def ''c'' [] [] []" "''a''" None "''''"]
      demo_run_reachable by blast
qed

theorem job_mutual_exclusion_witness:
  "distinct (cfg_IndependentGroups (demo_cfg 10 2)) \<and> job_reachable (demo_cfg 10 2) demo_run \<and>
   has_status demo_run StatusRunning ''a'' \<and>
   card {i. has_status demo_run StatusRunning i \<and> jd_ConcurrencyGroup (def_of demo_run i) = ''''} \<le> 2"
proof -
  have d: "distinct (cfg_IndependentGroups (demo_cfg 10 2))" "has_status demo_run StatusRunning ''a''" "group_limit demo_run '''' = 2" by code_simp+
  have "card {i. has_status demo_run StatusRunning i \<and> jd_ConcurrencyGroup (def_of demo_run i) = ''''} \<le> nat (group_limit demo_run '''')"
    using job_mutual_exclusion [OF d(1) demo_run_reachable] by blast
  then show ?thesis using d demo_run_reachable by simp
qed

theorem job_single_instance_witness:
  "distinct (cfg_IndependentGroups (demo_cfg 10 2)) \<and> job_reachable (demo_cfg 10 2) demo_run \<and>
   jm_jobs demo_run ''b'' = Some (job_of demo_run ''b'') \<and> count_list (jm_queue demo_run) ''b'' = 1"
proof -
  have d: "distinct (cfg_IndependentGroups (demo_cfg 10 2))" "has_status demo_run StatusQueued ''b''" by code_simp+
  then have b: "jm_jobs demo_run ''b'' = Some (job_of demo_run ''b'')" "jb_Status (job_of demo_run ''b'') = StatusQueued"
    by (auto simp: has_status_def job_of_def split: option.split_asm)
  show ?thesis using job_single_instance [OF d(1) demo_run_reachable b(1) b(1)] b d(1) demo_run_reachable by simp
qed

theorem job_selection_witness:
  "case popRunnableQueueLocked (demo_run\<lparr>jm_activeExclusiveKeys := {}\<rparr>) of None \<Rightarrow> False | Some (i, m') \<Rightarrow>
     i = ''b'' \<and> runnable (demo_run\<lparr>jm_activeExclusiveKeys := {}\<rparr>) i"
proof -
  let ?m = "demo_run\<lparr>jm_activeExclusiveKeys := {}\<rparr>"
  have "case popRunnableQueueLocked ?m of None \<Rightarrow> False | Some (i, m') \<Rightarrow> i = ''b''" by code_simp
  then show ?thesis using job_selection [of ?m] by (auto split: option.split_asm)
qed

theorem job_dispatch_complete_witness:
  "\<exists>m'. EnqueueDefinition 0 ''b'' (demo_def ''b'' [] [''k''] []) (after_enqueue (demo_def ''a'' [] [''k''] []) (NewManager (demo_cfg 10 2)))
     = Inr (''b'', m') \<and> ''b'' \<in> set (jm_queue m') \<and> \<not> runnable m' ''b''"
proof -
  let ?d = "demo_def ''b'' [] [''k''] []" and ?m = "after_enqueue (demo_def ''a'' [] [''k''] []) (NewManager (demo_cfg 10 2))"
  have r: "job_reachable (demo_cfg 10 2) ?m" by (intro reach_enqueue JNew) code_simp+
  have n: "distinct (cfg_IndependentGroups (demo_cfg 10 2))" "jm_jobs ?m ''b'' = None" by code_simp+
  have "case EnqueueDefinition 0 ''b'' ?d ?m of Inl _ \<Rightarrow> False | Inr (i, m') \<Rightarrow> i = ''b'' \<and> \<not> jm_shutdown m' \<and> ''b'' \<in> set (jm_queue m')"
    by code_simp
  then obtain m' where m': "EnqueueDefinition 0 ''b'' ?d ?m = Inr (''b'', m')" "\<not> jm_shutdown m'" "''b'' \<in> set (jm_queue m')"
    by (auto split: sum.split_asm)
  show ?thesis using job_dispatch_complete [OF n(1) r _ m'(2,3)] m' n(2) by blast
qed

subsection \<open>Jobs that are left behind\<close>

text \<open>
  Three jobs whose handlers have failed wait for their retry when \<open>Shutdown\<close> is called, and the
  history is bounded by one entry. Aborting the first removes it from the history in place, the
  loop over the history skips the second: it stays on standby, its \<open>done\<close> channel open.
\<close>

definition demo_standby :: "Manager" where
  "demo_standby =
     (let fail = Some (Failed ''x'');
          m = after_enqueue (demo_def ''a'' [] [] []) (NewManager (demo_cfg 1 3));
          m = after_enqueue (demo_def ''c'' [] [] []) (after_enqueue (demo_def ''b'' [] [] []) m)
      in after_done ''c'' fail (after_done ''b'' fail (after_done ''a'' fail m)))"

lemma Shutdown_skips_standby:
  "job_reachable (demo_cfg 1 3) demo_standby \<and>
   (case Shutdown 9 demo_standby of Inl _ \<Rightarrow> False | Inr m \<Rightarrow>
      has_status m StatusFinished ''a'' \<and> has_status m StatusStandby ''b'' \<and> has_status m StatusFinished ''c'')"
proof
  show "job_reachable (demo_cfg 1 3) demo_standby"
    unfolding demo_standby_def Let_def by (intro reach_done reach_enqueue JNew) code_simp+
qed code_simp

text \<open>
  A job waits for one that is on standby. Aborting the latter does not dispatch: nothing runs, the
  job that waits may run, and it is not started.
\<close>

definition demo_waiting :: "Manager" where
  "demo_waiting = after_enqueue (demo_def ''b'' [''a''] [] [])
     (after_done ''a'' (Some (Failed ''x'')) (after_enqueue (demo_def ''a'' [] [] []) (NewManager (demo_cfg 10 2))))"

lemma Abort_does_not_dispatch:
  "job_reachable (demo_cfg 10 2) demo_waiting \<and>
   (case Abort 9 ''a'' demo_waiting of Inl _ \<Rightarrow> False | Inr m \<Rightarrow>
      jm_active m = {} \<and> jm_queue m = [''b''] \<and> runnable m ''b'')"
proof
  show "job_reachable (demo_cfg 10 2) demo_waiting"
    unfolding demo_waiting_def by (intro reach_done reach_enqueue JNew) code_simp+
qed code_simp

text \<open>Two queued writers that share each other's key wait for each other, while nothing runs.\<close>

definition demo_crossed :: "Manager" where
  "demo_crossed = after_done ''z'' None
     (after_enqueue (demo_def ''y'' [] [''l''] [''k'']) (after_enqueue (demo_def ''x'' [] [''k''] [''l''])
        (after_enqueue (demo_def ''z'' [] [] []) (NewManager (demo_cfg 10 1)))))"

lemma crossed_writers_deadlock:
  "job_reachable (demo_cfg 10 1) demo_crossed \<and> jm_active demo_crossed = {} \<and> jm_queue demo_crossed = [''x'', ''y''] \<and>
   popRunnableQueueLocked demo_crossed = None"
proof (intro conjI)
  show "job_reachable (demo_cfg 10 1) demo_crossed"
    unfolding demo_crossed_def by (intro reach_done reach_enqueue JNew) code_simp+
  show "popRunnableQueueLocked demo_crossed = None" unfolding popRunnable_None by code_simp
qed code_simp+

end
