(* ===== verification/Schedule.thy ===== *)
theory Schedule
  imports Eit
begin

section \<open>Section and schedule tracking\<close>

text \<open>
  \<open>internal/isdb/isdb.go\<close> and \<open>internal/isdb/schedule.go\<close>: the tracker that tells when every section
  of a table has been received, and the tracker of one service's EIT schedule, which keeps the
  newest payload of every section and tells when the basic and the extended tables are complete.

  Go's maps with \<open>uint8\<close> keys are maps on \<open>byte\<close>, and \<open>map_keys\<close> lists the keys of one in ascending
  order: the results of the loops over these maps do not depend on the order, or the code sorts.
  The arrays of 8 tables and 32 segments are lists of these lengths; their indices are masked or
  shifted bytes. A time is its Unix time in nanoseconds, the zero \<open>Time\<close> of \<open>latest\<close> is \<open>None\<close>.
\<close>

subsection \<open>The section header and the table tracker\<close>

record isdb_header =
  ih_TableIDExtension :: uint16
  ih_Version :: byte
  ih_SectionNumber :: byte
  ih_LastSectionNumber :: byte
  ih_CurrentNext :: bool
  ih_LastTableID :: byte
  ih_SegmentLastSection :: byte

record TableTracker =
  tt_initialized :: bool
  tt_extension :: uint16
  tt_version :: byte
  tt_last :: byte
  tt_sections :: "byte set"

definition new_table_tracker :: TableTracker where
  "new_table_tracker = \<lparr>tt_initialized = False, tt_extension = 0, tt_version = 0, tt_last = 0, tt_sections = {}\<rparr>"

text \<open>The loops count a \<open>uint8\<close> up to \<open>last\<close> and stop there, before it would wrap.\<close>

lemma count_up_decreases: "i \<noteq> l \<Longrightarrow> unat (l - (i + 1)) < unat (l - (i :: byte))"
  by (metis (no_types, opaque_lifting) add.commute diff_diff_eq2 diff_self eq_iff_diff_eq_0 measure_unat diff_diff_eq)

function ready_loop :: "byte set \<Rightarrow> byte \<Rightarrow> byte \<Rightarrow> bool" where
  "ready_loop sections l i = (if i \<notin> sections then False else if i = l then True else ready_loop sections l (i + 1))"
  by auto
termination
  by (relation "measure (\<lambda>(sections, l, i). unat (l - i))") (auto simp: count_up_decreases)

function missing_loop :: "byte set \<Rightarrow> byte \<Rightarrow> byte \<Rightarrow> int list" where
  "missing_loop sections l i =
     (if i \<notin> sections then [uint i] else []) @ (if i = l then [] else missing_loop sections l (i + 1))"
  by auto
termination
  by (relation "measure (\<lambda>(sections, l, i). unat (l - i))") (auto simp: count_up_decreases)

declare ready_loop.simps [simp del] missing_loop.simps [simp del]

definition tracker_Ready :: "TableTracker \<Rightarrow> bool" where
  "tracker_Ready t = (if \<not> tt_initialized t then False else ready_loop (tt_sections t) (tt_last t) 0)"

definition tracker_Missing :: "TableTracker \<Rightarrow> int list" where
  "tracker_Missing t = (if \<not> tt_initialized t then [] else missing_loop (tt_sections t) (tt_last t) 0)"

definition tracker_Add :: "isdb_header \<Rightarrow> TableTracker \<Rightarrow> (bool \<times> bool) \<times> TableTracker" where
  "tracker_Add h t =
     (if ih_SectionNumber h > ih_LastSectionNumber h then ((False, tracker_Ready t), t)
      else if \<not> ih_CurrentNext h then ((False, tracker_Ready t), t)
      else
        let starts = \<not> tt_initialized t \<or> tt_extension t \<noteq> ih_TableIDExtension h \<or> tt_version t \<noteq> ih_Version h;
            t = (if starts
                 then \<lparr>tt_initialized = True, tt_extension = ih_TableIDExtension h, tt_version = ih_Version h,
                       tt_last = ih_LastSectionNumber h, tt_sections = {}\<rparr>
                 else t);
            t = t\<lparr>tt_sections := insert (ih_SectionNumber h) (tt_sections t)\<rparr>
        in ((starts, tracker_Ready t), t))"

subsection \<open>Kinds of tables and networks\<close>

datatype EITKind = EITKindOther | EITKindPresentFollowing | EITKindScheduleBasic | EITKindScheduleExtended

definition ClassifyTSEITTableID :: "byte \<Rightarrow> EITKind" where
  "ClassifyTSEITTableID tableID =
     (if tableID = 0x4E \<or> tableID = 0x4F then EITKindPresentFollowing
      else if tableID \<ge> 0x50 \<and> tableID \<le> 0x57 \<or> tableID \<ge> 0x60 \<and> tableID \<le> 0x67 then EITKindScheduleBasic
      else if tableID \<ge> 0x58 \<and> tableID \<le> 0x5F \<or> tableID \<ge> 0x68 \<and> tableID \<le> 0x6F then EITKindScheduleExtended
      else EITKindOther)"

definition ClassifyMMTEITTableID :: "byte \<Rightarrow> EITKind" where
  "ClassifyMMTEITTableID tableID =
     (if tableID = 0x8B then EITKindPresentFollowing
      else if tableID \<ge> 0x8C \<and> tableID \<le> 0x93 then EITKindScheduleBasic
      else if tableID \<ge> 0x94 \<and> tableID \<le> 0x9B then EITKindScheduleExtended
      else EITKindOther)"

datatype NetworkClass = NetworkClassOther | NetworkClassTerrestrial | NetworkClassBSSatellite | NetworkClassCSSatellite
  | NetworkClassAdvancedBS | NetworkClassAdvancedWidebandCS

definition ClassifyOriginalNetworkID :: "uint16 \<Rightarrow> NetworkClass" where
  "ClassifyOriginalNetworkID onid =
     (if onid = 0x000B then NetworkClassAdvancedBS
      else if onid = 0x000C then NetworkClassAdvancedWidebandCS
      else if onid = 0x0004 then NetworkClassBSSatellite
      else if onid = 0x0006 \<or> onid = 0x0007 then NetworkClassCSSatellite
      else NetworkClassOther)"

definition IsSatelliteOriginalNetworkID :: "uint16 \<Rightarrow> bool" where
  "IsSatelliteOriginalNetworkID onid =
     (case ClassifyOriginalNetworkID onid of
        NetworkClassBSSatellite \<Rightarrow> True
      | NetworkClassCSSatellite \<Rightarrow> True
      | _ \<Rightarrow> False)"

subsection \<open>The schedule tracker\<close>

datatype ScheduleSystem = ScheduleTS | ScheduleMMT

text \<open>The results are \<open>base\<close>, \<open>index\<close>, \<open>basic\<close> and \<open>ok\<close>.\<close>

definition scheduleBaseOf :: "ScheduleSystem \<Rightarrow> byte \<Rightarrow> byte \<times> byte \<times> bool \<times> bool" where
  "scheduleBaseOf system tableID =
     (case system of
        ScheduleMMT \<Rightarrow>
          if tableID \<ge> 0x8C \<and> tableID \<le> 0x93 then (0x8C, tableID - 0x8C, True, True)
          else if tableID \<ge> 0x94 \<and> tableID \<le> 0x9B then (0x94, tableID - 0x94, False, True)
          else (0, 0, False, False)
      | ScheduleTS \<Rightarrow>
          if tableID \<ge> 0x50 \<and> tableID \<le> 0x57 then (0x50, tableID - 0x50, True, True)
          else if tableID \<ge> 0x58 \<and> tableID \<le> 0x5F then (0x58, tableID - 0x58, False, True)
          else if tableID \<ge> 0x60 \<and> tableID \<le> 0x67 then (0x60, tableID - 0x60, True, True)
          else if tableID \<ge> 0x68 \<and> tableID \<le> 0x6F then (0x68, tableID - 0x68, False, True)
          else (0, 0, False, False))"

record 'p scheduleTable =
  sb_version :: byte
  sb_hasVersion :: bool
  sb_lastSection :: byte
  sb_segmentLast :: "byte \<rightharpoonup> byte"
  sb_sections :: "byte set"
  sb_payloads :: "byte \<rightharpoonup> 'p"
  sb_versions :: "byte \<rightharpoonup> byte"

record scheduleReadyFlag =
  rf_observed :: bool
  rf_version :: byte
  rf_flag :: "byte list"
  rf_ignore :: "byte list"

record scheduleReadyGroup =
  rg_base :: byte
  rg_basic :: bool
  rg_lastFlagsID :: int
  rg_flags :: "scheduleReadyFlag list"

record 'p ScheduleTracker =
  sc_system :: ScheduleSystem
  sc_tables :: "byte \<rightharpoonup> 'p scheduleTable"
  sc_groups :: "byte \<rightharpoonup> scheduleReadyGroup"
  sc_latest :: "int option"
  sc_resets :: int

definition NewScheduleTracker :: "ScheduleSystem \<Rightarrow> 'p ScheduleTracker" where
  "NewScheduleTracker system =
     \<lparr>sc_system = system, sc_tables = Map.empty, sc_groups = Map.empty, sc_latest = None, sc_resets = 0\<rparr>"

definition map_keys :: "(byte \<rightharpoonup> 'a) \<Rightarrow> byte list" where
  "map_keys m = filter (\<lambda>k. m k \<noteq> None) (map of_nat [0..<256])"

definition currentJSTSegment :: "int \<Rightarrow> int" where
  "currentJSTSegment now = trunc_div (now div 1000000 + 32400000) 10800000 mod 8"

text \<open>\<open>scheduleReadyFlag.reset\<close>\<close>

definition reset_flag :: "bool \<Rightarrow> scheduleReadyFlag" where
  "reset_flag required =
     \<lparr>rf_observed = False, rf_version = 0, rf_flag = replicate 32 0,
      rf_ignore = (if \<not> required then replicate 32 0xff else replicate 32 0)\<rparr>"

definition new_group :: "byte \<Rightarrow> bool \<Rightarrow> scheduleReadyGroup" where
  "new_group base basic =
     \<lparr>rg_base = base, rg_basic = basic, rg_lastFlagsID = -1,
      rg_flags = replicate 8 \<lparr>rf_observed = False, rf_version = 0, rf_flag = replicate 32 0, rf_ignore = replicate 32 0xff\<rparr>\<rparr>"

definition last_flags_id :: "ScheduleSystem \<Rightarrow> byte \<Rightarrow> isdb_header \<Rightarrow> int" where
  "last_flags_id system base header =
     (let (lastBase, lastIndex, _, lastOK) = scheduleBaseOf system (ih_LastTableID header)
      in if lastOK \<and> lastBase = base then uint lastIndex else uint (ih_LastTableID header AND 0x07))"

definition reset_flags :: "int \<Rightarrow> int \<Rightarrow> scheduleReadyFlag list \<Rightarrow> scheduleReadyFlag list" where
  "reset_flags lastFlagsID old flags =
     map (\<lambda>(i, f). if int i > lastFlagsID \<or> int i > old then reset_flag (int i \<le> lastFlagsID) else f)
       (enumerate 0 flags)"

text \<open>The loops that set bits of \<open>ignore\<close>, with the flag \<open>changed\<close>.\<close>

fun ignore_segments :: "nat list \<Rightarrow> bool \<times> byte list \<Rightarrow> bool \<times> byte list" where
  "ignore_segments [] r = r"
| "ignore_segments (i # is) (changed, ignore) =
     ignore_segments is (if ignore ! i \<noteq> 0xff then (True, ignore[i := 0xff]) else (changed, ignore))"

fun ignore_sections :: "nat \<Rightarrow> nat list \<Rightarrow> bool \<times> byte list \<Rightarrow> bool \<times> byte list" where
  "ignore_sections segment [] r = r"
| "ignore_sections segment (i # is) (changed, ignore) =
     (let mask = push_bit i (1 :: byte)
      in ignore_sections segment is
           (if ignore ! segment AND mask = 0 then (True, ignore[segment := ignore ! segment OR mask]) else (changed, ignore)))"

text \<open>The part of \<open>observeReady\<close> from where the version of the table is noted.\<close>

definition mark_section :: "nat \<Rightarrow> isdb_header \<Rightarrow> int \<Rightarrow> bool \<Rightarrow> scheduleReadyFlag \<Rightarrow> bool \<times> scheduleReadyFlag" where
  "mark_section flagsID header now changed target =
     (let fresh = \<not> rf_observed target \<or> rf_version target \<noteq> ih_Version header;
          changed = (changed \<or> fresh);
          (changed, ignore) =
            (if flagsID = 0 then ignore_segments [0..<nat (currentJSTSegment now)] (changed, rf_ignore target)
             else (changed, rf_ignore target));
          lastSegment = unat (drop_bit 3 (ih_LastSectionNumber header));
          (changed, ignore) = ignore_segments [lastSegment + 1..<length ignore] (changed, ignore);
          segmentNumber = unat (drop_bit 3 (ih_SectionNumber header));
          sectionNumber = unat (ih_SectionNumber header AND 0x07);
          segmentLastSection = unat (ih_SegmentLastSection header AND 0x07);
          (changed, ignore) = ignore_sections segmentNumber [segmentLastSection + 1..<8] (changed, ignore);
          mask = push_bit sectionNumber 1;
          flag = rf_flag target;
          (changed, flag) =
            (if flag ! segmentNumber AND mask = 0 then (True, flag[segmentNumber := flag ! segmentNumber OR mask])
             else (changed, flag))
      in (changed, \<lparr>rf_observed = True, rf_version = ih_Version header, rf_flag = flag, rf_ignore = ignore\<rparr>))"

text \<open>\<open>observeReady\<close> on its group: whether there was progress, the number of resets, the group.\<close>

definition observe_group ::
  "int \<Rightarrow> nat \<Rightarrow> isdb_header \<Rightarrow> int \<Rightarrow> scheduleReadyGroup \<Rightarrow> bool \<times> int \<times> scheduleReadyGroup" where
  "observe_group lastFlagsID flagsID header now grp =
     (let moved = rg_lastFlagsID grp \<noteq> lastFlagsID;
          resets = (if moved \<and> rg_lastFlagsID grp \<ge> 0 then 1 else 0);
          flags = (if moved then reset_flags lastFlagsID (rg_lastFlagsID grp) (rg_flags grp) else rg_flags grp);
          target = flags ! flagsID;
          renewed = rf_observed target \<and> rf_version target \<noteq> ih_Version header;
          target = (if renewed then reset_flag True else target);
          resets = resets + (if renewed then 1 else 0);
          (changed, target) = mark_section flagsID header now (moved \<or> renewed) target
      in (changed, resets, grp\<lparr>rg_lastFlagsID := lastFlagsID, rg_flags := flags[flagsID := target]\<rparr>))"

definition observeReady ::
  "byte \<Rightarrow> byte \<Rightarrow> isdb_header \<Rightarrow> int \<Rightarrow> 'p ScheduleTracker \<Rightarrow> bool \<times> 'p ScheduleTracker" where
  "observeReady tableID base header now t =
     (let (_, index, basic, _) = scheduleBaseOf (sc_system t) tableID;
          lastFlagsID = last_flags_id (sc_system t) base header;
          grp = (case sc_groups t base of None \<Rightarrow> new_group base basic | Some grp \<Rightarrow> grp);
          (changed, resets, grp) = observe_group lastFlagsID (unat index) header now grp
      in (changed, t\<lparr>sc_groups := (sc_groups t)(base \<mapsto> grp), sc_resets := sc_resets t + resets\<rparr>))"

definition new_schedule_table :: "'p scheduleTable" where
  "new_schedule_table =
     \<lparr>sb_version = 0, sb_hasVersion = False, sb_lastSection = 0, sb_segmentLast = Map.empty, sb_sections = {},
      sb_payloads = Map.empty, sb_versions = Map.empty\<rparr>"

definition ObserveLazy ::
  "byte \<Rightarrow> isdb_header \<Rightarrow> (unit \<Rightarrow> 'p) \<Rightarrow> int \<Rightarrow> 'p ScheduleTracker \<Rightarrow> bool \<times> 'p ScheduleTracker" where
  "ObserveLazy tableID header payload now t =
     (let (base, _, _, ok) = scheduleBaseOf (sc_system t) tableID
      in if \<not> ok then (False, t)
         else
           let table = (case sc_tables t tableID of None \<Rightarrow> new_schedule_table | Some table \<Rightarrow> table);
               n = ih_SectionNumber header;
               changed = (sb_versions table n = None \<or> sb_versions table n \<noteq> Some (ih_Version header));
               table = \<lparr>sb_version = ih_Version header, sb_hasVersion = True, sb_lastSection = ih_LastSectionNumber header,
                 sb_segmentLast = (sb_segmentLast table)(n div 8 \<mapsto> ih_SegmentLastSection header),
                 sb_sections = insert n (sb_sections table),
                 sb_payloads = (if changed then (sb_payloads table)(n \<mapsto> payload ()) else sb_payloads table),
                 sb_versions = (sb_versions table)(n \<mapsto> ih_Version header)\<rparr>;
               (readyChanged, t) = observeReady tableID base header now (t\<lparr>sc_tables := (sc_tables t)(tableID \<mapsto> table)\<rparr>)
           in (changed \<or> readyChanged, if changed \<or> readyChanged then t\<lparr>sc_latest := Some now\<rparr> else t))"

definition Observe :: "byte \<Rightarrow> isdb_header \<Rightarrow> 'p \<Rightarrow> int \<Rightarrow> 'p ScheduleTracker \<Rightarrow> bool \<times> 'p ScheduleTracker" where
  "Observe tableID header payload now t = ObserveLazy tableID header (\<lambda>_. payload) now t"

definition CoverageResets :: "'p ScheduleTracker \<Rightarrow> int" where
  "CoverageResets t = sc_resets t"

definition HasExtended :: "'p ScheduleTracker \<Rightarrow> bool" where
  "HasExtended t = list_ex (\<lambda>base. \<not> rg_basic (the (sc_groups t base))) (map_keys (sc_groups t))"

text \<open>\<open>scheduleReadyGroup.ready\<close>\<close>

definition group_ready :: "scheduleReadyGroup \<Rightarrow> bool" where
  "group_ready g =
     list_all (\<lambda>f. list_all (\<lambda>(flag, ignore). flag OR ignore = 0xff) (zip (rf_flag f) (rf_ignore f))) (rg_flags g)"

definition BasicComplete :: "'p ScheduleTracker \<Rightarrow> bool" where
  "BasicComplete t =
     (let basic = filter rg_basic (map (\<lambda>base. the (sc_groups t base)) (map_keys (sc_groups t)))
      in basic \<noteq> [] \<and> list_all group_ready basic)"

definition ExtendedComplete :: "'p ScheduleTracker \<Rightarrow> bool" where
  "ExtendedComplete t =
     list_all group_ready (filter (\<lambda>g. \<not> rg_basic g) (map (\<lambda>base. the (sc_groups t base)) (map_keys (sc_groups t))))"

definition StableFor :: "int \<Rightarrow> int \<Rightarrow> 'p ScheduleTracker \<Rightarrow> bool" where
  "StableFor now duration t = (case sc_latest t of None \<Rightarrow> False | Some latest \<Rightarrow> now - latest \<ge> duration)"

definition Sections :: "'p ScheduleTracker \<Rightarrow> (bool \<times> 'p) list" where
  "Sections t =
     concat (map (\<lambda>tableID.
       let (_, _, basic, _) = scheduleBaseOf (sc_system t) tableID;
           table = the (sc_tables t tableID)
       in map (\<lambda>n. (basic, the (sb_payloads table n))) (map_keys (sb_payloads table))) (map_keys (sc_tables t)))"

definition HasBasic :: "'p ScheduleTracker \<Rightarrow> bool" where
  "HasBasic t = list_ex (\<lambda>tableID. let (_, _, basic, _) = scheduleBaseOf (sc_system t) tableID in basic) (map_keys (sc_tables t))"

definition missingSections :: "scheduleReadyGroup \<Rightarrow> nat \<Rightarrow> int list" where
  "missingSections grp flagsID =
     (let f = rg_flags grp ! flagsID
      in concat (map (\<lambda>segment.
           let needed = NOT (rf_flag f ! segment OR rf_ignore f ! segment)
           in map (\<lambda>n. int (segment * 8 + n)) (filter (\<lambda>n. needed AND push_bit n 1 \<noteq> 0) [0..<8])) [0..<length (rf_flag f)]))"

end
