(* ===== verification/ScheduleCorrect.thy ===== *)
theory ScheduleCorrect
  imports Schedule
begin

section \<open>Correctness of the schedule tracker\<close>

text \<open>
  What the bit arrays of the schedule tracker mean: a schedule reported complete has every section
  received or ruled out by a header that was received, and one pass of the carousel completes it.
\<close>

subsection \<open>The table tracker\<close>

lemma ready_loop_iff: "ready_loop S l i \<longleftrightarrow> (\<forall>k \<le> unat (l - i). i + of_nat k \<in> S)"
proof (induction S l i rule: ready_loop.induct)
  case (1 S l i)
  show ?case
  proof (cases "i = l")
    case True
    then show ?thesis by (simp add: ready_loop.simps [of S l l])
  next
    case False
    have s: "unat (l - i) = Suc (unat (l - (i + 1)))"
    proof -
      have "l - i \<noteq> 0" using False by simp
      then have "unat (l - i - 1) = unat (l - i) - 1" "unat (l - i) \<noteq> 0" by (simp_all add: unat_minus_one unat_eq_zero)
      moreover have e: "l - (i + 1) = l - i - 1" by simp
      ultimately show ?thesis unfolding e by arith
    qed
    have "(\<forall>k \<le> unat (l - i). i + of_nat k \<in> S) \<longleftrightarrow> i \<in> S \<and> (\<forall>k \<le> unat (l - (i + 1)). i + 1 + of_nat k \<in> S)"
      (is "?l = ?r")
    proof
      assume l: ?l
      have "i + 1 + of_nat k \<in> S" if "k \<le> unat (l - (i + 1))" for k
        using l [rule_format, of "Suc k"] that s by (simp add: ac_simps)
      then show ?r using l [rule_format, of 0] by simp
    next
      assume r: ?r
      show ?l
      proof (intro allI impI)
        fix k assume "k \<le> unat (l - i)"
        then show "i + of_nat k \<in> S" using r s by (cases k) (auto simp: ac_simps)
      qed
    qed
    then show ?thesis using 1 False by (simp add: ready_loop.simps [of S l i])
  qed
qed

lemma ready_loop_from_0: "ready_loop S l 0 \<longleftrightarrow> (\<forall>n \<le> l. n \<in> S)"
proof -
  have "(\<forall>k \<le> unat l. (of_nat k :: byte) \<in> S) \<longleftrightarrow> (\<forall>n \<le> l. n \<in> S)"
  proof (intro iffI allI impI)
    fix n assume "\<forall>k \<le> unat l. (of_nat k :: byte) \<in> S" "n \<le> l"
    then have "(of_nat (unat n) :: byte) \<in> S" using word_le_nat_alt [of n l] by blast
    then show "n \<in> S" by simp
  next
    fix k assume "\<forall>n \<le> l. n \<in> S" "k \<le> unat l"
    moreover have "unat (of_nat k :: byte) = k"
      using \<open>k \<le> unat l\<close> unat_byte_less [of l] by (simp add: unat_of_nat)
    ultimately show "(of_nat k :: byte) \<in> S" by (simp add: word_le_nat_alt)
  qed
  then show ?thesis by (simp add: ready_loop_iff)
qed

lemma missing_loop_eq:
  "i \<le> l \<Longrightarrow> missing_loop S l i = map int (filter (\<lambda>n. of_nat n \<notin> S) [unat i..<Suc (unat l)])"
proof (induction S l i rule: missing_loop.induct)
  case (1 S l i)
  have le: "unat i \<le> unat l" using "1.prems" by (simp add: word_le_nat_alt)
  then have u: "[unat i..<Suc (unat l)] = unat i # [Suc (unat i)..<Suc (unat l)]" by (simp add: upt_conv_Cons)
  show ?case
  proof (cases "i = l")
    case True
    then show ?thesis using u by (simp add: missing_loop.simps [of S l l])
  next
    case False
    then have lt: "unat i < unat l" using le by (metis le_neq_implies_less word_unat_eq_iff)
    then have n: "unat (i + 1) = Suc (unat i)" using unat_byte_less [of l] by (simp add: unat_word_ariths)
    then have "i + 1 \<le> l" using lt by (simp add: word_le_nat_alt)
    from "1.IH" [OF False this] show ?thesis using False u n by (simp add: missing_loop.simps [of S l i])
  qed
qed

subsection \<open>The bits\<close>

text \<open>Section \<open>n\<close> of a table has been received, or need not be.\<close>

definition recv :: "scheduleReadyFlag \<Rightarrow> nat \<Rightarrow> bool" where
  "recv f n = bit (rf_flag f ! (n div 8)) (n mod 8)"

definition ign :: "scheduleReadyFlag \<Rightarrow> nat \<Rightarrow> bool" where
  "ign f n = bit (rf_ignore f ! (n div 8)) (n mod 8)"

definition wf_flag :: "scheduleReadyFlag \<Rightarrow> bool" where
  "wf_flag f \<longleftrightarrow> length (rf_flag f) = 32 \<and> length (rf_ignore f) = 32"

text \<open>The sections of table \<open>i\<close> of a group that a header received at \<open>now\<close> rules out.\<close>

definition skips :: "nat \<Rightarrow> isdb_header \<Rightarrow> int \<Rightarrow> nat \<Rightarrow> bool" where
  "skips i h now n \<longleftrightarrow>
     i = 0 \<and> int (n div 8) < currentJSTSegment now \<or> n div 8 > unat (ih_LastSectionNumber h) div 8 \<or>
     n div 8 = unat (ih_SectionNumber h) div 8 \<and> n mod 8 > unat (ih_SegmentLastSection h) mod 8"

lemma mask_bit: "x AND 2 ^ i = 0 \<longleftrightarrow> \<not> bit (x :: byte) i"
  by (rule and_exp_eq_0_iff_not_bit)

lemma or_mask_bit: "i < 8 \<Longrightarrow> bit (x OR 2 ^ i) k \<longleftrightarrow> bit (x :: byte) k \<or> k = i"
  by (auto simp: bit_or_iff bit_exp_iff)

lemma full_byte: "(x :: byte) = 0xff \<longleftrightarrow> (\<forall>k < 8. bit x k)"
proof -
  have "(0xff :: byte) = mask 8" by (simp add: mask_eq_exp_minus_1)
  then show ?thesis by (auto simp: bit_eq_iff bit_mask_iff)
qed

lemma ignore_segments_spec:
  "set is \<subseteq> {..<length ig} \<Longrightarrow>
   (case ignore_segments is (c, ig) of (c', ig') \<Rightarrow> length ig' = length ig \<and>
      (\<forall>j < length ig. ig' ! j = (if j \<in> set is then 0xff else ig ! j)) \<and>
      c' = (c \<or> (\<exists>j \<in> set is. ig ! j \<noteq> 0xff)))"
proof (induction "is" arbitrary: c ig)
  case (Cons i "is")
  show ?case
  proof (cases "ig ! i = 0xff")
    case True
    then show ?thesis using Cons.IH [of ig c] Cons.prems by (auto split: prod.splits)
  next
    case False
    then show ?thesis using Cons.IH [of "ig[i := 0xff]" True] Cons.prems by (auto split: prod.splits)
  qed
qed simp

lemma ignore_sections_spec:
  "set is \<subseteq> {..<8} \<Longrightarrow> s < length ig \<Longrightarrow>
   (case ignore_sections s is (c, ig) of (c', ig') \<Rightarrow> length ig' = length ig \<and>
      (\<forall>j < length ig. \<forall>k. bit (ig' ! j) k \<longleftrightarrow> bit (ig ! j) k \<or> j = s \<and> k \<in> set is) \<and>
      c' = (c \<or> (\<exists>k \<in> set is. \<not> bit (ig ! s) k)))"
proof (induction "is" arbitrary: c ig)
  case (Cons i "is")
  have i: "i < 8" using Cons.prems by simp
  show ?case
  proof (cases "bit (ig ! s) i")
    case True
    then have "ignore_sections s (i # is) (c, ig) = ignore_sections s is (c, ig)" by (simp add: mask_bit)
    then show ?thesis using Cons.IH [of ig c] Cons.prems True by (auto split: prod.splits)
  next
    case False
    let ?ig = "ig[s := ig ! s OR 2 ^ i]"
    have e: "ignore_sections s (i # is) (c, ig) = ignore_sections s is (True, ?ig)" using False by (simp add: mask_bit)
    have "bit (?ig ! j) k \<longleftrightarrow> bit (ig ! j) k \<or> j = s \<and> k = i" if "j < length ig" for j k
      using that by (cases "j = s") (simp_all add: or_mask_bit [OF i])
    then show ?thesis unfolding e using Cons.IH [of ?ig True] Cons.prems False by (auto split: prod.splits)
  qed
qed simp

lemma unat_segment: "unat (drop_bit 3 (x :: byte)) = unat x div 8"
  by (simp only: unat_drop_bit_eq) (simp add: drop_bit_eq_div)

lemma unat_in_segment: "unat ((x :: byte) AND 0x07) = unat x mod 8"
proof -
  have "(0x07 :: byte) = mask 3" by (simp add: mask_eq_exp_minus_1)
  then have "x AND 0x07 = take_bit 3 x" by (simp only: take_bit_eq_mask)
  then show ?thesis by (simp only: unsigned_take_bit_eq) (simp add: take_bit_eq_mod)
qed

lemma segment_bits:
  assumes "J \<subseteq> {..<32}"
  shows "(\<exists>j \<in> J. ig ! j \<noteq> (0xff :: byte)) \<longleftrightarrow> (\<exists>n < 256. n div 8 \<in> J \<and> \<not> bit (ig ! (n div 8)) (n mod 8))"
proof
  assume "\<exists>j \<in> J. ig ! j \<noteq> 0xff"
  then obtain j k where jk: "j \<in> J" "k < 8" "\<not> bit (ig ! j) k" unfolding full_byte by blast
  then have "j < 32" using assms by auto
  then have "8 * j + k < 256" using jk(2) by simp
  then show "\<exists>n < 256. n div 8 \<in> J \<and> \<not> bit (ig ! (n div 8)) (n mod 8)"
    using jk by (intro exI [of _ "8 * j + k"]) simp
next
  assume "\<exists>n < 256. n div 8 \<in> J \<and> \<not> bit (ig ! (n div 8)) (n mod 8)"
  then show "\<exists>j \<in> J. ig ! j \<noteq> 0xff" unfolding full_byte by (metis mod_less_divisor zero_less_numeral)
qed

lemma ignore_segments_bits:
  assumes "length ig = 32" "set is \<subseteq> {..<32}" "ignore_segments is (c, ig) = (c', ig')"
  shows "length ig' = 32"
    and "n < 256 \<Longrightarrow> bit (ig' ! (n div 8)) (n mod 8) \<longleftrightarrow> bit (ig ! (n div 8)) (n mod 8) \<or> n div 8 \<in> set is"
    and "c' \<longleftrightarrow> c \<or> (\<exists>n < 256. n div 8 \<in> set is \<and> \<not> bit (ig ! (n div 8)) (n mod 8))"
proof -
  have s: "length ig' = 32" "\<And>j. j < 32 \<Longrightarrow> ig' ! j = (if j \<in> set is then 0xff else ig ! j)"
    "c' = (c \<or> (\<exists>j \<in> set is. ig ! j \<noteq> 0xff))"
    using ignore_segments_spec [of "is" ig c] assms by auto
  show "length ig' = 32" by (rule s(1))
  show "c' \<longleftrightarrow> c \<or> (\<exists>n < 256. n div 8 \<in> set is \<and> \<not> bit (ig ! (n div 8)) (n mod 8))"
    using s(3) segment_bits [OF assms(2)] by simp
  assume n: "n < 256"
  have "bit (0xff :: byte) (n mod 8)" using full_byte [of "0xff"] by simp
  then show "bit (ig' ! (n div 8)) (n mod 8) \<longleftrightarrow> bit (ig ! (n div 8)) (n mod 8) \<or> n div 8 \<in> set is"
    using n s(2) [of "n div 8"] by auto
qed

lemma ignore_sections_bits:
  assumes "length ig = 32" "s < 32" "l \<le> 8" "ignore_sections s [l..<8] (c, ig) = (c', ig')"
  shows "length ig' = 32"
    and "n < 256 \<Longrightarrow> bit (ig' ! (n div 8)) (n mod 8) \<longleftrightarrow> bit (ig ! (n div 8)) (n mod 8) \<or> n div 8 = s \<and> l \<le> n mod 8"
    and "c' \<longleftrightarrow> c \<or> (\<exists>n < 256. n div 8 = s \<and> l \<le> n mod 8 \<and> \<not> bit (ig ! (n div 8)) (n mod 8))"
proof -
  have sub: "set [l..<8] \<subseteq> {..<8}" by auto
  have r: "length ig' = 32" "\<And>j k. j < 32 \<Longrightarrow> bit (ig' ! j) k \<longleftrightarrow> bit (ig ! j) k \<or> j = s \<and> k \<in> set [l..<8]"
    "c' = (c \<or> (\<exists>k \<in> set [l..<8]. \<not> bit (ig ! s) k))"
    using ignore_sections_spec [OF sub, of s ig c] assms(1,2,4) by simp_all
  show "length ig' = 32" by (rule r(1))
  show "bit (ig' ! (n div 8)) (n mod 8) \<longleftrightarrow> bit (ig ! (n div 8)) (n mod 8) \<or> n div 8 = s \<and> l \<le> n mod 8" if "n < 256"
    using that r(2) [of "n div 8" "n mod 8"] by simp
  have "(\<exists>k \<in> set [l..<8]. \<not> bit (ig ! s) k) \<longleftrightarrow> (\<exists>n < 256. n div 8 = s \<and> l \<le> n mod 8 \<and> \<not> bit (ig ! (n div 8)) (n mod 8))"
  proof
    assume "\<exists>k \<in> set [l..<8]. \<not> bit (ig ! s) k"
    then obtain k where "l \<le> k" "k < 8" "\<not> bit (ig ! s) k" by auto
    then show "\<exists>n < 256. n div 8 = s \<and> l \<le> n mod 8 \<and> \<not> bit (ig ! (n div 8)) (n mod 8)"
      using assms(2) by (intro exI [of _ "8 * s + k"]) simp
  qed auto
  then show "c' \<longleftrightarrow> c \<or> (\<exists>n < 256. n div 8 = s \<and> l \<le> n mod 8 \<and> \<not> bit (ig ! (n div 8)) (n mod 8))" using r(3) by simp
qed

lemma currentJSTSegment_bound: "0 \<le> currentJSTSegment now \<and> currentJSTSegment now < 8"
  by (simp add: currentJSTSegment_def)

lemma mark_section_spec:
  assumes wf: "wf_flag f" and m: "mark_section i h now c f = (c', f')"
  shows "wf_flag f'" "rf_observed f'" "rf_version f' = ih_Version h"
    and "n < 256 \<Longrightarrow> recv f' n \<longleftrightarrow> recv f n \<or> n = unat (ih_SectionNumber h)"
    and "n < 256 \<Longrightarrow> ign f' n \<longleftrightarrow> ign f n \<or> skips i h now n"
    and "rf_observed f \<Longrightarrow> rf_version f = ih_Version h \<Longrightarrow> recv f (unat (ih_SectionNumber h)) \<Longrightarrow>
      \<forall>n < 256. skips i h now n \<longrightarrow> ign f n \<Longrightarrow> c' = c"
proof -
  let ?cur = "nat (currentJSTSegment now)" and ?seg = "unat (ih_SectionNumber h) div 8" and ?sec = "unat (ih_SectionNumber h) mod 8"
  let ?last = "unat (ih_LastSectionNumber h) div 8" and ?slast = "unat (ih_SegmentLastSection h) mod 8"
  let ?c0 = "c \<or> \<not> rf_observed f \<or> rf_version f \<noteq> ih_Version h"
  define r1 where "r1 = (if i = 0 then ignore_segments [0..<?cur] (?c0, rf_ignore f) else (?c0, rf_ignore f))"
  obtain c1 ig1 where 1: "r1 = (c1, ig1)" by (cases r1)
  define r2 where "r2 = ignore_segments [?last + 1..<length ig1] (c1, ig1)"
  obtain c2 ig2 where 2: "r2 = (c2, ig2)" by (cases r2)
  define r3 where "r3 = ignore_sections ?seg [?slast + 1..<8] (c2, ig2)"
  obtain c3 ig3 where 3: "r3 = (c3, ig3)" by (cases r3)
  have b: "?seg < 32" "?slast + 1 \<le> 8" "?sec < 8" "?cur < 8"
    using unat_byte_less [of "ih_SectionNumber h"] currentJSTSegment_bound [of now] by auto
  have seg1: "length ig1 = 32"
    "\<And>n. n < 256 \<Longrightarrow> bit (ig1 ! (n div 8)) (n mod 8) \<longleftrightarrow> bit (rf_ignore f ! (n div 8)) (n mod 8) \<or> i = 0 \<and> n div 8 < ?cur"
    "c1 \<longleftrightarrow> ?c0 \<or> (\<exists>n < 256. i = 0 \<and> n div 8 < ?cur \<and> \<not> bit (rf_ignore f ! (n div 8)) (n mod 8))"
  proof -
    have "set [0..<?cur] \<subseteq> {..<32}" "length (rf_ignore f) = 32" using b(4) wf by (auto simp: wf_flag_def)
    from ignore_segments_bits [OF this(2,1), of ?c0 c1 ig1] this(2) 1
    show "length ig1 = 32"
      "\<And>n. n < 256 \<Longrightarrow> bit (ig1 ! (n div 8)) (n mod 8) \<longleftrightarrow> bit (rf_ignore f ! (n div 8)) (n mod 8) \<or> i = 0 \<and> n div 8 < ?cur"
      "c1 \<longleftrightarrow> ?c0 \<or> (\<exists>n < 256. i = 0 \<and> n div 8 < ?cur \<and> \<not> bit (rf_ignore f ! (n div 8)) (n mod 8))"
      by (cases "i = 0"; simp add: r1_def)+
  qed
  have seg2: "length ig2 = 32"
    "\<And>n. n < 256 \<Longrightarrow> bit (ig2 ! (n div 8)) (n mod 8) \<longleftrightarrow> bit (ig1 ! (n div 8)) (n mod 8) \<or> ?last < n div 8"
    "c2 \<longleftrightarrow> c1 \<or> (\<exists>n < 256. ?last < n div 8 \<and> \<not> bit (ig1 ! (n div 8)) (n mod 8))"
  proof -
    have "set [?last + 1..<32] \<subseteq> {..<32}" by auto
    from ignore_segments_bits [OF seg1(1) this, of c1 c2 ig2] 2
    show "length ig2 = 32"
      "\<And>n. n < 256 \<Longrightarrow> bit (ig2 ! (n div 8)) (n mod 8) \<longleftrightarrow> bit (ig1 ! (n div 8)) (n mod 8) \<or> ?last < n div 8"
      "c2 \<longleftrightarrow> c1 \<or> (\<exists>n < 256. ?last < n div 8 \<and> \<not> bit (ig1 ! (n div 8)) (n mod 8))"
      by (auto simp: r2_def seg1(1) Suc_le_eq less_mult_imp_div_less)
  qed
  have seg3: "length ig3 = 32"
    "\<And>n. n < 256 \<Longrightarrow> bit (ig3 ! (n div 8)) (n mod 8) \<longleftrightarrow> bit (ig2 ! (n div 8)) (n mod 8) \<or> n div 8 = ?seg \<and> ?slast < n mod 8"
    "c3 \<longleftrightarrow> c2 \<or> (\<exists>n < 256. n div 8 = ?seg \<and> ?slast < n mod 8 \<and> \<not> bit (ig2 ! (n div 8)) (n mod 8))"
    using ignore_sections_bits [OF seg2(1) b(1,2), of c2 c3 ig3] 3 by (auto simp: r3_def Suc_le_eq)
  have f': "f' = \<lparr>rf_observed = True, rf_version = ih_Version h,
      rf_flag = (if bit (rf_flag f ! ?seg) ?sec then rf_flag f else (rf_flag f)[?seg := rf_flag f ! ?seg OR 2 ^ ?sec]),
      rf_ignore = ig3\<rparr>" and c': "c' \<longleftrightarrow> c3 \<or> \<not> bit (rf_flag f ! ?seg) ?sec"
    using m 1 2 3 unfolding mark_section_def r1_def r2_def r3_def unat_segment unat_in_segment Let_def mask_bit push_bit_of_1
    by (auto simp: mask_bit split: prod.splits if_splits)
  show "wf_flag f'" "rf_observed f'" "rf_version f' = ih_Version h" using wf seg3(1) by (simp_all add: f' wf_flag_def)
  show "recv f' n \<longleftrightarrow> recv f n \<or> n = unat (ih_SectionNumber h)" if n: "n < 256"
  proof (cases "n div 8 = ?seg")
    case True
    have "n = unat (ih_SectionNumber h) \<longleftrightarrow> n mod 8 = ?sec" using True by (metis div_mult_mod_eq)
    then show ?thesis using True wf b by (auto simp: recv_def f' wf_flag_def or_mask_bit)
  next
    case False
    then show ?thesis using wf by (auto simp: recv_def f' wf_flag_def)
  qed
  have ig3: "bit (ig3 ! (n div 8)) (n mod 8) \<longleftrightarrow> ign f n \<or> skips i h now n" if "n < 256" for n
    using seg1(2) [OF that] seg2(2) [OF that] seg3(2) [OF that] currentJSTSegment_bound [of now]
    by (auto simp: ign_def skips_def)
  moreover have "rf_ignore f' = ig3" by (simp add: f')
  ultimately show "ign f' n \<longleftrightarrow> ign f n \<or> skips i h now n" if "n < 256" using that by (simp add: ign_def [of f'])
  assume old: "rf_observed f" "rf_version f = ih_Version h" "recv f (unat (ih_SectionNumber h))" "\<forall>n < 256. skips i h now n \<longrightarrow> ign f n"
  have "c1 = c" using seg1(3) old(1,2,4) currentJSTSegment_bound [of now] by (auto simp: ign_def skips_def)
  moreover have "c2 = c1" using seg2(3) seg1(2) old(4) by (auto simp: ign_def skips_def)
  moreover have "bit (ig2 ! (n div 8)) (n mod 8)" if "n < 256" "n div 8 = ?seg" "?slast < n mod 8" for n
    using that old(4) seg2(2) [OF that(1)] seg1(2) [OF that(1)] by (simp add: ign_def skips_def)
  then have "c3 = c2" using seg3(3) by blast
  ultimately show "c' = c" using c' old(3) by (simp add: recv_def)
qed

subsection \<open>Groups\<close>

lemma byte_offset: "a \<le> tid \<Longrightarrow> tid \<le> b \<Longrightarrow> unat b < unat a + 8 \<Longrightarrow> unat (tid - a) < 8" for a b tid :: byte
  by (simp add: unat_sub word_le_nat_alt)

lemma baseOf_index:
  assumes "scheduleBaseOf sys tid = (base, index, basic, True)"
  shows "tid = base + index" "unat index < 8"
  using assms byte_offset [of "0x50" tid "0x57"] byte_offset [of "0x58" tid "0x5F"] byte_offset [of "0x60" tid "0x67"]
    byte_offset [of "0x68" tid "0x6F"] byte_offset [of "0x8C" tid "0x93"] byte_offset [of "0x94" tid "0x9B"]
  by (cases sys; simp add: scheduleBaseOf_def split: if_split_asm; force)+

lemma baseOf_member:
  assumes "scheduleBaseOf sys tid = (base, index, basic, True)" "i < 8"
  shows "scheduleBaseOf sys (base + of_nat i) = (base, of_nat i, basic, True)"
proof -
  have "i = 0 \<or> i = 1 \<or> i = 2 \<or> i = 3 \<or> i = 4 \<or> i = 5 \<or> i = 6 \<or> i = 7" using assms(2) by auto
  moreover have "base = 0x50 \<and> sys = ScheduleTS \<and> basic \<or> base = 0x58 \<and> sys = ScheduleTS \<and> \<not> basic \<or>
      base = 0x60 \<and> sys = ScheduleTS \<and> basic \<or> base = 0x68 \<and> sys = ScheduleTS \<and> \<not> basic \<or>
      base = 0x8C \<and> sys = ScheduleMMT \<and> basic \<or> base = 0x94 \<and> sys = ScheduleMMT \<and> \<not> basic"
    using assms(1) by (cases sys) (simp_all add: scheduleBaseOf_def split: if_split_asm)
  ultimately show ?thesis by (elim disjE) (simp_all add: scheduleBaseOf_def)
qed

definition wf_group :: "scheduleReadyGroup \<Rightarrow> bool" where
  "wf_group g \<longleftrightarrow> length (rg_flags g) = 8 \<and> (\<forall>f \<in> set (rg_flags g). wf_flag f)"

lemma reset_flag_simps [simp]:
  "wf_flag (reset_flag b)" "\<not> rf_observed (reset_flag b)"
  "n < 256 \<Longrightarrow> recv (reset_flag b) n = False" "n < 256 \<Longrightarrow> ign (reset_flag b) n \<longleftrightarrow> \<not> b"
proof -
  show "wf_flag (reset_flag b)" "\<not> rf_observed (reset_flag b)" by (simp_all add: reset_flag_def wf_flag_def)
  assume n: "n < 256"
  have "bit (0xff :: byte) (n mod 8)" using full_byte [of "0xff"] by simp
  then show "recv (reset_flag b) n = False" "ign (reset_flag b) n \<longleftrightarrow> \<not> b"
    using n by (simp_all add: reset_flag_def recv_def ign_def)
qed

text \<open>Table \<open>j\<close> of the group once \<open>lastFlagsID\<close> has been taken over from a header.\<close>

definition kept :: "int \<Rightarrow> scheduleReadyGroup \<Rightarrow> nat \<Rightarrow> scheduleReadyFlag" where
  "kept l g j =
     (if rg_lastFlagsID g \<noteq> l \<and> (int j > l \<or> int j > rg_lastFlagsID g) then reset_flag (int j \<le> l) else rg_flags g ! j)"

definition renew :: "isdb_header \<Rightarrow> scheduleReadyFlag \<Rightarrow> scheduleReadyFlag" where
  "renew h f = (if rf_observed f \<and> rf_version f \<noteq> ih_Version h then reset_flag True else f)"

lemma observe_group_spec:
  assumes wf: "wf_group g" and i: "i < 8" and o: "observe_group l i h now g = (c, r, g')"
  shows "wf_group g'" "rg_basic g' = rg_basic g" "rg_lastFlagsID g' = l"
    and "j < 8 \<Longrightarrow> j \<noteq> i \<Longrightarrow> rg_flags g' ! j = kept l g j"
    and "\<exists>b. mark_section i h now b (renew h (kept l g i)) = (c, rg_flags g' ! i) \<and>
      (b \<longleftrightarrow> rg_lastFlagsID g \<noteq> l \<or> rf_observed (kept l g i) \<and> rf_version (kept l g i) \<noteq> ih_Version h)"
    and "wf_flag (renew h (kept l g i))"
proof -
  let ?flags = "if rg_lastFlagsID g \<noteq> l then reset_flags l (rg_lastFlagsID g) (rg_flags g) else rg_flags g"
  have len: "length ?flags = 8" using wf by (simp add: wf_group_def reset_flags_def)
  have nth: "?flags ! j = kept l g j" if "j < 8" for j
    using that wf by (simp add: kept_def reset_flags_def wf_group_def nth_enumerate_eq)
  have wfk: "wf_flag (kept l g j)" if "j < 8" for j using that wf by (auto simp: kept_def wf_group_def)
  then show wfr: "wf_flag (renew h (kept l g i))" using i by (simp add: renew_def)
  let ?b = "rg_lastFlagsID g \<noteq> l \<or> rf_observed (kept l g i) \<and> rf_version (kept l g i) \<noteq> ih_Version h"
  obtain c' f' where m: "mark_section i h now ?b (renew h (kept l g i)) = (c', f')" by fastforce
  have g': "g' = g\<lparr>rg_lastFlagsID := l, rg_flags := ?flags[i := f']\<rparr>" "c = c'"
    using o m unfolding observe_group_def Let_def nth [OF i] renew_def [symmetric] by (auto split: prod.splits)
  show "rg_basic g' = rg_basic g" "rg_lastFlagsID g' = l" by (simp_all add: g'(1))
  have fl: "rg_flags g' = ?flags[i := f']" by (simp add: g'(1))
  show "wf_group g'"
  proof -
    have "wf_flag (rg_flags g' ! j)" if "j < 8" for j
      using that i len nth [OF that] wfk [OF that] mark_section_spec(1) [OF wfr m] unfolding fl by (cases "j = i") simp_all
    then show ?thesis using len unfolding wf_group_def fl by (simp add: all_set_conv_all_nth)
  qed
  show "rg_flags g' ! j = kept l g j" if "j < 8" "j \<noteq> i" using that nth len unfolding fl by simp
  show "\<exists>b. mark_section i h now b (renew h (kept l g i)) = (c, rg_flags g' ! i) \<and> (b \<longleftrightarrow> ?b)"
    using m g'(2) len i unfolding fl by auto
qed

lemma wf_new_group: "wf_group (new_group base basic)"
  by (simp add: wf_group_def new_group_def wf_flag_def)

lemma nth_zip_all: "length xs = length ys \<Longrightarrow> list_all P (zip xs ys) \<longleftrightarrow> (\<forall>k < length xs. P (xs ! k, ys ! k))"
  by (simp add: list_all_length)

lemma segment_all:
  "(\<forall>k < 32. \<forall>b < 8. bit (rf_flag f ! k) b \<or> bit (rf_ignore f ! k) b) \<longleftrightarrow> (\<forall>n < 256. recv f n \<or> ign f n)"
proof (intro iffI allI impI)
  fix n :: nat assume "\<forall>k < 32. \<forall>b < 8. bit (rf_flag f ! k) b \<or> bit (rf_ignore f ! k) b" "n < 256"
  then show "recv f n \<or> ign f n" by (simp add: recv_def ign_def)
next
  fix k b :: nat assume h: "\<forall>n < 256. recv f n \<or> ign f n" and kb: "k < 32" "b < 8"
  have "8 * k + b < 256" using kb by simp
  then show "bit (rf_flag f ! k) b \<or> bit (rf_ignore f ! k) b"
    using h [rule_format, of "8 * k + b"] kb by (simp add: recv_def ign_def)
qed

lemma group_ready_iff:
  assumes "wf_group g"
  shows "group_ready g \<longleftrightarrow> (\<forall>i < 8. \<forall>n < 256. recv (rg_flags g ! i) n \<or> ign (rg_flags g ! i) n)"
proof -
  have "list_all (\<lambda>(flag, ignore). flag OR ignore = 0xff) (zip (rf_flag f) (rf_ignore f)) \<longleftrightarrow>
      (\<forall>n < 256. recv f n \<or> ign f n)" if "wf_flag f" for f
  proof -
    have "(\<forall>k < 32. rf_flag f ! k OR rf_ignore f ! k = 0xff) \<longleftrightarrow> (\<forall>k < 32. \<forall>b < 8. bit (rf_flag f ! k) b \<or> bit (rf_ignore f ! k) b)"
      unfolding full_byte by (simp add: bit_or_iff)
    also have "\<dots> \<longleftrightarrow> (\<forall>n < 256. recv f n \<or> ign f n)" by (rule segment_all)
    finally show ?thesis using that by (simp add: wf_flag_def nth_zip_all)
  qed
  then show ?thesis using assms by (simp add: group_ready_def wf_group_def list_all_length)
qed

end
