(* ===== verification/ScheduleRun.thy ===== *)
theory ScheduleRun
  imports ScheduleCorrect
begin

section \<open>Runs of the schedule tracker\<close>

text \<open>
  The tracker after a sequence of observed sections: what completeness means in terms of the
  sections that were observed, that one pass of the carousel reaches it, and which payloads are
  kept.
\<close>

type_synonym 'p observation = "byte \<times> isdb_header \<times> 'p \<times> int"

definition observe_all :: "'p observation list \<Rightarrow> 'p ScheduleTracker \<Rightarrow> 'p ScheduleTracker" where
  "observe_all os t = fold (\<lambda>(tableID, header, payload, now) t. snd (Observe tableID header payload now t)) os t"

lemma observe_all_simps [simp]:
  "observe_all [] t = t"
  "observe_all ((tid, h, p, now) # os) t = observe_all os (snd (Observe tid h p now t))"
  "observe_all (os @ os') t = observe_all os' (observe_all os t)"
  by (simp_all add: observe_all_def)

subsection \<open>One step\<close>

definition group_at :: "'p ScheduleTracker \<Rightarrow> byte \<Rightarrow> bool \<Rightarrow> scheduleReadyGroup" where
  "group_at t base basic = (case sc_groups t base of None \<Rightarrow> new_group base basic | Some g \<Rightarrow> g)"

definition table_at :: "'p ScheduleTracker \<Rightarrow> byte \<Rightarrow> 'p scheduleTable" where
  "table_at t tid = (case sc_tables t tid of None \<Rightarrow> new_schedule_table | Some table \<Rightarrow> table)"

lemma Observe_ignored:
  "scheduleBaseOf (sc_system t) tid = (base, index, basic, False) \<Longrightarrow> Observe tid h p now t = (False, t)"
  by (simp add: Observe_def ObserveLazy_def)

lemma Observe_step:
  assumes "scheduleBaseOf (sc_system t) tid = (base, index, basic, True)"
  obtains c r g table where
    "observe_group (last_flags_id (sc_system t) base h) (unat index) h now (group_at t base basic) = (c, r, g)"
    "sc_groups (snd (Observe tid h p now t)) = (sc_groups t)(base \<mapsto> g)"
    "sc_tables (snd (Observe tid h p now t)) = (sc_tables t)(tid \<mapsto> table)"
    "sc_system (snd (Observe tid h p now t)) = sc_system t"
    "sb_version table = ih_Version h"
    "sb_payloads table = (if sb_versions (table_at t tid) (ih_SectionNumber h) \<noteq> Some (ih_Version h)
       then (sb_payloads (table_at t tid))(ih_SectionNumber h \<mapsto> p) else sb_payloads (table_at t tid))"
    "sb_versions table = (sb_versions (table_at t tid))(ih_SectionNumber h \<mapsto> ih_Version h)"
    "fst (Observe tid h p now t) \<longleftrightarrow> sb_versions (table_at t tid) (ih_SectionNumber h) \<noteq> Some (ih_Version h) \<or> c"
proof -
  obtain c r g where o: "observe_group (last_flags_id (sc_system t) base h) (unat index) h now (group_at t base basic) = (c, r, g)"
    by (metis prod_cases3)
  let ?old = "table_at t tid" and ?n = "ih_SectionNumber h"
  let ?changed = "sb_versions ?old ?n \<noteq> Some (ih_Version h)"
  let ?table = "\<lparr>sb_version = ih_Version h, sb_hasVersion = True, sb_lastSection = ih_LastSectionNumber h,
                 sb_segmentLast = (sb_segmentLast ?old)(?n div 8 \<mapsto> ih_SegmentLastSection h),
                 sb_sections = insert ?n (sb_sections ?old),
                 sb_payloads = (if ?changed then (sb_payloads ?old)(?n \<mapsto> p) else sb_payloads ?old),
                 sb_versions = (sb_versions ?old)(?n \<mapsto> ih_Version h)\<rparr>"
  have ch: "(sb_versions ?old ?n = None \<or> sb_versions ?old ?n \<noteq> Some (ih_Version h)) = ?changed" by auto
  have "Observe tid h p now t = (?changed \<or> c,
      (if ?changed \<or> c then (\<lambda>t. t\<lparr>sc_latest := Some now\<rparr>) else id)
        (t\<lparr>sc_tables := (sc_tables t)(tid \<mapsto> ?table), sc_groups := (sc_groups t)(base \<mapsto> g), sc_resets := sc_resets t + r\<rparr>))"
    using assms o unfolding Observe_def ObserveLazy_def table_at_def [symmetric] group_at_def Let_def ch
    by (simp add: observeReady_def ch)
  then show thesis using that [OF o, of ?table] by simp
qed

lemma Observe_groups:
  assumes "scheduleBaseOf (sc_system t) tid = (base, index, basic, True)"
  shows "\<exists>c r g. observe_group (last_flags_id (sc_system t) base h) (unat index) h now (group_at t base basic) = (c, r, g) \<and>
    sc_groups (snd (Observe tid h p now t)) = (sc_groups t)(base \<mapsto> g)"
  by (rule Observe_step [OF assms, of h now p]) blast

subsection \<open>What the bits stand for\<close>

text \<open>
  The bits of table \<open>i\<close> of a group, whose table id is \<open>tid\<close>, come from sections of the table's
  current version.
\<close>

definition flag_sound :: "'p observation list \<Rightarrow> byte \<Rightarrow> nat \<Rightarrow> scheduleReadyFlag \<Rightarrow> bool" where
  "flag_sound os tid i f \<longleftrightarrow>
     (\<forall>n < 256. recv f n \<longrightarrow> (\<exists>(tid', h, p, now) \<in> set os. tid' = tid \<and> ih_Version h = rf_version f \<and> unat (ih_SectionNumber h) = n)) \<and>
     (\<forall>n < 256. ign f n \<longrightarrow> (\<exists>(tid', h, p, now) \<in> set os. tid' = tid \<and> ih_Version h = rf_version f \<and> skips i h now n)) \<and>
     (\<not> rf_observed f \<longrightarrow> (\<forall>n < 256. \<not> recv f n \<and> \<not> ign f n))"

lemma flag_sound_mono: "flag_sound os tid i f \<Longrightarrow> flag_sound (os @ [ob]) tid i f"
  unfolding flag_sound_def by (simp add: bex_Un)

lemma flag_sound_reset: "flag_sound os tid i (reset_flag True)"
  by (simp add: flag_sound_def)

lemma flag_sound_mark:
  assumes "flag_sound os tid i (renew h f)" "wf_flag (renew h f)" "mark_section i h now b (renew h f) = (c, f')"
  shows "flag_sound (os @ [(tid, h, p, now)]) tid i f'"
proof -
  note m = mark_section_spec [OF assms(2,3)]
  have v: "rf_observed (renew h f) \<Longrightarrow> rf_version (renew h f) = ih_Version h" by (auto simp: renew_def split: if_split_asm)
  have "\<exists>(tid', h', p, now) \<in> set (os @ [(tid, h, p, now)]). tid' = tid \<and> ih_Version h' = ih_Version h \<and> unat (ih_SectionNumber h') = n"
    if "n < 256" "recv f' n" for n
    using m(4) [OF that(1)] that assms(1) v by (fastforce simp: flag_sound_def)
  moreover have "\<exists>(tid', h', p, now) \<in> set (os @ [(tid, h, p, now)]). tid' = tid \<and> ih_Version h' = ih_Version h \<and> skips i h' now n"
    if "n < 256" "ign f' n" for n
    using m(5) [OF that(1)] that assms(1) v by (fastforce simp: flag_sound_def)
  ultimately show ?thesis unfolding flag_sound_def m(3) using m(2) by blast
qed

definition table_current :: "'p ScheduleTracker \<Rightarrow> byte \<Rightarrow> scheduleReadyFlag \<Rightarrow> bool" where
  "table_current t tid f \<longleftrightarrow>
     (rf_observed f \<longrightarrow> (\<exists>table. sc_tables t tid = Some table \<and> sb_version table = rf_version f))"

definition group_sound :: "'p observation list \<Rightarrow> 'p ScheduleTracker \<Rightarrow> byte \<Rightarrow> scheduleReadyGroup \<Rightarrow> bool" where
  "group_sound os t base g \<longleftrightarrow> wf_group g \<and> scheduleBaseOf (sc_system t) base = (base, 0, rg_basic g, True) \<and>
     (\<forall>i < 8. int i \<le> rg_lastFlagsID g \<longrightarrow>
        flag_sound os (base + of_nat i) i (rg_flags g ! i) \<and> table_current t (base + of_nat i) (rg_flags g ! i))"

definition tracker_sound :: "'p observation list \<Rightarrow> 'p ScheduleTracker \<Rightarrow> bool" where
  "tracker_sound os t \<longleftrightarrow> (\<forall>base g. sc_groups t base = Some g \<longrightarrow> group_sound os t base g)"

lemma group_at_sound:
  assumes "tracker_sound os t" "scheduleBaseOf (sc_system t) tid = (base, index, basic, True)"
  shows "group_sound os t base (group_at t base basic)" "rg_basic (group_at t base basic) = basic"
proof -
  have b: "scheduleBaseOf (sc_system t) base = (base, 0, basic, True)" using baseOf_member [OF assms(2), of 0] by simp
  then have "group_sound os t base (new_group base basic)"
    using wf_new_group [of base basic] by (simp add: group_sound_def new_group_def)
  then show s: "group_sound os t base (group_at t base basic)"
    using assms(1) by (simp add: group_at_def tracker_sound_def split: option.split)
  then show "rg_basic (group_at t base basic) = basic" using b by (simp add: group_sound_def)
qed

lemma kept_sound:
  assumes "group_sound os t base g" "i < 8" "int i \<le> l"
  shows "flag_sound os (base + of_nat i) i (kept l g i)" "table_current t (base + of_nat i) (kept l g i)"
  using assms flag_sound_reset [of os] by (auto simp: kept_def group_sound_def table_current_def)

lemma unat_small: "i < 8 \<Longrightarrow> unat (of_nat i :: byte) = i"
  by (simp add: unat_of_nat)

lemma base_plus_inj: "i < 8 \<Longrightarrow> j < 8 \<Longrightarrow> (b :: byte) + of_nat i = b + of_nat j \<Longrightarrow> i = j"
  by (metis add_left_cancel unat_small)

lemma group_sound_other:
  assumes "group_sound os t base' g" "scheduleBaseOf (sc_system t) tid = (base, index, basic, True)" "base' \<noteq> base"
    and t': "sc_tables t' = (sc_tables t)(tid \<mapsto> table)" "sc_system t' = sc_system t"
  shows "group_sound (os @ [ob]) t' base' g"
proof -
  have b': "scheduleBaseOf (sc_system t) base' = (base', 0, rg_basic g, True)" using assms(1) by (simp add: group_sound_def)
  have "base' + of_nat i \<noteq> tid" if "i < 8" for i using baseOf_member [OF b' that] assms(2,3) by auto
  then show ?thesis using assms(1) t' flag_sound_mono [of os _ _ _ ob] by (auto simp: group_sound_def table_current_def)
qed

lemma tracker_sound_step:
  assumes "tracker_sound os t"
  shows "tracker_sound (os @ [(tid, h, p, now)]) (snd (Observe tid h p now t))"
proof -
  obtain base index basic ok where s: "scheduleBaseOf (sc_system t) tid = (base, index, basic, ok)" by (metis prod_cases4)
  show ?thesis
  proof (cases ok)
    case False
    then have "Observe tid h p now t = (False, t)" using s by (simp add: Observe_ignored)
    then show ?thesis using assms flag_sound_mono [of os] by (simp add: tracker_sound_def group_sound_def)
  next
    case True
    note s = s [unfolded eqTrueI [OF True]]
    let ?i = "unat index" and ?g = "group_at t base basic" and ?t = "snd (Observe tid h p now t)" and ?l = "last_flags_id (sc_system t) base h"
    obtain c r g table where ob: "observe_group ?l ?i h now ?g = (c, r, g)" "sc_groups ?t = (sc_groups t)(base \<mapsto> g)"
      "sc_tables ?t = (sc_tables t)(tid \<mapsto> table)" "sc_system ?t = sc_system t" "sb_version table = ih_Version h"
      using Observe_step [OF s] by metis
    have i: "?i < 8" "tid = base + of_nat ?i" using baseOf_index [OF s] by simp_all
    note gs = group_at_sound [OF assms s]
    have wf: "wf_group ?g" using gs(1) by (simp add: group_sound_def)
    note og = observe_group_spec [OF wf i(1) ob(1)]
    obtain b where b: "mark_section ?i h now b (renew h (kept ?l ?g ?i)) = (c, rg_flags g ! ?i)" using og(5) by blast
    have "flag_sound (os @ [(tid, h, p, now)]) (base + of_nat j) j (rg_flags g ! j) \<and> table_current ?t (base + of_nat j) (rg_flags g ! j)"
      if j: "j < 8" "int j \<le> ?l" for j
    proof (cases "j = ?i")
      case True
      note k = kept_sound [OF gs(1) i(1) j(2) [unfolded True]]
      have "flag_sound os tid ?i (renew h (kept ?l ?g ?i))" using k(1) flag_sound_reset [of os] i(2) by (simp add: renew_def)
      from flag_sound_mark [OF this og(6) b] mark_section_spec(3) [OF og(6) b]
      show ?thesis using True ob(3,5) i(2) by (simp add: table_current_def)
    next
      case False
      note k = kept_sound [OF gs(1) j]
      have "base + of_nat j \<noteq> tid" using base_plus_inj [OF j(1) i(1)] False i(2) by auto
      then show ?thesis using k flag_sound_mono [OF k(1)] og(4) [OF j(1) False] ob(3) by (simp add: table_current_def)
    qed
    then have "group_sound (os @ [(tid, h, p, now)]) ?t base g"
      using og(1-3) gs(2) baseOf_member [OF s, of 0] ob(4) by (simp add: group_sound_def)
    then show ?thesis using ob(2) assms group_sound_other [OF _ s _ ob(3,4)]
      by (auto simp: tracker_sound_def split: if_split_asm)
  qed
qed

lemma tracker_sound_all: "tracker_sound os (observe_all os (NewScheduleTracker sys))"
proof (induction os rule: rev_induct)
  case (snoc ob os)
  then show ?case using tracker_sound_step by (cases ob) auto
qed (simp add: tracker_sound_def NewScheduleTracker_def)

lemma sc_system_Observe [simp]: "sc_system (snd (Observe tid h p now t)) = sc_system t"
proof -
  obtain base index basic ok where s: "scheduleBaseOf (sc_system t) tid = (base, index, basic, ok)" by (metis prod_cases4)
  show ?thesis
  proof (cases ok)
    case True
    then show ?thesis using s Observe_step [of t tid base index basic h now p] by metis
  qed (use s Observe_ignored [of t tid] in auto)
qed

lemma sc_system_all [simp]: "sc_system (observe_all os t) = sc_system t"
  by (induction os rule: rev_induct) auto

subsection \<open>Payloads\<close>

definition stored :: "'p ScheduleTracker \<Rightarrow> byte \<Rightarrow> byte \<Rightarrow> 'p option" where
  "stored t tid n = Option.bind (sc_tables t tid) (\<lambda>table. sb_payloads table n)"

definition occurrences :: "'p observation list \<Rightarrow> byte \<Rightarrow> byte \<Rightarrow> 'p observation list" where
  "occurrences os tid n = filter (\<lambda>(tid', h, p, now). tid' = tid \<and> ih_SectionNumber h = n) os"

text \<open>A section is sent again with another payload only under another version.\<close>

definition agrees :: "'p observation \<Rightarrow> 'p observation \<Rightarrow> bool" where
  "agrees = (\<lambda>(_, h, p, _) (_, h', p', _). ih_Version h = ih_Version h' \<longrightarrow> p = p')"

definition versioned :: "'p observation list \<Rightarrow> bool" where
  "versioned os \<longleftrightarrow> (\<forall>tid n. successively agrees (occurrences os tid n))"

lemma occurrences_snoc:
  "occurrences (os @ [(tid', h, p, now)]) tid n = occurrences os tid n @ (if tid' = tid \<and> ih_SectionNumber h = n then [(tid', h, p, now)] else [])"
  by (simp add: occurrences_def)

text \<open>The version and payload a section was last observed with.\<close>

definition last_seen :: "'p observation list \<Rightarrow> byte \<Rightarrow> byte \<Rightarrow> (byte \<times> 'p) option" where
  "last_seen os tid n =
     (if occurrences os tid n = [] then None
      else let (_, h, p, _) = last (occurrences os tid n) in Some (ih_Version h, p))"

lemma last_seen_snoc:
  "last_seen (os @ [(tid', h, p, now)]) tid n =
     (if tid' = tid \<and> ih_SectionNumber h = n then Some (ih_Version h, p) else last_seen os tid n)"
  by (simp add: last_seen_def occurrences_snoc)

lemma versioned_snocD:
  assumes "versioned (os @ [(tid, h, p, now)])"
  shows "versioned os" "last_seen os tid (ih_SectionNumber h) = Some (ih_Version h, p') \<Longrightarrow> p' = p"
proof -
  have "successively agrees (occurrences os tid' n)" for tid' n
    using assms [unfolded versioned_def, rule_format, of tid' n] by (simp add: occurrences_snoc successively_append_iff split: if_split_asm)
  then show "versioned os" by (simp add: versioned_def)
  assume l: "last_seen os tid (ih_SectionNumber h) = Some (ih_Version h, p')"
  have "successively agrees (occurrences os tid (ih_SectionNumber h) @ [(tid, h, p, now)])"
    using assms [unfolded versioned_def, rule_format, of tid "ih_SectionNumber h"] by (simp add: occurrences_snoc)
  then show "p' = p" using l
    by (auto simp: successively_append_iff agrees_def last_seen_def split: if_split_asm prod.split_asm)
qed

lemma stored_table_at: "stored t tid n = sb_payloads (table_at t tid) n"
  by (simp add: stored_def table_at_def new_schedule_table_def split: option.split)

text \<open>The version and payload kept of section \<open>n\<close> of table \<open>tid\<close>, after one more observation.\<close>

lemma kept_step:
  assumes s: "scheduleBaseOf (sc_system t) tid' = (base, index, basic, True)"
  shows "sb_versions (table_at (snd (Observe tid h p now t)) tid') n =
      (if tid = tid' \<and> ih_SectionNumber h = n then Some (ih_Version h) else sb_versions (table_at t tid') n)"
    and "stored (snd (Observe tid h p now t)) tid' n =
      (if tid = tid' \<and> ih_SectionNumber h = n \<and> sb_versions (table_at t tid') n \<noteq> Some (ih_Version h) then Some p else stored t tid' n)"
proof -
  let ?t = "snd (Observe tid h p now t)"
  obtain b i bs ok where s': "scheduleBaseOf (sc_system t) tid = (b, i, bs, ok)" by (metis prod_cases4)
  have "sb_versions (table_at ?t tid') n = (if tid = tid' \<and> ih_SectionNumber h = n then Some (ih_Version h) else sb_versions (table_at t tid') n) \<and>
    sb_payloads (table_at ?t tid') n = (if tid = tid' \<and> ih_SectionNumber h = n \<and> sb_versions (table_at t tid') n \<noteq> Some (ih_Version h) then Some p
      else sb_payloads (table_at t tid') n)"
  proof (cases ok)
    case False
    then have "?t = t" "tid \<noteq> tid'" using s s' by (auto simp: Observe_ignored)
    then show ?thesis by simp
  next
    case True
    obtain c r g table where ob: "sc_tables ?t = (sc_tables t)(tid \<mapsto> table)"
      "sb_payloads table = (if sb_versions (table_at t tid) (ih_SectionNumber h) \<noteq> Some (ih_Version h)
         then (sb_payloads (table_at t tid))(ih_SectionNumber h \<mapsto> p) else sb_payloads (table_at t tid))"
      "sb_versions table = (sb_versions (table_at t tid))(ih_SectionNumber h \<mapsto> ih_Version h)"
      using Observe_step [OF s' [unfolded eqTrueI [OF True]]] by metis
    have "table_at ?t tid' = (if tid' = tid then table else table_at t tid')" by (simp add: table_at_def ob(1))
    then show ?thesis using ob(2,3) by auto
  qed
  then show "sb_versions (table_at ?t tid') n = (if tid = tid' \<and> ih_SectionNumber h = n then Some (ih_Version h) else sb_versions (table_at t tid') n)"
    "stored ?t tid' n = (if tid = tid' \<and> ih_SectionNumber h = n \<and> sb_versions (table_at t tid') n \<noteq> Some (ih_Version h) then Some p else stored t tid' n)"
    by (simp_all add: stored_table_at)
qed

text \<open>The version kept is the last one observed, and so is the payload of a versioned stream.\<close>

lemma versions_kept:
  assumes "scheduleBaseOf sys tid = (base, index, basic, True)"
  shows "sb_versions (table_at (observe_all os (NewScheduleTracker sys)) tid) n = map_option fst (last_seen os tid n)"
    and "stored (observe_all os (NewScheduleTracker sys)) tid n \<noteq> None \<longleftrightarrow> last_seen os tid n \<noteq> None"
    and "versioned os \<Longrightarrow> stored (observe_all os (NewScheduleTracker sys)) tid n = map_option snd (last_seen os tid n)"
proof -
  let ?t = "\<lambda>os. observe_all os (NewScheduleTracker sys)"
  have "sb_versions (table_at (?t os) tid) n = map_option fst (last_seen os tid n) \<and>
    (stored (?t os) tid n \<noteq> None \<longleftrightarrow> last_seen os tid n \<noteq> None) \<and>
    (versioned os \<longrightarrow> stored (?t os) tid n = map_option snd (last_seen os tid n))"
  proof (induction os rule: rev_induct)
    case Nil
    show ?case by (simp add: last_seen_def occurrences_def table_at_def stored_def NewScheduleTracker_def new_schedule_table_def)
  next
    case (snoc ob os)
    obtain tid' h p now where ob: "ob = (tid', h, p, now)" by (metis prod_cases4)
    have s: "scheduleBaseOf (sc_system (?t os)) tid = (base, index, basic, True)" using assms by (simp add: NewScheduleTracker_def)
    note k = kept_step [OF s, of tid' h p now n]
    show ?case
    proof (cases "tid' = tid \<and> ih_SectionNumber h = n")
      case True
      have "versioned os \<and> (\<forall>p'. last_seen os tid n = Some (ih_Version h, p') \<longrightarrow> p' = p)" if "versioned (os @ [ob])"
        using versioned_snocD [OF that [unfolded ob]] True by auto
      then show ?thesis using k snoc.IH True by (auto simp: ob last_seen_snoc)
    next
      case False
      then show ?thesis using k snoc.IH versioned_snocD(1) [of os tid' h p now] by (auto simp: ob last_seen_snoc)
    qed
  qed
  then show "sb_versions (table_at (?t os) tid) n = map_option fst (last_seen os tid n)"
    "stored (?t os) tid n \<noteq> None \<longleftrightarrow> last_seen os tid n \<noteq> None"
    "versioned os \<Longrightarrow> stored (?t os) tid n = map_option snd (last_seen os tid n)" by simp_all
qed

subsection \<open>The carousel\<close>

text \<open>
  A broadcaster repeats the sections of a group of tables. In a pass, every section of table \<open>i\<close>
  (up to the last table \<open>l\<close>) has the version \<open>ver i\<close> and the last section number \<open>lst i\<close>, those of
  segment \<open>k\<close> have the segment's last section \<open>seg i k\<close>; the pass is full if each section of each
  segment up to these is in it.
\<close>

definition in_group :: "ScheduleSystem \<Rightarrow> byte \<Rightarrow> byte \<Rightarrow> bool" where
  "in_group sys base tid = (let (base', _, _, ok) = scheduleBaseOf sys tid in ok \<and> base' = base)"

definition carousel_section ::
  "byte \<Rightarrow> nat \<Rightarrow> (nat \<Rightarrow> byte) \<Rightarrow> (nat \<Rightarrow> byte) \<Rightarrow> (nat \<Rightarrow> nat \<Rightarrow> byte) \<Rightarrow> byte \<Rightarrow> isdb_header \<Rightarrow> bool" where
  "carousel_section base l ver lst seg tid h \<longleftrightarrow> list_ex (\<lambda>i. tid = base + of_nat i \<and> ih_Version h = ver i \<and>
     ih_LastSectionNumber h = lst i \<and> ih_LastTableID h = base + of_nat l \<and>
     ih_SegmentLastSection h = seg i (unat (ih_SectionNumber h) div 8)) [0..<Suc l]"

definition full_pass :: "byte \<Rightarrow> nat \<Rightarrow> (nat \<Rightarrow> byte) \<Rightarrow> (nat \<Rightarrow> nat \<Rightarrow> byte) \<Rightarrow> 'p observation list \<Rightarrow> bool" where
  "full_pass base l lst seg os \<longleftrightarrow>
     list_all (\<lambda>i. list_all (\<lambda>n. n div 8 \<le> unat (lst i) div 8 \<and> n mod 8 \<le> unat (seg i (n div 8)) mod 8 \<longrightarrow>
       list_ex (\<lambda>(tid, h, p, now). tid = base + of_nat i \<and> unat (ih_SectionNumber h) = n) os) [0..<256]) [0..<Suc l]"

text \<open>A header names a last table at or after its own.\<close>

definition regular :: "ScheduleSystem \<Rightarrow> byte \<Rightarrow> isdb_header \<Rightarrow> bool" where
  "regular sys tid h = (let (base, index, _, ok) = scheduleBaseOf sys tid in ok \<longrightarrow> uint index \<le> last_flags_id sys base h)"

definition outside_ignored :: "scheduleReadyGroup \<Rightarrow> bool" where
  "outside_ignored g \<longleftrightarrow> wf_group g \<and> (\<forall>j < 8. int j > rg_lastFlagsID g \<longrightarrow> (\<forall>n < 256. ign (rg_flags g ! j) n))"

lemma last_flags_id_group:
  assumes "scheduleBaseOf sys tid = (base, index, basic, True)" "l < 8" "ih_LastTableID h = base + of_nat l"
  shows "last_flags_id sys base h = int l"
proof -
  have "uint (of_nat l :: byte) = int l" using unat_small [OF assms(2)] by (metis uint_nat)
  then show ?thesis using baseOf_member [OF assms(1,2)] assms(3) by (simp add: last_flags_id_def)
qed

lemma outside_new: "outside_ignored (new_group base basic)"
proof -
  have "bit (0xff :: byte) (n mod 8)" for n using full_byte [of "0xff"] by simp
  then show ?thesis using wf_new_group by (simp add: outside_ignored_def new_group_def ign_def)
qed

lemma outside_kept:
  assumes "outside_ignored g" "j < 8" "int j > l" "n < 256"
  shows "ign (kept l g j) n"
  using assms by (auto simp: kept_def outside_ignored_def)

lemma outside_step:
  assumes "outside_ignored g" "i < 8" "int i \<le> l" "observe_group l i h now g = (c, r, g')"
  shows "outside_ignored g'"
proof -
  have wf: "wf_group g" using assms(1) by (simp add: outside_ignored_def)
  note o = observe_group_spec [OF wf assms(2,4)]
  have "ign (rg_flags g' ! j) n" if "j < 8" "int j > l" "n < 256" for j n
    using outside_kept [OF assms(1) that] o(4) [OF that(1)] that(2) assms(3) by auto
  then show ?thesis using o(1,3) by (simp add: outside_ignored_def)
qed

lemma outside_all:
  "\<forall>(tid, h, p, now) \<in> set os. regular sys tid h \<Longrightarrow>
   sc_groups (observe_all os (NewScheduleTracker sys)) base = Some g \<Longrightarrow> outside_ignored g"
proof (induction os arbitrary: base g rule: rev_induct)
  case Nil
  then show ?case by (simp add: NewScheduleTracker_def)
next
  case (snoc ob os)
  obtain tid h p now where ob: "ob = (tid, h, p, now)" by (metis prod_cases4)
  let ?t = "observe_all os (NewScheduleTracker sys)"
  obtain b index basic ok where s: "scheduleBaseOf sys tid = (b, index, basic, ok)" by (metis prod_cases4)
  have sys: "sc_system ?t = sys" by (simp add: NewScheduleTracker_def)
  have old: "\<And>base g. sc_groups ?t base = Some g \<Longrightarrow> outside_ignored g" using snoc.IH snoc.prems(1) by simp
  show ?case
  proof (cases ok)
    case False
    then have "scheduleBaseOf (sc_system ?t) tid = (b, index, basic, False)" using s sys by simp
    then have "sc_groups ?t base = Some g" using snoc.prems(2) by (simp add: ob Observe_ignored)
    then show ?thesis by (rule old)
  next
    case True
    note s = s [unfolded eqTrueI [OF True]]
    have s': "scheduleBaseOf (sc_system ?t) tid = (b, index, basic, True)" using s sys by simp
    from Observe_groups [OF s', of h now p] sys obtain c r g'
      where o: "observe_group (last_flags_id sys b h) (unat index) h now (group_at ?t b basic) = (c, r, g')"
        "sc_groups (snd (Observe tid h p now ?t)) = (sc_groups ?t)(b \<mapsto> g')"
      by auto
    have "regular sys tid h" using snoc.prems(1) by (simp add: ob)
    then have "int (unat index) \<le> last_flags_id sys b h" using s by (simp add: regular_def)
    moreover have "outside_ignored (group_at ?t b basic)"
      by (cases "sc_groups ?t b") (simp_all add: group_at_def outside_new old)
    ultimately have "outside_ignored g'" using outside_step baseOf_index(2) [OF s] o(1) by blast
    moreover have "((sc_groups ?t)(b \<mapsto> g')) base = Some g" using snoc.prems(2) o(2) by (simp add: ob)
    ultimately show ?thesis using old [of base g] by (cases "base = b") simp_all
  qed
qed

text \<open>What the sections \<open>os\<close> of a pass have left in their group.\<close>

definition passed :: "byte \<Rightarrow> nat \<Rightarrow> (nat \<Rightarrow> byte) \<Rightarrow> 'p observation list \<Rightarrow> scheduleReadyGroup \<Rightarrow> bool" where
  "passed base l ver os g \<longleftrightarrow> outside_ignored g \<and> rg_lastFlagsID g = int l \<and>
     (\<forall>(tid, h, p, now) \<in> set os. \<forall>i \<le> l. tid = base + of_nat i \<longrightarrow>
        rf_observed (rg_flags g ! i) \<and> rf_version (rg_flags g ! i) = ver i \<and>
        recv (rg_flags g ! i) (unat (ih_SectionNumber h)) \<and> (\<forall>n < 256. skips i h now n \<longrightarrow> ign (rg_flags g ! i) n))"

lemma passed_step:
  assumes g: "outside_ignored g" "passed base l ver os g \<or> (\<forall>(tid, h, p, now) \<in> set os. \<forall>i < 8. tid \<noteq> base + of_nat i)"
    and i: "i \<le> l" "l < 8" "ih_Version h = ver i" and o: "observe_group (int l) i h now g = (c, r, g')"
  shows "passed base l ver (os @ [(base + of_nat i, h, p, now)]) g'"
proof -
  have i8: "i < 8" "int i \<le> int l" using i by simp_all
  have wf: "wf_group g" using g(1) by (simp add: outside_ignored_def)
  note og = observe_group_spec [OF wf i8(1) o]
  obtain b where m: "mark_section i h now b (renew h (kept (int l) g i)) = (c, rg_flags g' ! i)" using og(5) by blast
  note ms = mark_section_spec [OF og(6) m]
  have new: "rf_observed (rg_flags g' ! i) \<and> rf_version (rg_flags g' ! i) = ver i \<and>
      recv (rg_flags g' ! i) (unat (ih_SectionNumber h)) \<and> (\<forall>n < 256. skips i h now n \<longrightarrow> ign (rg_flags g' ! i) n)"
    using ms(2,3) ms(4) [of "unat (ih_SectionNumber h)"] ms(5) unat_byte_less i(3) by auto
  have old: "rf_observed (rg_flags g' ! j) \<and> rf_version (rg_flags g' ! j) = ver j \<and>
      recv (rg_flags g' ! j) (unat (ih_SectionNumber h')) \<and> (\<forall>n < 256. skips j h' now' n \<longrightarrow> ign (rg_flags g' ! j) n)"
    if ob: "(base + of_nat j, h', p', now') \<in> set os" "j \<le> l" for j h' p' now'
  proof -
    have j8: "j < 8" using ob(2) i(2) by simp
    then have "passed base l ver os g" using g(2) ob(1) by fastforce
    then have f: "kept (int l) g j = rg_flags g ! j" "rf_observed (rg_flags g ! j)" "rf_version (rg_flags g ! j) = ver j"
      "recv (rg_flags g ! j) (unat (ih_SectionNumber h'))" "\<forall>n < 256. skips j h' now' n \<longrightarrow> ign (rg_flags g ! j) n"
      using ob unfolding passed_def by (fastforce simp: kept_def)+
    show ?thesis
    proof (cases "j = i")
      case True
      then have "renew h (kept (int l) g i) = rg_flags g ! i" using f i(3) by (simp add: renew_def)
      then show ?thesis using new ms(4) [of "unat (ih_SectionNumber h')"] ms(5) unat_byte_less f(4,5) True by auto
    next
      case False
      then show ?thesis using og(4) [OF j8] f by simp
    qed
  qed
  have "outside_ignored g'" by (rule outside_step [OF g(1) i8 o])
  moreover have "rf_observed (rg_flags g' ! j) \<and> rf_version (rg_flags g' ! j) = ver j \<and>
        recv (rg_flags g' ! j) (unat (ih_SectionNumber h')) \<and> (\<forall>n < 256. skips j h' now' n \<longrightarrow> ign (rg_flags g' ! j) n)"
    if "(tid, h', p', now') \<in> set (os @ [(base + of_nat i, h, p, now)])" "j \<le> l" "tid = base + of_nat j" for tid h' p' now' j
  proof (cases "(tid, h', p', now') \<in> set os")
    case True
    then show ?thesis using old that(2,3) by blast
  next
    case False
    then have "base + of_nat i = base + of_nat j" "h' = h" "now' = now" using that by auto
    moreover from this have "i = j" using base_plus_inj [of i j base] i that(2) by simp
    ultimately show ?thesis using new by simp
  qed
  ultimately show ?thesis unfolding passed_def using og(3) by blast
qed

lemma passed_ready:
  assumes p: "passed base l ver os g" and l: "l < 8"
    and sec: "\<forall>(tid, h, p, now) \<in> set os. \<forall>i \<le> l. tid = base + of_nat i \<longrightarrow>
      ih_LastSectionNumber h = lst i \<and> ih_SegmentLastSection h = seg i (unat (ih_SectionNumber h) div 8)"
    and full: "full_pass base l lst seg os"
  shows "group_ready g"
proof -
  have wf: "wf_group g" using p by (simp add: passed_def outside_ignored_def)
  have "recv (rg_flags g ! i) n \<or> ign (rg_flags g ! i) n" if "i < 8" "n < 256" for i n
  proof (cases "i \<le> l")
    case False
    then show ?thesis using p that by (simp add: passed_def outside_ignored_def)
  next
    case True
    have ex: "\<exists>h now. ih_LastSectionNumber h = lst i \<and> ih_SegmentLastSection h = seg i (k div 8) \<and> unat (ih_SectionNumber h) = k \<and>
        recv (rg_flags g ! i) k \<and> (\<forall>n < 256. skips i h now n \<longrightarrow> ign (rg_flags g ! i) n)"
      if "k < 256" "k div 8 \<le> unat (lst i) div 8" "k mod 8 \<le> unat (seg i (k div 8)) mod 8" for k
    proof -
      have "i \<in> set [0..<Suc l]" "k \<in> set [0..<256]" using True that(1) by auto
      from full [unfolded full_pass_def list_all_iff, rule_format, OF this] that(2,3)
      have "list_ex (\<lambda>(tid, h, p, now). tid = base + of_nat i \<and> unat (ih_SectionNumber h) = k) os" by blast
      then obtain h pl now where "(base + of_nat i, h, pl, now) \<in> set os" "unat (ih_SectionNumber h) = k" by (auto simp: list_ex_iff)
      then show ?thesis using sec p True unfolding passed_def by fastforce
    qed
    show ?thesis
    proof (cases "n div 8 \<le> unat (lst i) div 8")
      case False
      then show ?thesis using ex [of 0] that(2) by (auto simp: skips_def)
    next
      case in_last: True
      show ?thesis
      proof (cases "n mod 8 \<le> unat (seg i (n div 8)) mod 8")
        case True
        then show ?thesis using ex [OF that(2) in_last] by blast
      next
        case False
        have "8 * (n div 8) < 256" using that(2) by simp
        then show ?thesis using ex [of "8 * (n div 8)"] in_last False that(2) by (auto simp: skips_def)
      qed
    qed
  qed
  then show ?thesis using group_ready_iff [OF wf] by blast
qed

lemma carousel_sectionD:
  assumes "carousel_section base l ver lst seg tid h"
  obtains i where "i \<le> l" "tid = base + of_nat i" "ih_Version h = ver i" "ih_LastSectionNumber h = lst i"
    "ih_LastTableID h = base + of_nat l" "ih_SegmentLastSection h = seg i (unat (ih_SectionNumber h) div 8)"
proof -
  obtain i where "i \<in> set [0..<Suc l]" "tid = base + of_nat i" "ih_Version h = ver i" "ih_LastSectionNumber h = lst i"
    "ih_LastTableID h = base + of_nat l" "ih_SegmentLastSection h = seg i (unat (ih_SectionNumber h) div 8)"
    using assms unfolding carousel_section_def list_ex_iff by blast
  then show thesis using that [of i] by auto
qed

lemma in_group_iff:
  assumes "scheduleBaseOf sys base = (base, 0, basic, True)"
  shows "in_group sys base tid \<longleftrightarrow> (\<exists>i < 8. tid = base + of_nat i)"
proof
  assume "in_group sys base tid"
  then obtain index basic' where "scheduleBaseOf sys tid = (base, index, basic', True)" by (auto simp: in_group_def split: prod.split_asm)
  then show "\<exists>i < 8. tid = base + of_nat i" using baseOf_index by (metis word_unat_eq_iff unat_small)
next
  assume "\<exists>i < 8. tid = base + of_nat i"
  then show "in_group sys base tid" using baseOf_member [OF assms] by (auto simp: in_group_def)
qed

definition touches :: "ScheduleSystem \<Rightarrow> byte \<Rightarrow> 'p observation list \<Rightarrow> bool" where
  "touches sys base os \<longleftrightarrow> (\<exists>ob \<in> set os. in_group sys base (fst ob))"

lemma touches_snoc: "touches sys base (os @ [ob]) \<longleftrightarrow> touches sys base os \<or> in_group sys base (fst ob)"
  by (auto simp: touches_def)

lemma pass_invariant:
  assumes base: "scheduleBaseOf sys base = (base, 0, basic, True)" and l: "l < 8" and sys: "sc_system t = sys"
    and t: "\<And>g. sc_groups t base = Some g \<Longrightarrow> outside_ignored g"
    and sec: "\<forall>(tid, h, p, now) \<in> set os. in_group sys base tid \<longrightarrow> carousel_section base l ver lst seg tid h"
  shows "if touches sys base os
    then \<exists>g. sc_groups (observe_all os t) base = Some g \<and> rg_basic g = rg_basic (group_at t base basic) \<and> passed base l ver os g
    else sc_groups (observe_all os t) base = sc_groups t base"
  using sec
proof (induction os rule: rev_induct)
  case (snoc ob os)
  obtain tid h p now where ob: "ob = (tid, h, p, now)" by (metis prod_cases4)
  let ?t = "observe_all os t" and ?g0 = "group_at (observe_all os t) base basic"
  have IH: "if touches sys base os
    then \<exists>g. sc_groups ?t base = Some g \<and> rg_basic g = rg_basic (group_at t base basic) \<and> passed base l ver os g
    else sc_groups ?t base = sc_groups t base" using snoc.prems by (intro snoc.IH) simp
  have sys': "sc_system ?t = sys" using sys by simp
  obtain b index basic' ok where s: "scheduleBaseOf sys tid = (b, index, basic', ok)" by (metis prod_cases4)
  show ?case
  proof (cases "in_group sys base tid")
    case False
    have "sc_groups (snd (Observe tid h p now ?t)) base = sc_groups ?t base"
    proof (cases ok)
      case True
      then have s': "scheduleBaseOf (sc_system ?t) tid = (b, index, basic', True)" using s sys' by simp
      have "b \<noteq> base" using False True s by (simp add: in_group_def)
      then show ?thesis using Observe_groups [OF s', of h now p] by auto
    qed (use s sys' Observe_ignored [of ?t tid] in simp)
    moreover have "\<forall>i \<le> l. tid \<noteq> base + of_nat i" using False in_group_iff [OF base, of tid] l by (auto dest: le_less_trans)
    then have "passed base l ver (os @ [ob]) g = passed base l ver os g" for g by (simp add: passed_def ob)
    ultimately show ?thesis using IH False by (simp add: ob touches_snoc)
  next
    case True
    then have s': "scheduleBaseOf (sc_system ?t) tid = (base, index, basic', True)" "scheduleBaseOf sys tid = (base, index, basic', True)"
      using s sys' by (auto simp: in_group_def)
    have "carousel_section base l ver lst seg tid h" using snoc.prems True by (simp add: ob)
    then obtain i where i: "i \<le> l" "tid = base + of_nat i" "ih_Version h = ver i" "ih_LastTableID h = base + of_nat l"
      by (rule carousel_sectionD)
    have "index = of_nat i" "basic' = basic" using baseOf_member [OF base, of i] s'(2) i(1,2) l by simp_all
    then have "unat index = i" using unat_small [of i] i(1) l by simp
    then obtain c r g where o: "observe_group (int l) i h now ?g0 = (c, r, g)" "sc_groups (snd (Observe tid h p now ?t)) = (sc_groups ?t)(base \<mapsto> g)"
      using Observe_groups [OF s'(1), of h now p] last_flags_id_group [OF s'(1) l i(4)] \<open>basic' = basic\<close> by auto
    have og: "outside_ignored (group_at t base basic)" by (cases "sc_groups t base") (simp_all add: group_at_def outside_new t)
    have g0: "outside_ignored ?g0" "rg_basic ?g0 = rg_basic (group_at t base basic)"
        "passed base l ver os ?g0 \<or> (\<forall>(tid, h, p, now) \<in> set os. \<forall>i < 8. tid \<noteq> base + of_nat i)"
    proof -
      have "outside_ignored ?g0 \<and> rg_basic ?g0 = rg_basic (group_at t base basic) \<and>
        (passed base l ver os ?g0 \<or> (\<forall>(tid, h, p, now) \<in> set os. \<forall>i < 8. tid \<noteq> base + of_nat i))"
      proof (cases "touches sys base os")
        case True
        then obtain g where "?g0 = g" "rg_basic g = rg_basic (group_at t base basic)" "passed base l ver os g"
          using IH by (auto simp: group_at_def)
        then show ?thesis by (simp add: passed_def)
      next
        case False
        then have "?g0 = group_at t base basic" using IH by (simp add: group_at_def)
        moreover have "\<forall>(tid, h, p, now) \<in> set os. \<forall>i < 8. tid \<noteq> base + of_nat i"
          using False in_group_iff [OF base] by (fastforce simp: touches_def)
        ultimately show ?thesis using og by simp
      qed
      then show "outside_ignored ?g0" "rg_basic ?g0 = rg_basic (group_at t base basic)"
        "passed base l ver os ?g0 \<or> (\<forall>(tid, h, p, now) \<in> set os. \<forall>i < 8. tid \<noteq> base + of_nat i)" by simp_all
    qed
    have wf: "wf_group ?g0" using g0(1) by (simp add: outside_ignored_def)
    have i8: "i < 8" using i(1) l by simp
    have "passed base l ver (os @ [ob]) g" using passed_step [OF g0(1,3) i(1) l i(3) o(1), of p] by (simp add: ob i(2))
    moreover have "rg_basic g = rg_basic (group_at t base basic)" using observe_group_spec(2) [OF wf i8 o(1)] g0(2) by simp
    ultimately show ?thesis using True o(2) by (simp add: ob touches_snoc)
  qed
qed (simp add: touches_def)

lemma map_keys_set: "set (map_keys m) = dom m"
proof -
  have "k \<in> of_nat ` {0..<256}" for k :: byte
    using unat_byte_less [of k] by (intro image_eqI [of _ _ "unat k"]) simp_all
  then show ?thesis by (auto simp: map_keys_def dom_def)
qed

lemma BasicComplete_iff:
  "BasicComplete t \<longleftrightarrow> (\<exists>base g. sc_groups t base = Some g \<and> rg_basic g) \<and>
     (\<forall>base g. sc_groups t base = Some g \<and> rg_basic g \<longrightarrow> group_ready g)"
proof -
  have "set (map (\<lambda>base. the (sc_groups t base)) (map_keys (sc_groups t))) = ran (sc_groups t)"
    by (force simp: map_keys_set ran_def dom_def)
  then show ?thesis
    by (auto simp: BasicComplete_def Let_def filter_empty_conv list_all_iff ran_def)
qed

lemma last_seen_mem:
  assumes "(tid, h, p, now) \<in> set os"
  shows "\<exists>(tid', h', p', now') \<in> set os. tid' = tid \<and> ih_SectionNumber h' = ih_SectionNumber h \<and>
    last_seen os tid (ih_SectionNumber h) = Some (ih_Version h', p')"
proof -
  let ?occ = "occurrences os tid (ih_SectionNumber h)"
  have "(tid, h, p, now) \<in> set ?occ" using assms by (simp add: occurrences_def)
  then have "?occ \<noteq> []" by auto
  moreover from this have "last ?occ \<in> set ?occ" by simp
  moreover obtain tid' h' p' now' where "last ?occ = (tid', h', p', now')" by (metis prod_cases4)
  ultimately show ?thesis by (force simp: last_seen_def occurrences_def)
qed

lemma occurrences_append: "occurrences (os @ os') tid n = occurrences os tid n @ occurrences os' tid n"
  by (simp add: occurrences_def)

lemma last_seen_append:
  "last_seen os' tid n \<noteq> None \<Longrightarrow> last_seen (os @ os') tid n = last_seen os' tid n"
  by (auto simp: last_seen_def occurrences_append split: if_split_asm)

subsection \<open>Properties\<close>

text \<open>
  C15. The tracker never reports a schedule complete too early. When \<open>BasicComplete\<close> holds after any
  sequence of observed sections, every table of every basic group, up to the group's last table,
  has been seen, and each of its 256 section numbers is accounted for by a section of the table's
  current version: either that very section was received and its payload is kept, or a section was
  received whose header rules the number out (beyond the last segment, beyond the last section of
  its segment, or, in the first table, in a segment of the day that had passed).
\<close>

theorem schedule_complete_sound:
  assumes "t = observe_all os (NewScheduleTracker sys)" "BasicComplete t"
    and "sc_groups t base = Some g" "rg_basic g" "i < 8" "int i \<le> rg_lastFlagsID g" "n < 256"
  shows "\<exists>table. sc_tables t (base + of_nat i) = Some table \<and>
    (sb_payloads table (of_nat n) \<noteq> None \<and>
       (\<exists>(tid, h, p, now) \<in> set os. tid = base + of_nat i \<and> ih_Version h = sb_version table \<and> unat (ih_SectionNumber h) = n) \<or>
     (\<exists>(tid, h, p, now) \<in> set os. tid = base + of_nat i \<and> ih_Version h = sb_version table \<and> skips i h now n))"
proof -
  have gs: "group_sound os t base g" using tracker_sound_all [of os sys] assms(1,3) by (simp add: tracker_sound_def)
  let ?f = "rg_flags g ! i" and ?tid = "base + of_nat i"
  have f: "flag_sound os ?tid i ?f" "table_current t ?tid ?f" "wf_group g" "scheduleBaseOf sys base = (base, 0, True, True)"
    using gs assms(1,4-6) by (auto simp: group_sound_def NewScheduleTracker_def)
  have "group_ready g" using assms(2-4) BasicComplete_iff by blast
  then have c: "\<And>n. n < 256 \<Longrightarrow> recv ?f n \<or> ign ?f n" using group_ready_iff [OF f(3)] assms(5) by blast
  have "rf_observed ?f" using c [of 0] f(1) by (auto simp: flag_sound_def)
  then obtain table where table: "sc_tables t ?tid = Some table" "sb_version table = rf_version ?f"
    using f(2) by (auto simp: table_current_def)
  have "(\<exists>(tid, h, p, now) \<in> set os. tid = ?tid \<and> ih_Version h = rf_version ?f \<and> unat (ih_SectionNumber h) = n) \<or>
      (\<exists>(tid, h, p, now) \<in> set os. tid = ?tid \<and> ih_Version h = rf_version ?f \<and> skips i h now n)"
    using c [OF assms(7)] f(1) assms(7) unfolding flag_sound_def by blast
  moreover have "sb_payloads table (of_nat n) \<noteq> None"
    if "(tid, h, p, now) \<in> set os" "tid = ?tid" "unat (ih_SectionNumber h) = n" for tid h p now
  proof -
    have "last_seen os ?tid (ih_SectionNumber h) \<noteq> None" using last_seen_mem [OF that(1)] that(2) by auto
    then have "stored t ?tid (ih_SectionNumber h) \<noteq> None"
      using versions_kept(2) [OF baseOf_member [OF f(4) assms(5)], of os "ih_SectionNumber h"] assms(1) by simp
    moreover have "ih_SectionNumber h = of_nat n" using that(3) by auto
    ultimately show ?thesis using table(1) by (simp add: stored_def)
  qed
  ultimately show ?thesis using table by fastforce
qed

lemma missing_none:
  assumes "wf_group g" "i < 8"
  shows "missingSections g i = [] \<longleftrightarrow> (\<forall>n < 256. recv (rg_flags g ! i) n \<or> ign (rg_flags g ! i) n)"
proof -
  let ?f = "rg_flags g ! i"
  have len: "length (rf_flag ?f) = 32" using assms by (simp add: wf_group_def wf_flag_def)
  have "missingSections g i = [] \<longleftrightarrow> (\<forall>k < 32. \<forall>b < 8. \<not> bit (NOT (rf_flag ?f ! k OR rf_ignore ?f ! k)) b)"
    unfolding missingSections_def Let_def len by (auto simp: filter_empty_conv mask_bit)
  also have "\<dots> \<longleftrightarrow> (\<forall>k < 32. \<forall>b < 8. bit (rf_flag ?f ! k) b \<or> bit (rf_ignore ?f ! k) b)"
    by (auto simp: bit_not_iff bit_and_iff)
  also have "\<dots> \<longleftrightarrow> (\<forall>n < 256. recv ?f n \<or> ign ?f n)" by (rule segment_all)
  finally show ?thesis .
qed

lemma carousel_fields:
  assumes "\<forall>(tid, h, p, now) \<in> set os. in_group sys base tid \<longrightarrow> carousel_section base l ver lst seg tid h"
    and "scheduleBaseOf sys base = (base, 0, basic, True)" "l < 8" "(base + of_nat i, h, p, now) \<in> set os" "i \<le> l"
  shows "ih_Version h = ver i" "ih_LastSectionNumber h = lst i" "ih_SegmentLastSection h = seg i (unat (ih_SectionNumber h) div 8)"
    "ih_LastTableID h = base + of_nat l"
proof -
  have "in_group sys base (base + of_nat i)" using assms(3,5) by (subst in_group_iff [OF assms(2)]) (auto intro: exI [of _ i])
  then have "carousel_section base l ver lst seg (base + of_nat i) h" using assms(1,4) by fastforce
  then obtain j where j: "j \<le> l" "base + of_nat i = base + (of_nat j :: byte)" "ih_Version h = ver j" "ih_LastSectionNumber h = lst j"
    "ih_SegmentLastSection h = seg j (unat (ih_SectionNumber h) div 8)" "ih_LastTableID h = base + of_nat l" by (rule carousel_sectionD)
  moreover have "i = j" using base_plus_inj [OF _ _ j(2)] j(1) assms(3,5) by simp
  ultimately show "ih_Version h = ver i" "ih_LastSectionNumber h = lst i" "ih_SegmentLastSection h = seg i (unat (ih_SectionNumber h) div 8)"
    "ih_LastTableID h = base + of_nat l" by simp_all
qed

lemma pass_result:
  assumes "scheduleBaseOf sys base = (base, 0, basic, True)" "l < 8"
    and "\<forall>(tid, h, p, now) \<in> set before. regular sys tid h"
    and sec: "\<forall>(tid, h, p, now) \<in> set pass. in_group sys base tid \<longrightarrow> carousel_section base l ver lst seg tid h"
    and full: "full_pass base l lst seg pass"
  shows "\<exists>g. sc_groups (observe_all (before @ pass) (NewScheduleTracker sys)) base = Some g \<and> rg_basic g = basic \<and>
    passed base l ver pass g \<and> group_ready g"
proof -
  let ?t = "observe_all before (NewScheduleTracker sys)"
  have sys: "sc_system ?t = sys" by (simp add: NewScheduleTracker_def)
  have "0 \<in> set [0..<Suc l]" "0 \<in> set [0..<256 :: nat]" by auto
  from full [unfolded full_pass_def list_all_iff, rule_format, OF this]
  obtain h p now where "(base, h, p, now) \<in> set pass" by (auto simp: list_ex_iff)
  moreover have "in_group sys base base" using assms(1) by (simp add: in_group_def)
  ultimately have "touches sys base pass" by (force simp: touches_def)
  moreover have "\<And>g. sc_groups ?t base = Some g \<Longrightarrow> outside_ignored g" using outside_all [OF assms(3)] by blast
  note pass_invariant [OF assms(1,2) sys this sec]
  ultimately obtain g where g: "sc_groups (observe_all pass ?t) base = Some g"
      "rg_basic g = rg_basic (group_at ?t base basic)" "passed base l ver pass g"
    by (simp only: if_True) blast
  have "scheduleBaseOf (sc_system ?t) base = (base, 0, basic, True)" using assms(1) sys by simp
  then have "rg_basic (group_at ?t base basic) = basic" by (rule group_at_sound(2) [OF tracker_sound_all])
  moreover have "\<forall>(tid, h, p, now) \<in> set pass. \<forall>i \<le> l. tid = base + of_nat i \<longrightarrow>
      ih_LastSectionNumber h = lst i \<and> ih_SegmentLastSection h = seg i (unat (ih_SectionNumber h) div 8)"
    using carousel_fields(2,3) [OF sec assms(1,2)] by fastforce
  then have "group_ready g" using passed_ready [OF g(3) assms(2) _ full] by blast
  ultimately show ?thesis using g by auto
qed

lemma pass_stable:
  assumes "scheduleBaseOf sys base = (base, 0, basic, True)" "l < 8"
    and sec: "\<forall>(tid, h, p, now) \<in> set pass. in_group sys base tid \<longrightarrow> carousel_section base l ver lst seg tid h"
    and t: "t = observe_all (before @ pass) (NewScheduleTracker sys)" "sc_groups t base = Some g" "passed base l ver pass g"
    and ob: "(tid, h, p, now) \<in> set pass" "in_group sys base tid"
  shows "\<not> fst (Observe tid h p now t)"
proof -
  have sys: "sc_system t = sys" by (simp add: t(1) NewScheduleTracker_def)
  have "carousel_section base l ver lst seg tid h" using sec ob by fastforce
  then obtain i where i: "i \<le> l" "tid = base + of_nat i" "ih_Version h = ver i" "ih_LastTableID h = base + of_nat l" by (rule carousel_sectionD)
  have i8: "i < 8" using i(1) assms(2) by simp
  have s: "scheduleBaseOf sys tid = (base, of_nat i, basic, True)" "scheduleBaseOf (sc_system t) tid = (base, of_nat i, basic, True)"
    using baseOf_member [OF assms(1) i8] i(2) sys by simp_all
  obtain tid' h' p' now' where l': "(tid', h', p', now') \<in> set pass" "tid' = tid" "last_seen pass tid (ih_SectionNumber h) = Some (ih_Version h', p')"
    using last_seen_mem [OF ob(1)] by auto
  have "ih_Version h' = ver i" using carousel_fields(1) [OF sec assms(1,2) _ i(1)] l'(1,2) i(2) by blast
  then have v: "sb_versions (table_at t tid) (ih_SectionNumber h) = Some (ih_Version h)"
    using versions_kept(1) [OF s(1), of "before @ pass"] last_seen_append [of pass tid "ih_SectionNumber h" before] l'(3) i(3) t(1) by simp
  obtain c r g' table where o: "observe_group (last_flags_id (sc_system t) base h) (unat (of_nat i :: byte)) h now (group_at t base basic) = (c, r, g')"
    "fst (Observe tid h p now t) \<longleftrightarrow> sb_versions (table_at t tid) (ih_SectionNumber h) \<noteq> Some (ih_Version h) \<or> c"
    using Observe_step [OF s(2), of h now p] by metis
  have o': "observe_group (int l) i h now g = (c, r, g')"
    using o(1) unat_small [OF i8] last_flags_id_group [OF s(2) assms(2) i(4)] t(2) by (simp add: group_at_def)
  have pg: "rg_lastFlagsID g = int l" "wf_group g" "rf_observed (rg_flags g ! i)" "rf_version (rg_flags g ! i) = ver i"
    "recv (rg_flags g ! i) (unat (ih_SectionNumber h))" "\<forall>n < 256. skips i h now n \<longrightarrow> ign (rg_flags g ! i) n"
    using t(3) ob(1) i(1,2) unfolding passed_def outside_ignored_def by fastforce+
  note og = observe_group_spec [OF pg(2) i8 o']
  have k: "kept (int l) g i = rg_flags g ! i" "renew h (rg_flags g ! i) = rg_flags g ! i" using pg(1,4) i(3) by (simp_all add: kept_def renew_def)
  obtain b where b: "mark_section i h now b (rg_flags g ! i) = (c, rg_flags g' ! i)" "\<not> b" using og(5) k pg(1,4) i(3) by auto
  have "wf_flag (rg_flags g ! i)" using pg(2) i8 by (simp add: wf_group_def)
  from mark_section_spec(6) [OF this b(1)] have "c = b" using pg(3-6) i(3) by simp
  then show ?thesis using o(2) v b(2) by simp
qed

text \<open>
  C14. One full pass of the carousel is enough. Whatever regular sections the tracker has seen
  before (headers whose last table is not before their own), once every section of a group's pass
  has been observed, in any order and interleaved with sections of other groups, the group is
  ready; \<open>BasicComplete\<close> holds if it is the only basic group; and observing a section of the pass
  again at the time it was observed makes no progress, so that \<open>StableFor\<close> can come true.
\<close>

theorem schedule_pass_completes:
  assumes "t = observe_all (before @ pass) (NewScheduleTracker sys)"
    and "scheduleBaseOf sys base = (base, 0, basic, True)" "l < 8"
    and "\<forall>(tid, h, p, now) \<in> set before. regular sys tid h"
    and "\<forall>(tid, h, p, now) \<in> set pass. in_group sys base tid \<longrightarrow> carousel_section base l ver lst seg tid h"
    and "full_pass base l lst seg pass"
  shows "(\<exists>g. sc_groups t base = Some g \<and> group_ready g \<and> (\<forall>i < 8. missingSections g i = [])) \<and>
    (basic \<and> (\<forall>b g. sc_groups t b = Some g \<and> rg_basic g \<longrightarrow> b = base) \<longrightarrow> BasicComplete t) \<and>
    (\<forall>(tid, h, p, now) \<in> set pass. in_group sys base tid \<longrightarrow> \<not> fst (Observe tid h p now t))"
proof -
  obtain g where g: "sc_groups t base = Some g" "rg_basic g = basic" "passed base l ver pass g" "group_ready g"
    using pass_result [OF assms(2-6)] assms(1) by blast
  have wf: "wf_group g" using g(3) by (simp add: passed_def outside_ignored_def)
  then have "\<forall>i < 8. missingSections g i = []" using missing_none [OF wf] group_ready_iff [OF wf] g(4) by blast
  moreover have "basic \<and> (\<forall>b g. sc_groups t b = Some g \<and> rg_basic g \<longrightarrow> b = base) \<longrightarrow> BasicComplete t"
    using g by (auto simp: BasicComplete_iff)
  moreover have "\<forall>(tid, h, p, now) \<in> set pass. in_group sys base tid \<longrightarrow> \<not> fst (Observe tid h p now t)"
    using pass_stable [OF assms(2,3,5,1) g(1,3)] by blast
  ultimately show ?thesis using g(1,4) by blast
qed

text \<open>
  C24. The payloads the tracker keeps are the current ones: if a section that is sent again with
  another payload has another version than the time before, the payload kept of a section is the
  one of its last observation, and there is one exactly for the sections that were observed.
\<close>

theorem schedule_payload_current:
  assumes "versioned os" "snd (snd (snd (scheduleBaseOf sys tid)))"
  shows "Option.bind (sc_tables (observe_all os (NewScheduleTracker sys)) tid) (\<lambda>table. sb_payloads table n) =
    (case filter (\<lambda>(tid', h, p, now). tid' = tid \<and> ih_SectionNumber h = n) (rev os) of
       [] \<Rightarrow> None
     | (_, _, p, _) # _ \<Rightarrow> Some p)"
proof -
  obtain base index basic where s: "scheduleBaseOf sys tid = (base, index, basic, True)"
    using assms(2) by (cases "scheduleBaseOf sys tid") auto
  have "map_option snd (last_seen os tid n) = (case rev (occurrences os tid n) of [] \<Rightarrow> None | (_, _, p, _) # _ \<Rightarrow> Some p)"
    by (cases "occurrences os tid n" rule: rev_cases) (auto simp: last_seen_def split: prod.split)
  moreover have "filter (\<lambda>(tid', h, p, now). tid' = tid \<and> ih_SectionNumber h = n) (rev os) = rev (occurrences os tid n)"
    by (simp add: occurrences_def rev_filter)
  ultimately show ?thesis using versions_kept(3) [OF s assms(1), of n] by (simp add: stored_def)
qed

text \<open>
  C25. The table tracker is exact: \<open>Missing\<close> lists, in ascending order, the numbers up to the last
  section that have not been received, \<open>Ready\<close> holds iff there are none and a section has been
  received at all; both loops end although their counter is a byte that would wrap.
\<close>

theorem table_tracker_exact:
  "tracker_Missing t = (if tt_initialized t then map int (filter (\<lambda>n. of_nat n \<notin> tt_sections t) [0..<Suc (unat (tt_last t))]) else []) \<and>
   tracker_Ready t = (tt_initialized t \<and> tracker_Missing t = [])"
proof -
  let ?S = "tt_sections t" and ?l = "tt_last t"
  have m: "missing_loop ?S ?l 0 = map int (filter (\<lambda>n. of_nat n \<notin> ?S) [0..<Suc (unat ?l)])"
    using missing_loop_eq [of 0 ?l ?S] by simp
  have "(\<forall>n \<le> ?l. n \<in> ?S) \<longleftrightarrow> (\<forall>n < Suc (unat ?l). of_nat n \<in> ?S)"
    using ready_loop_iff [of ?S ?l 0] ready_loop_from_0 [of ?S ?l] by (simp add: less_Suc_eq_le)
  then have "ready_loop ?S ?l 0 \<longleftrightarrow> missing_loop ?S ?l 0 = []"
    by (simp add: m ready_loop_from_0 filter_empty_conv Ball_def del: upt_Suc)
  then show ?thesis using m by (simp add: tracker_Missing_def tracker_Ready_def)
qed

subsection \<open>Example runs\<close>

text \<open>A schedule of two segments with one section each, in one table.\<close>

definition demo_section :: "byte \<Rightarrow> isdb_header" where
  "demo_section n = \<lparr>ih_TableIDExtension = 1, ih_Version = 3, ih_SectionNumber = n, ih_LastSectionNumber = 8, ih_CurrentNext = True,
     ih_LastTableID = 0x50, ih_SegmentLastSection = n\<rparr>"

definition demo_pass :: "nat observation list" where
  "demo_pass = [(0x50, demo_section 8, 20, 0), (0x50, demo_section 0, 10, 0)]"

definition demo_tracker :: "nat ScheduleTracker" where
  "demo_tracker = observe_all demo_pass (NewScheduleTracker ScheduleTS)"

theorem schedule_complete_sound_witness:
  "BasicComplete demo_tracker \<and> (\<exists>table. sc_tables demo_tracker 0x50 = Some table)"
proof -
  have c: "BasicComplete demo_tracker" by code_simp
  have "case sc_groups demo_tracker 0x50 of None \<Rightarrow> False | Some g \<Rightarrow> rg_basic g \<and> rg_lastFlagsID g = 0" by code_simp
  then obtain g where g: "sc_groups demo_tracker 0x50 = Some g" "rg_basic g" "rg_lastFlagsID g = 0" by (auto split: option.split_asm)
  show ?thesis using schedule_complete_sound [OF demo_tracker_def c g(1,2), of 0 0] g(3) c by auto
qed

theorem schedule_pass_completes_witness:
  "full_pass 0x50 0 (\<lambda>_. 8) (\<lambda>_ k. of_nat (8 * k)) demo_pass \<and>
   (\<exists>g. sc_groups demo_tracker 0x50 = Some g \<and> group_ready g) \<and> \<not> fst (Observe 0x50 (demo_section 8) 20 0 demo_tracker)"
proof -
  have "\<forall>(tid, h, p, now) \<in> set demo_pass. in_group ScheduleTS 0x50 tid \<longrightarrow>
      carousel_section 0x50 0 (\<lambda>_. 3) (\<lambda>_. 8) (\<lambda>_ k. of_nat (8 * k)) tid h" by code_simp
  moreover have f: "full_pass 0x50 0 (\<lambda>_. 8) (\<lambda>_ k. of_nat (8 * k)) demo_pass" by code_simp
  moreover have "scheduleBaseOf ScheduleTS 0x50 = (0x50, 0, True, True)" by code_simp
  moreover have "demo_tracker = observe_all ([] @ demo_pass) (NewScheduleTracker ScheduleTS)" by (simp add: demo_tracker_def)
  ultimately have "(\<exists>g. sc_groups demo_tracker 0x50 = Some g \<and> group_ready g \<and> (\<forall>i < 8. missingSections g i = [])) \<and>
    (\<forall>(tid, h, p, now) \<in> set demo_pass. in_group ScheduleTS 0x50 tid \<longrightarrow> \<not> fst (Observe tid h p now demo_tracker))"
    using schedule_pass_completes [of demo_tracker "[]" demo_pass ScheduleTS "0x50" True 0 "\<lambda>_. 3" "\<lambda>_. 8" "\<lambda>_ k. of_nat (8 * k)"] by simp
  moreover have "in_group ScheduleTS 0x50 0x50" "(0x50, demo_section 8, 20, 0) \<in> set demo_pass" by (code_simp, simp add: demo_pass_def)
  ultimately show ?thesis using f by blast
qed

theorem schedule_payload_current_witness:
  "versioned demo_pass \<and>
   Option.bind (sc_tables (observe_all demo_pass (NewScheduleTracker ScheduleTS)) 0x50) (\<lambda>table. sb_payloads table 8) = Some 20"
proof -
  have "versioned demo_pass"
    by (auto simp: versioned_def occurrences_def demo_pass_def demo_section_def agrees_def)
  moreover have "snd (snd (snd (scheduleBaseOf ScheduleTS 0x50)))" by code_simp
  moreover have "filter (\<lambda>(tid', h, p, now). tid' = 0x50 \<and> ih_SectionNumber h = 8) (rev demo_pass) = [(0x50, demo_section 8, 20, 0)]"
    by (simp add: demo_pass_def demo_section_def)
  ultimately show ?thesis using schedule_payload_current [of demo_pass ScheduleTS "0x50" 8] by simp
qed

text \<open>
  A new version of the table that no longer has the second section completes the schedule, but the
  payload of the section that was dropped is still among \<open>Sections\<close>.
\<close>

definition demo_shrunk :: "nat ScheduleTracker" where
  "demo_shrunk = observe_all
     (demo_pass @ [(0x50, (demo_section 0)\<lparr>ih_Version := 4, ih_LastSectionNumber := 0\<rparr>, 11, 0)]) (NewScheduleTracker ScheduleTS)"

lemma Sections_keeps_dropped_section: "BasicComplete demo_shrunk \<and> Sections demo_shrunk = [(True, 11), (True, 20)]"
proof
  show "BasicComplete demo_shrunk" by code_simp
  show "Sections demo_shrunk = [(True, 11), (True, 20)]" by code_simp
qed

end
