(* ===== verification/Tuner.thy ===== *)
theory Tuner
  imports Prelude "HOL-Library.Word" "HOL-Library.AList" "HOL-Library.Char_ord" "HOL-Library.List_Lexorder"
begin

section \<open>The tuner manager\<close>

text \<open>
  \<open>internal/tuner/tuner.go\<close>, \<open>manager.go\<close> and the runtime state of \<open>status.go\<close>: which tuner a
  stream gets, how it is reserved, used by several users, taken over by a request of higher
  priority, and released.

  Every method runs under the manager's lock, so it is a function of the manager's state. A tuner
  is its position in the configured list, a managed device its position in the list of all devices
  handed out; \<open>md_released\<close> is the device's \<open>sync.Once\<close>. The agent hub is an argument where it is
  asked, \<open>None\<close> the nil hub; of its state the fields \<open>Available\<close> reads are kept. What starting and
  stopping the process behind a device returns is an argument too, an error or \<open>None\<close>.
  \<open>tn_changed\<close> counts the channels closed by \<open>notifyChangedLocked\<close>. The users of a tuner are an
  association list. Of a channel's configuration the fields the manager reads are kept; log lines,
  metrics and the publishing of status events are left out.
\<close>

record AgentTunerConfig =
  at_Name :: string
  at_Command :: string
  at_DvbDevicePath :: string
  at_Decoder :: string
  at_B61Decoder :: string

record TunerConfig =
  tc_Name :: string
  tc_Agent :: "AgentTunerConfig option"
  tc_Types :: "string list"
  tc_Command :: string
  tc_DvbDevicePath :: string
  tc_Decoder :: string
  tc_B61Decoder :: string
  tc_IsDisabled :: bool

record ChannelConfig =
  ch_Name :: string
  ch_Type :: string
  ch_Channel :: string

datatype SourceKind = SourceKindUnsupported | SourceKindCommand | SourceKindDVB | SourceKindAgent

text \<open>The agent hub: for each connected agent whether its control channel is up, and the quarantined
  tuners.\<close>

record Hub =
  hb_closed :: bool
  hb_connections :: "string \<rightharpoonup> bool"
  hb_quarantined :: "(string \<times> string) set"

type_synonym hub = "Hub option"

definition hub_Available :: "hub \<Rightarrow> string \<Rightarrow> string \<Rightarrow> bool" where
  "hub_Available hub uid tuner =
     (case hub of
        None \<Rightarrow> False
      | Some h \<Rightarrow> \<not> hb_closed h \<and> hb_connections h uid = Some True \<and> (uid, tuner) \<notin> hb_quarantined h)"

definition Groups :: "TunerConfig \<Rightarrow> string list" where
  "Groups t = sort (remdups (tc_Types t))"

definition tuner_SourceKind :: "TunerConfig \<Rightarrow> SourceKind" where
  "tuner_SourceKind t =
     (if tc_Agent t \<noteq> None then SourceKindAgent
      else if tc_DvbDevicePath t \<noteq> '''' then SourceKindDVB
      else if tc_Command t \<noteq> '''' then SourceKindCommand
      else SourceKindUnsupported)"

definition Usable :: "TunerConfig \<Rightarrow> bool" where
  "Usable t =
     (case tuner_SourceKind t of SourceKindCommand \<Rightarrow> True | SourceKindDVB \<Rightarrow> True | SourceKindAgent \<Rightarrow> True | _ \<Rightarrow> False)"

definition Available :: "hub \<Rightarrow> TunerConfig \<Rightarrow> bool" where
  "Available hub t =
     (case tc_Agent t of None \<Rightarrow> True | Some ag \<Rightarrow> hub_Available hub (at_Name ag) (tc_Name t))"

text \<open>\<open>NewDevice\<close>: the kind of device created, or the nil device.\<close>

definition NewDevice :: "hub \<Rightarrow> TunerConfig \<Rightarrow> SourceKind option" where
  "NewDevice hub t =
     (case tuner_SourceKind t of
        SourceKindAgent \<Rightarrow> if hub = None then None else Some SourceKindAgent
      | SourceKindDVB \<Rightarrow> Some SourceKindDVB
      | SourceKindCommand \<Rightarrow> Some SourceKindCommand
      | SourceKindUnsupported \<Rightarrow> None)"

subsection \<open>Runtime state\<close>

record StreamSetting =
  st_Channel :: "ChannelConfig option"
  st_NetworkID :: "16 word option"
  st_ServiceID :: "16 word option"
  st_EventID :: "16 word option"
  st_NoProvide :: "bool option"
  st_ParseNIT :: "bool option"
  st_ParseSDT :: "bool option"
  st_ParseEIT :: "bool option"

record User =
  us_ID :: string
  us_Priority :: int
  us_Agent :: string
  us_URL :: string
  us_DisableDecoder :: bool
  us_StreamSetting :: StreamSetting
  us_StreamInfo :: "(string \<rightharpoonup> int \<times> int) option"

record trackedUser =
  tu_user :: User
  tu_refs :: int

record tunerRuntime =
  rt_inUse :: bool
  rt_running :: bool
  rt_stopped :: bool
  rt_fault :: bool
  rt_reservationPriority :: int
  rt_device :: "nat option"
  rt_requested :: "ChannelConfig option"
  rt_tuned :: "ChannelConfig option"
  rt_users :: "(string \<times> trackedUser) list"

record managedDevice =
  md_kind :: SourceKind
  md_tuner :: nat
  md_released :: bool

record TunerManager =
  tn_tuners :: "TunerConfig list"
  tn_inUse :: "nat set"
  tn_runtime :: "tunerRuntime list"
  tn_nextByType :: "string \<Rightarrow> int"
  tn_devices :: "managedDevice list"
  tn_changed :: nat

definition new_runtime :: tunerRuntime where
  "new_runtime =
     \<lparr>rt_inUse = False, rt_running = False, rt_stopped = False, rt_fault = False, rt_reservationPriority = 0,
      rt_device = None, rt_requested = None, rt_tuned = None, rt_users = []\<rparr>"

definition NewTunerManager :: "TunerConfig list \<Rightarrow> TunerManager" where
  "NewTunerManager cfg =
     \<lparr>tn_tuners = cfg, tn_inUse = {}, tn_runtime = replicate (length cfg) new_runtime, tn_nextByType = (\<lambda>_. 0),
      tn_devices = [], tn_changed = 0\<rparr>"

definition GetTuner :: "string \<Rightarrow> TunerManager \<Rightarrow> TunerConfig option" where
  "GetTuner name tm = find (\<lambda>item. tc_Name item = name) (tn_tuners tm)"

definition GetTunerByType :: "string \<Rightarrow> TunerManager \<Rightarrow> TunerConfig option" where
  "GetTunerByType channelType tm =
     find (\<lambda>item. \<not> tc_IsDisabled item \<and> channelType \<in> set (Groups item)) (tn_tuners tm)"

definition DecoderCommandByType :: "string \<Rightarrow> TunerManager \<Rightarrow> string" where
  "DecoderCommandByType channelType tm =
     (case GetTunerByType channelType tm of None \<Rightarrow> '''' | Some item \<Rightarrow> tc_Decoder item)"

definition B61DecoderCommandByType :: "string \<Rightarrow> TunerManager \<Rightarrow> string" where
  "B61DecoderCommandByType channelType tm =
     (case GetTunerByType channelType tm of None \<Rightarrow> '''' | Some item \<Rightarrow> tc_B61Decoder item)"

definition effectivePriority :: "tunerRuntime \<Rightarrow> int" where
  "effectivePriority r =
     foldl (\<lambda>priority (_, tracked). if us_Priority (tu_user tracked) > priority then us_Priority (tu_user tracked) else priority)
       (rt_reservationPriority r) (rt_users r)"

definition resetReservation :: "tunerRuntime \<Rightarrow> bool \<times> tunerRuntime" where
  "resetReservation r = (rt_fault r, new_runtime)"

definition put_runtime :: "nat \<Rightarrow> tunerRuntime \<Rightarrow> TunerManager \<Rightarrow> TunerManager" where
  "put_runtime i r tm = tm\<lparr>tn_runtime := (tn_runtime tm)[i := r]\<rparr>"

definition notifyChangedLocked :: "TunerManager \<Rightarrow> TunerManager" where
  "notifyChangedLocked tm = tm\<lparr>tn_changed := tn_changed tm + 1\<rparr>"

subsection \<open>Acquiring a device\<close>

text \<open>\<open>ErrDevice\<close> is an error of the process behind a device, passed on.\<close>

datatype tuner_error = ErrTunerNotFound | ErrUnsupportedTuner | ErrTunerUnavailable | ErrDevice string

record DecoderCommands =
  dc_AgentDecoder :: bool
  dc_AgentB61Decoder :: bool
  dc_Decoder :: string
  dc_B61Decoder :: string

record grabCandidate =
  gc_device :: nat
  gc_tunerName :: string
  gc_priority :: int

record acquireAttempt =
  aa_device :: "nat option"
  aa_decoders :: DecoderCommands
  aa_found :: bool
  aa_usable :: bool
  aa_grab :: "grabCandidate option"
  aa_changed :: nat

definition betterGrabCandidate :: "grabCandidate option \<Rightarrow> TunerConfig \<Rightarrow> tunerRuntime \<Rightarrow> int \<Rightarrow> grabCandidate option" where
  "betterGrabCandidate current item r requestPriority =
     (case rt_device r of
        None \<Rightarrow> current
      | Some device \<Rightarrow>
          let effective = effectivePriority r
          in if requestPriority \<le> effective then current
             else case current of
                 Some c \<Rightarrow> if gc_priority c \<le> effective then current
                   else Some \<lparr>gc_device = device, gc_tunerName = tc_Name item, gc_priority = effective\<rparr>
               | None \<Rightarrow> Some \<lparr>gc_device = device, gc_tunerName = tc_Name item, gc_priority = effective\<rparr>)"

definition reserveLocked ::
  "hub \<Rightarrow> nat \<Rightarrow> int \<Rightarrow> ChannelConfig option \<Rightarrow> ChannelConfig option \<Rightarrow> TunerManager \<Rightarrow> (nat \<times> DecoderCommands \<times> TunerManager) option" where
  "reserveLocked hub i priority requested tuned tm =
     (let item = tn_tuners tm ! i
      in case NewDevice hub item of
           None \<Rightarrow> None
         | Some kind \<Rightarrow>
             let d = length (tn_devices tm);
                 r = (tn_runtime tm ! i)\<lparr>rt_inUse := True, rt_running := False, rt_stopped := False,
                       rt_reservationPriority := priority, rt_requested := requested, rt_tuned := tuned, rt_device := Some d\<rparr>;
                 tm = put_runtime i r (tm\<lparr>tn_inUse := insert i (tn_inUse tm),
                        tn_devices := tn_devices tm @ [\<lparr>md_kind = kind, md_tuner = i, md_released = False\<rparr>]\<rparr>)
             in Some (d,
                  \<lparr>dc_AgentDecoder = (case tc_Agent item of None \<Rightarrow> False | Some ag \<Rightarrow> at_Decoder ag \<noteq> ''''),
                   dc_AgentB61Decoder = (case tc_Agent item of None \<Rightarrow> False | Some ag \<Rightarrow> at_B61Decoder ag \<noteq> ''''),
                   dc_Decoder = tc_Decoder item, dc_B61Decoder = tc_B61Decoder item\<rparr>, tm))"

fun try_loop ::
  "hub \<Rightarrow> string \<Rightarrow> int \<Rightarrow> ChannelConfig option \<Rightarrow> ChannelConfig option \<Rightarrow> nat list \<Rightarrow> acquireAttempt \<Rightarrow> TunerManager \<Rightarrow>
   acquireAttempt \<times> TunerManager" where
  "try_loop hub channelType requestPriority requested tuned [] result tm = (result, tm)"
| "try_loop hub channelType requestPriority requested tuned (index # rest) result tm =
     (let item = tn_tuners tm ! index; r = tn_runtime tm ! index;
          continue = (\<lambda>result. try_loop hub channelType requestPriority requested tuned rest result tm)
      in if tc_IsDisabled item \<or> channelType \<notin> set (Groups item) then continue result
         else
           let result = result\<lparr>aa_found := True\<rparr>
           in if \<not> Usable item then continue result
              else
                let result = result\<lparr>aa_usable := True\<rparr>
                in if rt_fault r \<or> \<not> Available hub item then continue result
                   else if index \<in> tn_inUse tm
                   then continue (result\<lparr>aa_grab := betterGrabCandidate (aa_grab result) item r requestPriority\<rparr>)
                   else case reserveLocked hub index requestPriority requested tuned tm of
                       None \<Rightarrow> continue result
                     | Some (d, decoders, tm) \<Rightarrow>
                         (result\<lparr>aa_device := Some d, aa_decoders := decoders\<rparr>,
                          tm\<lparr>tn_nextByType := (tn_nextByType tm)(channelType := int (index + 1) mod glen (tn_tuners tm))\<rparr>))"

definition rotation :: "string \<Rightarrow> TunerManager \<Rightarrow> nat list" where
  "rotation channelType tm =
     map (\<lambda>offset. nat ((tn_nextByType tm channelType + int offset) mod glen (tn_tuners tm))) [0..<length (tn_tuners tm)]"

definition no_attempt :: "TunerManager \<Rightarrow> acquireAttempt" where
  "no_attempt tm =
     \<lparr>aa_device = None, aa_decoders = \<lparr>dc_AgentDecoder = False, dc_AgentB61Decoder = False, dc_Decoder = '''', dc_B61Decoder = ''''\<rparr>,
      aa_found = False, aa_usable = False, aa_grab = None, aa_changed = tn_changed tm\<rparr>"

definition tryAcquireLocked ::
  "hub \<Rightarrow> string \<Rightarrow> int \<Rightarrow> ChannelConfig option \<Rightarrow> ChannelConfig option \<Rightarrow> TunerManager \<Rightarrow> acquireAttempt \<times> TunerManager" where
  "tryAcquireLocked hub channelType requestPriority requested tuned tm =
     try_loop hub channelType requestPriority requested tuned (rotation channelType tm) (no_attempt tm) tm"

fun available_loop :: "hub \<Rightarrow> string \<Rightarrow> int \<Rightarrow> nat list \<Rightarrow> bool \<Rightarrow> bool \<Rightarrow> TunerManager \<Rightarrow> tuner_error option" where
  "available_loop hub channelType requestPriority [] found usable tm =
     (if \<not> found then Some ErrTunerNotFound
      else if \<not> usable then Some ErrUnsupportedTuner
      else Some ErrTunerUnavailable)"
| "available_loop hub channelType requestPriority (i # is) found usable tm =
     (let item = tn_tuners tm ! i; r = tn_runtime tm ! i
      in if tc_IsDisabled item \<or> channelType \<notin> set (Groups item)
         then available_loop hub channelType requestPriority is found usable tm
         else if \<not> Usable item then available_loop hub channelType requestPriority is True usable tm
         else if rt_fault r \<or> \<not> Available hub item then available_loop hub channelType requestPriority is True True tm
         else if i \<notin> tn_inUse tm \<or> rt_device r \<noteq> None \<and> requestPriority > effectivePriority r then None
         else available_loop hub channelType requestPriority is True True tm)"

definition CheckAvailable :: "hub \<Rightarrow> string \<Rightarrow> int \<Rightarrow> TunerManager \<Rightarrow> tuner_error option" where
  "CheckAvailable hub channelType requestPriority tm =
     available_loop hub channelType requestPriority [0..<length (tn_tuners tm)] False False tm"

subsection \<open>Devices\<close>

definition release :: "nat \<Rightarrow> TunerManager \<Rightarrow> TunerManager" where
  "release i tm =
     (if i \<in> tn_inUse tm
      then notifyChangedLocked (put_runtime i (snd (resetReservation (tn_runtime tm ! i))) (tm\<lparr>tn_inUse := tn_inUse tm - {i}\<rparr>))
      else tm)"

definition releaseOnce :: "nat \<Rightarrow> TunerManager \<Rightarrow> TunerManager" where
  "releaseOnce d tm =
     (let device = tn_devices tm ! d
      in if md_released device then tm
         else release (md_tuner device) (tm\<lparr>tn_devices := (tn_devices tm)[d := device\<lparr>md_released := True\<rparr>]\<rparr>))"

text \<open>The updates of \<open>markRunning\<close>, \<open>markStopped\<close> and \<open>markFault\<close>, ignored unless the device is the
  one the tuner is reserved for.\<close>

definition updateRuntime :: "(tunerRuntime \<Rightarrow> tunerRuntime) \<Rightarrow> nat \<Rightarrow> nat \<Rightarrow> TunerManager \<Rightarrow> TunerManager" where
  "updateRuntime f i d tm =
     (let r = tn_runtime tm ! i
      in if \<not> rt_inUse r \<or> rt_device r \<noteq> Some d then tm else put_runtime i (f r) tm)"

definition markRunning :: "nat \<Rightarrow> nat \<Rightarrow> TunerManager \<Rightarrow> TunerManager" where
  "markRunning = updateRuntime (\<lambda>r. r\<lparr>rt_running := True, rt_stopped := False\<rparr>)"

definition markStopped :: "nat \<Rightarrow> nat \<Rightarrow> TunerManager \<Rightarrow> TunerManager" where
  "markStopped = updateRuntime (\<lambda>r. r\<lparr>rt_running := False, rt_stopped := True\<rparr>)"

definition markFault :: "nat \<Rightarrow> nat \<Rightarrow> TunerManager \<Rightarrow> TunerManager" where
  "markFault = updateRuntime (\<lambda>r. r\<lparr>rt_running := False, rt_fault := True\<rparr>)"

text \<open>\<open>Start\<close>, given what starting the process returned, the goroutine that waits for its end, and
  \<open>Stop\<close>, which releases the tuner whatever stopping the process returned.\<close>

definition device_Start :: "nat \<Rightarrow> string option \<Rightarrow> TunerManager \<Rightarrow> string option \<times> TunerManager" where
  "device_Start d err tm =
     (let i = md_tuner (tn_devices tm ! d)
      in if err \<noteq> None then (err, releaseOnce d (markFault i d tm)) else (None, markRunning i d tm))"

definition device_done :: "nat \<Rightarrow> string option \<Rightarrow> TunerManager \<Rightarrow> TunerManager" where
  "device_done d err tm =
     (let i = md_tuner (tn_devices tm ! d)
      in if err \<noteq> None then markFault i d tm else markStopped i d tm)"

definition device_Stop :: "nat \<Rightarrow> string option \<Rightarrow> TunerManager \<Rightarrow> string option \<times> TunerManager" where
  "device_Stop d err tm = (err, releaseOnce d tm)"

definition KillProcess :: "int \<Rightarrow> (nat \<Rightarrow> string option) \<Rightarrow> TunerManager \<Rightarrow> tuner_error option \<times> TunerManager" where
  "KillProcess index stop tm =
     (if index < 0 \<or> index \<ge> glen (tn_tuners tm) then (Some ErrTunerNotFound, tm)
      else case rt_device (tn_runtime tm ! nat index) of
          None \<Rightarrow> (None, tm)
        | Some d \<Rightarrow> (case device_Stop d (stop d) tm of (err, tm) \<Rightarrow> (map_option ErrDevice err, tm)))"

text \<open>\<open>AcquireDevice\<close> with at most \<open>n\<close> rounds of its loop, the process of device \<open>d\<close> returning
  \<open>stop d\<close> when it is stopped, and no other caller between the rounds. The result is \<open>None\<close> where the
  call is still waiting: for a change of the tuners or of the hub, or because the rounds are used up.
  The context is not cancelled.\<close>

fun AcquireDevice ::
  "nat \<Rightarrow> hub \<Rightarrow> (nat \<Rightarrow> string option) \<Rightarrow> string \<Rightarrow> int \<Rightarrow> ChannelConfig option \<Rightarrow> ChannelConfig option \<Rightarrow> bool \<Rightarrow> TunerManager \<Rightarrow>
   (tuner_error + nat \<times> DecoderCommands) option \<times> TunerManager" where
  "AcquireDevice 0 hub stop channelType requestPriority requested tuned wait tm = (None, tm)"
| "AcquireDevice (Suc n) hub stop channelType requestPriority requested tuned wait tm =
     (case tryAcquireLocked hub channelType requestPriority requested tuned tm of (attempt, tm) \<Rightarrow>
        case aa_device attempt of
          Some d \<Rightarrow> (Some (Inr (d, aa_decoders attempt)), tm)
        | None \<Rightarrow>
            if \<not> aa_found attempt then (Some (Inl ErrTunerNotFound), tm)
            else if \<not> aa_usable attempt then (Some (Inl ErrUnsupportedTuner), tm)
            else case aa_grab attempt of
                Some c \<Rightarrow>
                  (case device_Stop (gc_device c) (stop (gc_device c)) tm of (err, tm) \<Rightarrow>
                     case err of
                       Some e \<Rightarrow> (Some (Inl (ErrDevice e)), tm)
                     | None \<Rightarrow>
                         if tn_changed tm = aa_changed attempt then (None, tm)
                         else AcquireDevice n hub stop channelType requestPriority requested tuned wait tm)
              | None \<Rightarrow> if \<not> wait then (Some (Inl ErrTunerUnavailable), tm) else (None, tm))"

definition NewDeviceByType :: "nat \<Rightarrow> hub \<Rightarrow> (nat \<Rightarrow> string option) \<Rightarrow> string \<Rightarrow> ChannelConfig option \<Rightarrow> TunerManager \<Rightarrow>
   (tuner_error + nat) option \<times> TunerManager" where
  "NewDeviceByType n hub stop channelType channel tm =
     (case AcquireDevice n hub stop channelType 0 channel channel False tm of
        (r, tm) \<Rightarrow> (map_option (map_sum (\<lambda>e. e) fst) r, tm))"

subsection \<open>Users\<close>

definition addUser :: "nat \<Rightarrow> User \<Rightarrow> TunerManager \<Rightarrow> TunerManager" where
  "addUser i user tm =
     (if us_ID user = '''' then tm
      else
        let r = tn_runtime tm ! i
        in case map_of (rt_users r) (us_ID user) of
             Some tracked \<Rightarrow>
               let user = (if us_StreamInfo user = None then user\<lparr>us_StreamInfo := us_StreamInfo (tu_user tracked)\<rparr> else user)
               in put_runtime i (r\<lparr>rt_users := AList.update (us_ID user) \<lparr>tu_user = user, tu_refs = tu_refs tracked + 1\<rparr> (rt_users r)\<rparr>) tm
           | None \<Rightarrow> put_runtime i (r\<lparr>rt_users := AList.update (us_ID user) \<lparr>tu_user = user, tu_refs = 1\<rparr> (rt_users r)\<rparr>) tm)"

definition removeUser :: "nat \<Rightarrow> string \<Rightarrow> TunerManager \<Rightarrow> TunerManager" where
  "removeUser i uid tm =
     (let r = tn_runtime tm ! i
      in case map_of (rt_users r) uid of
           None \<Rightarrow> tm
         | Some tracked \<Rightarrow>
             if tu_refs tracked - 1 = 0 then put_runtime i (r\<lparr>rt_users := AList.delete uid (rt_users r)\<rparr>) tm
             else put_runtime i (r\<lparr>rt_users := AList.update uid (tracked\<lparr>tu_refs := tu_refs tracked - 1\<rparr>) (rt_users r)\<rparr>) tm)"

definition updateUserStreamInfo :: "nat \<Rightarrow> string \<Rightarrow> string \<Rightarrow> int \<times> int \<Rightarrow> TunerManager \<Rightarrow> TunerManager" where
  "updateUserStreamInfo i uid key info tm =
     (let r = tn_runtime tm ! i
      in case map_of (rt_users r) uid of
           None \<Rightarrow> tm
         | Some tracked \<Rightarrow>
             let user = tu_user tracked;
                 m = (case us_StreamInfo user of None \<Rightarrow> Map.empty | Some m \<Rightarrow> m);
                 tracked = tracked\<lparr>tu_user := user\<lparr>us_StreamInfo := Some (m(key \<mapsto> info))\<rparr>\<rparr>
             in put_runtime i (r\<lparr>rt_users := AList.update uid tracked (rt_users r)\<rparr>) tm)"

subsection \<open>Status\<close>

record Status =
  ts_Index :: int
  ts_Name :: string
  ts_Types :: "string list"
  ts_Command :: string
  ts_PID :: int
  ts_Users :: "User list"
  ts_IsAvailable :: bool
  ts_IsFree :: bool
  ts_IsUsing :: bool
  ts_IsFault :: bool
  ts_CurrentChannelType :: string
  ts_CurrentChannel :: string
  ts_TunedChannelType :: string
  ts_TunedChannel :: string

definition channelTypeOf :: "ChannelConfig option \<Rightarrow> string" where
  "channelTypeOf channel = (case channel of None \<Rightarrow> '''' | Some c \<Rightarrow> ch_Type c)"

definition channelID :: "ChannelConfig option \<Rightarrow> string" where
  "channelID channel = (case channel of None \<Rightarrow> '''' | Some c \<Rightarrow> ch_Channel c)"

text \<open>\<open>info\<close> is what a device reports of its process, command and process id.\<close>

definition statusLocked :: "hub \<Rightarrow> (nat \<Rightarrow> string \<times> int) \<Rightarrow> nat \<Rightarrow> TunerManager \<Rightarrow> Status" where
  "statusLocked hub info i tm =
     (let item = tn_tuners tm ! i; r = tn_runtime tm ! i;
          available = (\<not> tc_IsDisabled item \<and> Usable item \<and> Available hub item \<and> \<not> rt_fault r \<and> \<not> rt_stopped r);
          (command, pid) = (case rt_device r of None \<Rightarrow> ('''', 0) | Some d \<Rightarrow> info d);
          users = map (\<lambda>uid. tu_user (the (map_of (rt_users r) uid))) (sort (map fst (rt_users r)))
      in \<lparr>ts_Index = int i, ts_Name = tc_Name item, ts_Types = Groups item, ts_Command = command, ts_PID = pid, ts_Users = users,
          ts_IsAvailable = available, ts_IsFree = (available \<and> \<not> rt_inUse r \<and> users = []),
          ts_IsUsing = (available \<and> rt_running r \<and> users \<noteq> []), ts_IsFault = rt_fault r,
          ts_CurrentChannelType = channelTypeOf (rt_requested r), ts_CurrentChannel = channelID (rt_requested r),
          ts_TunedChannelType = channelTypeOf (rt_tuned r), ts_TunedChannel = channelID (rt_tuned r)\<rparr>)"

definition Statuses :: "hub \<Rightarrow> (nat \<Rightarrow> string \<times> int) \<Rightarrow> TunerManager \<Rightarrow> Status list" where
  "Statuses hub info tm = map (\<lambda>i. statusLocked hub info i tm) [0..<length (tn_tuners tm)]"

definition status_at :: "hub \<Rightarrow> (nat \<Rightarrow> string \<times> int) \<Rightarrow> int \<Rightarrow> TunerManager \<Rightarrow> Status option" where
  "status_at hub info index tm =
     (if index < 0 \<or> index \<ge> glen (tn_tuners tm) then None else Some (statusLocked hub info (nat index) tm))"

end
