(* ===== verification/TunerCorrect.thy ===== *)
theory TunerCorrect
  imports Tuner
begin

section \<open>Reservation, take-over and release of tuners\<close>

text \<open>
  The properties of the tuner manager: a tuner has at most one device that is not released, an
  attempt takes the first free tuner of the rotation and otherwise names the device of lowest
  priority to take over, and \<open>CheckAvailable\<close> answers exactly what \<open>AcquireDevice\<close> does.
\<close>

subsection \<open>What an attempt looks for\<close>

definition offers :: "string \<Rightarrow> TunerManager \<Rightarrow> nat \<Rightarrow> bool" where
  "offers channelType tm i \<longleftrightarrow> \<not> tc_IsDisabled (tn_tuners tm ! i) \<and> channelType \<in> set (Groups (tn_tuners tm ! i))"

definition serves :: "hub \<Rightarrow> string \<Rightarrow> TunerManager \<Rightarrow> nat \<Rightarrow> bool" where
  "serves hub channelType tm i \<longleftrightarrow>
     offers channelType tm i \<and> Usable (tn_tuners tm ! i) \<and> \<not> rt_fault (tn_runtime tm ! i) \<and> Available hub (tn_tuners tm ! i)"

definition tuner_priority :: "TunerManager \<Rightarrow> nat \<Rightarrow> int" where
  "tuner_priority tm i = effectivePriority (tn_runtime tm ! i)"

text \<open>The device to take over: of the tuners below the requested priority one of the lowest
  priority, the first in the order of the list (\<open>sort_key\<close> is stable).\<close>

definition victim :: "hub \<Rightarrow> string \<Rightarrow> int \<Rightarrow> nat list \<Rightarrow> TunerManager \<Rightarrow> grabCandidate option" where
  "victim hub channelType requestPriority is tm =
     (case sort_key (tuner_priority tm) (filter (\<lambda>i. serves hub channelType tm i \<and> tuner_priority tm i < requestPriority) is) of
        [] \<Rightarrow> None
      | i # _ \<Rightarrow> Some \<lparr>gc_device = the (rt_device (tn_runtime tm ! i)), gc_tunerName = tc_Name (tn_tuners tm ! i),
                    gc_priority = tuner_priority tm i\<rparr>)"

lemma Groups_iff [simp]: "c \<in> set (Groups t) \<longleftrightarrow> c \<in> set (tc_Types t)"
  by (simp add: Groups_def)

lemma serves_device: "serves hub channelType tm i \<Longrightarrow> \<exists>kind. NewDevice hub (tn_tuners tm ! i) = Some kind"
  by (auto simp: serves_def NewDevice_def Available_def Usable_def tuner_SourceKind_def hub_Available_def
      split: SourceKind.splits option.splits if_splits)

definition better :: "grabCandidate option \<Rightarrow> grabCandidate option \<Rightarrow> grabCandidate option" where
  "better a b =
     (case a of None \<Rightarrow> b
      | Some c \<Rightarrow> (case b of None \<Rightarrow> a | Some c' \<Rightarrow> if gc_priority c \<le> gc_priority c' then a else b))"

lemma better_assoc: "better (better a b) c = better a (better b c)"
  by (auto simp: better_def split: option.splits)

lemma better_None [simp]: "better None b = b" "better a None = a"
  by (simp_all add: better_def split: option.splits)

lemma case_insort_key:
  "(case insort_key f x xs of [] \<Rightarrow> a | i # _ \<Rightarrow> g i) = (case xs of [] \<Rightarrow> g x | y # _ \<Rightarrow> if f x \<le> f y then g x else g y)"
  by (cases xs) auto

lemma victim_Cons:
  "victim hub ty p (i # is) tm =
     better (if serves hub ty tm i \<and> tuner_priority tm i < p
            then Some \<lparr>gc_device = the (rt_device (tn_runtime tm ! i)), gc_tunerName = tc_Name (tn_tuners tm ! i),
                    gc_priority = tuner_priority tm i\<rparr> else None)
       (victim hub ty p is tm)"
  by (simp add: victim_def better_def case_insort_key split: list.split)

lemma victim_Nil [simp]: "victim hub ty p [] tm = None"
  by (simp add: victim_def)

lemma betterGrab_better:
  assumes "rt_device (tn_runtime tm ! i) \<noteq> None" "serves hub ty tm i"
  shows "betterGrabCandidate current (tn_tuners tm ! i) (tn_runtime tm ! i) p =
     better current (if serves hub ty tm i \<and> tuner_priority tm i < p
            then Some \<lparr>gc_device = the (rt_device (tn_runtime tm ! i)), gc_tunerName = tc_Name (tn_tuners tm ! i),
                    gc_priority = tuner_priority tm i\<rparr> else None)"
  using assms by (auto simp: betterGrabCandidate_def better_def tuner_priority_def Let_def split: option.splits)

subsection \<open>The loops\<close>

lemma try_loop_busy:
  assumes "\<And>i. i \<in> set is \<Longrightarrow> serves hub ty tm i \<Longrightarrow> i \<in> tn_inUse tm \<and> rt_device (tn_runtime tm ! i) \<noteq> None"
  shows "try_loop hub ty p rq tu is result tm =
     (result\<lparr>aa_found := aa_found result \<or> (\<exists>i\<in>set is. offers ty tm i),
             aa_usable := aa_usable result \<or> (\<exists>i\<in>set is. offers ty tm i \<and> Usable (tn_tuners tm ! i)),
             aa_grab := better (aa_grab result) (victim hub ty p is tm)\<rparr>, tm)"
  using assms
proof (induction "is" arbitrary: result)
  case (Cons i "is")
  note IH = Cons.IH [OF Cons.prems [OF list.set_intros(2)], simplified]
  show ?case
  proof (cases "serves hub ty tm i")
    case True
    then show ?thesis
      using Cons.prems [of i] betterGrab_better [OF _ True, of "aa_grab result" p]
      by (simp add: IH Let_def victim_Cons better_assoc) (auto simp: serves_def offers_def)
  next
    case False
    then show ?thesis
      by (simp add: IH Let_def victim_Cons) (auto simp: serves_def offers_def)
  qed
qed simp

definition reserved :: "string \<Rightarrow> int \<Rightarrow> ChannelConfig option \<Rightarrow> ChannelConfig option \<Rightarrow> SourceKind \<Rightarrow> nat \<Rightarrow> TunerManager \<Rightarrow> TunerManager" where
  "reserved ty p rq tu kind i tm =
     tm\<lparr>tn_inUse := insert i (tn_inUse tm),
        tn_devices := tn_devices tm @ [\<lparr>md_kind = kind, md_tuner = i, md_released = False\<rparr>],
        tn_runtime := (tn_runtime tm)[i := (tn_runtime tm ! i)\<lparr>rt_inUse := True, rt_running := False, rt_stopped := False,
          rt_reservationPriority := p, rt_requested := rq, rt_tuned := tu, rt_device := Some (length (tn_devices tm))\<rparr>],
        tn_nextByType := (tn_nextByType tm)(ty := int (i + 1) mod glen (tn_tuners tm))\<rparr>"

definition decoders_of :: "TunerConfig \<Rightarrow> DecoderCommands" where
  "decoders_of item =
     \<lparr>dc_AgentDecoder = (case tc_Agent item of None \<Rightarrow> False | Some ag \<Rightarrow> at_Decoder ag \<noteq> ''''),
      dc_AgentB61Decoder = (case tc_Agent item of None \<Rightarrow> False | Some ag \<Rightarrow> at_B61Decoder ag \<noteq> ''''),
      dc_Decoder = tc_Decoder item, dc_B61Decoder = tc_B61Decoder item\<rparr>"

lemma try_loop_free:
  assumes "find (\<lambda>i. serves hub ty tm i \<and> i \<notin> tn_inUse tm) is = Some i"
  shows "\<exists>result' kind. NewDevice hub (tn_tuners tm ! i) = Some kind \<and> aa_device result' = Some (length (tn_devices tm)) \<and>
     aa_decoders result' = decoders_of (tn_tuners tm ! i) \<and>
     try_loop hub ty p rq tu is result tm = (result', reserved ty p rq tu kind i tm)"
  using assms
proof (induction "is" arbitrary: result)
  case (Cons j "is")
  show ?case
  proof (cases "serves hub ty tm j \<and> j \<notin> tn_inUse tm")
    case True
    then have i: "i = j" using Cons.prems by simp
    obtain kind where k: "NewDevice hub (tn_tuners tm ! i) = Some kind"
      using serves_device True i by blast
    show ?thesis
      using True i k
      by (simp add: serves_def offers_def reserveLocked_def put_runtime_def reserved_def decoders_of_def Let_def)
  next
    case False
    then have "find (\<lambda>i. serves hub ty tm i \<and> i \<notin> tn_inUse tm) is = Some i" using Cons.prems by auto
    from Cons.IH [OF this] False show ?thesis
      by (auto simp: serves_def offers_def Let_def simp del: Groups_iff)
  qed
qed simp

definition yields :: "hub \<Rightarrow> string \<Rightarrow> int \<Rightarrow> TunerManager \<Rightarrow> nat \<Rightarrow> bool" where
  "yields hub ty p tm i \<longleftrightarrow>
     serves hub ty tm i \<and> (i \<notin> tn_inUse tm \<or> rt_device (tn_runtime tm ! i) \<noteq> None \<and> tuner_priority tm i < p)"

lemma available_loop_Cons:
  "available_loop hub ty p (i # is) found usable tm =
     (if yields hub ty p tm i then None
      else available_loop hub ty p is (found \<or> offers ty tm i) (usable \<or> offers ty tm i \<and> Usable (tn_tuners tm ! i)) tm)"
  by (auto simp: Let_def yields_def serves_def offers_def tuner_priority_def)

lemma available_loop_eq:
  "available_loop hub ty p is found usable tm =
     (if \<exists>i\<in>set is. yields hub ty p tm i then None
      else if \<not> (found \<or> (\<exists>i\<in>set is. offers ty tm i)) then Some ErrTunerNotFound
      else if \<not> (usable \<or> (\<exists>i\<in>set is. offers ty tm i \<and> Usable (tn_tuners tm ! i))) then Some ErrUnsupportedTuner
      else Some ErrTunerUnavailable)"
  by (induction "is" arbitrary: found usable) (simp_all add: available_loop_Cons del: available_loop.simps(2))

lemma rotate_index:
  fixes i n s :: nat
  assumes "i < n"
  shows "\<exists>k<n. (s + k) mod n = i"
proof (intro exI conjI)
  let ?k = "(i + (n - s mod n)) mod n"
  show "?k < n" using assms by simp
  have "s mod n < n" using assms by simp
  then have "s mod n + (i + (n - s mod n)) = i + n" by linarith
  then have "(s mod n + (i + (n - s mod n))) mod n = i" using assms by simp
  then show "(s + ?k) mod n = i" by (simp add: mod_simps)
qed

lemma rotation_set:
  assumes "0 \<le> tn_nextByType tm ty"
  shows "set (rotation ty tm) = {..<length (tn_tuners tm)}"
proof -
  let ?n = "length (tn_tuners tm)" and ?s = "nat (tn_nextByType tm ty)"
  have "rotation ty tm = map (\<lambda>k. (?s + k) mod ?n) [0..<?n]"
    using assms by (auto simp: rotation_def nat_mod_distrib nat_add_distrib)
  moreover have "(\<lambda>k. (s + k) mod n) ` {0..<n} = {..<n}" for s n :: nat
    using rotate_index [of _ n s] by force
  ultimately show ?thesis by simp
qed

subsection \<open>The invariant\<close>

definition users_ok :: "(string \<times> trackedUser) list \<Rightarrow> bool" where
  "users_ok us \<longleftrightarrow>
     distinct (map fst us) \<and> (\<forall>k t. map_of us k = Some t \<longrightarrow> us_ID (tu_user t) = k \<and> k \<noteq> '''' \<and> 1 \<le> tu_refs t)"

definition slot_ok :: "TunerManager \<Rightarrow> nat \<Rightarrow> tunerRuntime \<Rightarrow> bool" where
  "slot_ok tm i r \<longleftrightarrow>
     (case rt_device r of
        None \<Rightarrow> i \<notin> tn_inUse tm
      | Some d \<Rightarrow> i \<in> tn_inUse tm \<and> d < length (tn_devices tm) \<and> md_tuner (tn_devices tm ! d) = i \<and> \<not> md_released (tn_devices tm ! d)) \<and>
     rt_inUse r = (i \<in> tn_inUse tm) \<and> (rt_running r \<or> rt_stopped r \<or> rt_fault r \<longrightarrow> i \<in> tn_inUse tm) \<and> users_ok (rt_users r)"

definition tuner_inv :: "TunerConfig list \<Rightarrow> TunerManager \<Rightarrow> bool" where
  "tuner_inv cfg tm \<longleftrightarrow>
     tn_tuners tm = cfg \<and> length (tn_runtime tm) = length cfg \<and> tn_inUse tm \<subseteq> {..<length cfg} \<and> (\<forall>ty. 0 \<le> tn_nextByType tm ty) \<and>
     (\<forall>i<length cfg. slot_ok tm i (tn_runtime tm ! i)) \<and>
     (\<forall>d<length (tn_devices tm). md_tuner (tn_devices tm ! d) < length cfg \<and>
        (md_released (tn_devices tm ! d) \<or> rt_device (tn_runtime tm ! md_tuner (tn_devices tm ! d)) = Some d))"

lemma users_ok_Nil [simp]: "users_ok []"
  by (simp add: users_ok_def)

lemma users_ok_update:
  "users_ok us \<Longrightarrow> us_ID (tu_user t) = k \<Longrightarrow> k \<noteq> '''' \<Longrightarrow> 1 \<le> tu_refs t \<Longrightarrow> users_ok (AList.update k t us)"
  by (simp add: users_ok_def update_conv distinct_update)

lemma users_ok_delete: "users_ok us \<Longrightarrow> users_ok (AList.delete k us)"
  by (auto simp: users_ok_def delete_conv distinct_delete split: if_splits)

lemma users_okD: "users_ok us \<Longrightarrow> map_of us k = Some t \<Longrightarrow> us_ID (tu_user t) = k \<and> k \<noteq> '''' \<and> 1 \<le> tu_refs t"
  by (simp add: users_ok_def)

lemma inv_NewTunerManager: "tuner_inv cfg (NewTunerManager cfg)"
  by (simp add: tuner_inv_def NewTunerManager_def slot_ok_def new_runtime_def)

lemma inv_put_runtime:
  assumes "tuner_inv cfg tm" "i < length cfg" "rt_device r = rt_device (tn_runtime tm ! i)"
    "rt_inUse r = rt_inUse (tn_runtime tm ! i)" 
    "rt_running r \<or> rt_stopped r \<or> rt_fault r \<longrightarrow>
       rt_running (tn_runtime tm ! i) \<or> rt_stopped (tn_runtime tm ! i) \<or> rt_fault (tn_runtime tm ! i) \<or> rt_inUse r" "users_ok (rt_users r)"
  shows "tuner_inv cfg (put_runtime i r tm)"
proof -
  have dev: "rt_device ((tn_runtime tm)[i := r] ! j) = rt_device (tn_runtime tm ! j)" for j
    using assms(1-3) by (cases "j = i") (simp_all add: tuner_inv_def)
  have "slot_ok tm i (tn_runtime tm ! i)" using assms(1,2) by (simp add: tuner_inv_def)
  then have "slot_ok tm i r" using assms(3-6) by (auto simp: slot_ok_def)
  then have "slot_ok tm j ((tn_runtime tm)[i := r] ! j)" if "j < length cfg" for j
    using assms(1) that by (cases "j = i") (simp_all add: tuner_inv_def)
  moreover have "slot_ok (put_runtime i r tm) j r' = slot_ok tm j r'" for j r'
    by (simp add: slot_ok_def put_runtime_def split: option.split)
  ultimately show ?thesis using assms(1) dev by (simp add: tuner_inv_def) (simp add: put_runtime_def)
qed

lemma inv_users: "tuner_inv cfg tm \<Longrightarrow> i < length cfg \<Longrightarrow> users_ok (rt_users (tn_runtime tm ! i))"
  by (simp add: tuner_inv_def slot_ok_def)

lemma inv_updateRuntime:
  assumes "tuner_inv cfg tm" "i < length cfg"
    "\<And>r. rt_device (f r) = rt_device r \<and> rt_inUse (f r) = rt_inUse r \<and> rt_users (f r) = rt_users r"
  shows "tuner_inv cfg (updateRuntime f i d tm)"
  using assms inv_put_runtime [OF assms(1,2)] inv_users [OF assms(1,2)] by (simp add: updateRuntime_def Let_def)

lemma inv_marks:
  assumes "tuner_inv cfg tm" "i < length cfg"
  shows "tuner_inv cfg (markRunning i d tm)" "tuner_inv cfg (markStopped i d tm)" "tuner_inv cfg (markFault i d tm)"
  by (simp_all add: markRunning_def markStopped_def markFault_def inv_updateRuntime [OF assms])

lemma inv_addUser:
  assumes "tuner_inv cfg tm" "i < length cfg" shows "tuner_inv cfg (addUser i u tm)"
proof (cases "map_of (rt_users (tn_runtime tm ! i)) (us_ID u)")
  case None
  then show ?thesis using assms inv_users [OF assms]
    by (auto simp: addUser_def Let_def intro!: inv_put_runtime users_ok_update)
next
  case (Some t)
  then show ?thesis using assms inv_users [OF assms] users_okD [OF inv_users [OF assms] Some]
    by (auto simp: addUser_def Let_def intro!: inv_put_runtime users_ok_update)
qed

lemma inv_removeUser:
  assumes "tuner_inv cfg tm" "i < length cfg" shows "tuner_inv cfg (removeUser i k tm)"
proof (cases "map_of (rt_users (tn_runtime tm ! i)) k")
  case None
  then show ?thesis using assms by (simp add: removeUser_def Let_def)
next
  case (Some t)
  then show ?thesis using assms inv_users [OF assms] users_okD [OF inv_users [OF assms] Some]
    by (auto simp: removeUser_def Let_def intro!: inv_put_runtime users_ok_update users_ok_delete)
qed

lemma inv_updateUserStreamInfo:
  assumes "tuner_inv cfg tm" "i < length cfg" shows "tuner_inv cfg (updateUserStreamInfo i k key info tm)"
proof (cases "map_of (rt_users (tn_runtime tm ! i)) k")
  case None
  then show ?thesis using assms by (simp add: updateUserStreamInfo_def Let_def)
next
  case (Some t)
  then show ?thesis using assms inv_users [OF assms] users_okD [OF inv_users [OF assms] Some]
    by (auto simp: updateUserStreamInfo_def Let_def intro!: inv_put_runtime users_ok_update)
qed

lemma inv_reserved:
  assumes inv: "tuner_inv cfg tm" and i: "i < length cfg" "i \<notin> tn_inUse tm"
  shows "tuner_inv cfg (reserved ty p rq tu kind i tm)"
proof -
  let ?tm = "reserved ty p rq tu kind i tm" and ?n = "length (tn_devices tm)"
  have slot: "slot_ok tm j (tn_runtime tm ! j)" if "j < length cfg" for j using inv that by (simp add: tuner_inv_def)
  have "slot_ok ?tm j (tn_runtime ?tm ! j)" if "j < length cfg" for j
    using slot [OF that] slot [OF i(1)] i inv that
    by (cases "j = i") (auto simp: slot_ok_def reserved_def nth_append tuner_inv_def split: option.splits)
  moreover have "md_tuner (tn_devices ?tm ! d) < length cfg \<and>
      (md_released (tn_devices ?tm ! d) \<or> rt_device (tn_runtime ?tm ! md_tuner (tn_devices ?tm ! d)) = Some d)"
    if "d < length (tn_devices ?tm)" for d
  proof (cases "d = ?n")
    case True
    then show ?thesis using i inv by (simp add: reserved_def tuner_inv_def)
  next
    case False
    then have d: "d < ?n" using that by (simp add: reserved_def)
    then have old: "md_tuner (tn_devices tm ! d) < length cfg \<and>
      (md_released (tn_devices tm ! d) \<or> rt_device (tn_runtime tm ! md_tuner (tn_devices tm ! d)) = Some d)"
      using inv by (simp add: tuner_inv_def)
    have "rt_device (tn_runtime tm ! i) = None" using slot [OF i(1)] i(2) by (auto simp: slot_ok_def split: option.splits)
    then show ?thesis using old d by (cases "md_tuner (tn_devices tm ! d) = i") (auto simp: reserved_def nth_append)
  qed
  moreover have "0 \<le> tn_nextByType ?tm c" for c
    using inv i by (simp add: tuner_inv_def reserved_def) (metis length_pos_if_in_set nth_mem of_nat_0_less_iff pos_mod_sign)
  moreover have "tn_tuners ?tm = cfg" "length (tn_runtime ?tm) = length cfg" "tn_inUse ?tm \<subseteq> {..<length cfg}"
    using inv i by (simp_all add: tuner_inv_def reserved_def)
  ultimately show ?thesis by (simp add: tuner_inv_def)
qed

definition released :: "nat \<Rightarrow> TunerManager \<Rightarrow> TunerManager" where
  "released d tm =
     (let i = md_tuner (tn_devices tm ! d)
      in tm\<lparr>tn_devices := (tn_devices tm)[d := (tn_devices tm ! d)\<lparr>md_released := True\<rparr>],
            tn_inUse := tn_inUse tm - {i}, tn_runtime := (tn_runtime tm)[i := new_runtime], tn_changed := tn_changed tm + 1\<rparr>)"

lemma inv_slot: "tuner_inv cfg tm \<Longrightarrow> i < length cfg \<Longrightarrow> slot_ok tm i (tn_runtime tm ! i)"
  by (simp add: tuner_inv_def)

lemma inv_device: "tuner_inv cfg tm \<Longrightarrow> d < length (tn_devices tm) \<Longrightarrow> md_tuner (tn_devices tm ! d) < length cfg"
  by (simp add: tuner_inv_def)

lemma inv_live:
  "tuner_inv cfg tm \<Longrightarrow> d < length (tn_devices tm) \<Longrightarrow> \<not> md_released (tn_devices tm ! d) \<Longrightarrow>
   rt_device (tn_runtime tm ! md_tuner (tn_devices tm ! d)) = Some d"
  unfolding tuner_inv_def by blast

lemma releaseOnce_eq:
  assumes "tuner_inv cfg tm" "d < length (tn_devices tm)"
  shows "releaseOnce d tm = (if md_released (tn_devices tm ! d) then tm else released d tm)"
proof -
  have "md_tuner (tn_devices tm ! d) \<in> tn_inUse tm" if "\<not> md_released (tn_devices tm ! d)"
    using inv_slot [OF assms(1) inv_device [OF assms]] inv_live [OF assms that] by (simp add: slot_ok_def)
  then show ?thesis
    by (simp add: releaseOnce_def released_def release_def resetReservation_def notifyChangedLocked_def put_runtime_def Let_def)
qed

lemma inv_released:
  assumes inv: "tuner_inv cfg tm" and d: "d < length (tn_devices tm)" "\<not> md_released (tn_devices tm ! d)"
  shows "tuner_inv cfg (released d tm)"
proof -
  let ?i = "md_tuner (tn_devices tm ! d)" and ?tm = "released d tm"
  note cur = inv_device [OF inv d(1)] inv_live [OF inv d] and slot = inv_slot [OF inv]
  have "slot_ok ?tm j (tn_runtime ?tm ! j)" if "j < length cfg" for j
  proof (cases "j = ?i")
    case True
    then show ?thesis using inv cur by (simp add: slot_ok_def released_def Let_def new_runtime_def tuner_inv_def)
  next
    case False
    then have "rt_device (tn_runtime tm ! j) \<noteq> Some d" using slot [OF that] by (auto simp: slot_ok_def)
    then show ?thesis using False slot [OF that]
      by (auto simp: slot_ok_def released_def Let_def nth_list_update split: option.splits)
  qed
  moreover have "md_tuner (tn_devices ?tm ! e) < length cfg \<and>
      (md_released (tn_devices ?tm ! e) \<or> rt_device (tn_runtime ?tm ! md_tuner (tn_devices ?tm ! e)) = Some e)"
    if "e < length (tn_devices ?tm)" for e
  proof (cases "e = d")
    case True
    then show ?thesis using cur d by (simp add: released_def Let_def)
  next
    case False
    then have "md_tuner (tn_devices tm ! e) < length cfg \<and>
      (md_released (tn_devices tm ! e) \<or> rt_device (tn_runtime tm ! md_tuner (tn_devices tm ! e)) = Some e)"
      using inv that by (simp add: tuner_inv_def released_def Let_def)
    then show ?thesis using False cur
      by (cases "md_tuner (tn_devices tm ! e) = ?i") (auto simp: released_def Let_def)
  qed
  moreover have "tn_tuners ?tm = cfg" "length (tn_runtime ?tm) = length cfg" "tn_inUse ?tm \<subseteq> {..<length cfg}"
      "0 \<le> tn_nextByType ?tm c" for c
    using inv by (auto simp: tuner_inv_def released_def Let_def)
  ultimately show ?thesis by (simp add: tuner_inv_def)
qed

lemma inv_releaseOnce: "tuner_inv cfg tm \<Longrightarrow> d < length (tn_devices tm) \<Longrightarrow> tuner_inv cfg (releaseOnce d tm)"
  by (simp add: releaseOnce_eq inv_released)

end
