(* ===== verification/TunerReach.thy ===== *)
theory TunerReach
  imports TunerCorrect
begin

section \<open>The tuner manager in every reachable state\<close>

text \<open>
  The critical sections of the manager as a reachability relation, \<open>AcquireDevice\<close> against a
  specification that names the tuner it takes, and \<open>CheckAvailable\<close> against \<open>AcquireDevice\<close>. Between
  any two critical sections other callers may run theirs, and the hub may answer differently at
  every one.
\<close>

subsection \<open>One attempt\<close>

definition free_tuner :: "hub \<Rightarrow> string \<Rightarrow> TunerManager \<Rightarrow> nat option" where
  "free_tuner hub ty tm = find (\<lambda>i. serves hub ty tm i \<and> i \<notin> tn_inUse tm) (rotation ty tm)"

lemma inv_rotation: "tuner_inv cfg tm \<Longrightarrow> set (rotation ty tm) = {..<length cfg}"
  by (simp add: rotation_set tuner_inv_def)

lemma inv_busy:
  assumes "tuner_inv cfg tm" "i < length cfg" "i \<in> tn_inUse tm"
  obtains d where "rt_device (tn_runtime tm ! i) = Some d" "d < length (tn_devices tm)"
    "md_tuner (tn_devices tm ! d) = i" "\<not> md_released (tn_devices tm ! d)"
  using inv_slot [OF assms(1,2)] assms(3) by (auto simp: slot_ok_def split: option.splits)

lemma free_tuner_SomeD:
  assumes "tuner_inv cfg tm" "free_tuner hub ty tm = Some i"
  shows "i < length cfg \<and> serves hub ty tm i \<and> i \<notin> tn_inUse tm"
  using assms inv_rotation [OF assms(1), of ty]
  by (auto simp: free_tuner_def find_Some_iff)

lemma free_tuner_None:
  "tuner_inv cfg tm \<Longrightarrow> free_tuner hub ty tm = None \<longleftrightarrow> (\<forall>i<length cfg. serves hub ty tm i \<longrightarrow> i \<in> tn_inUse tm)"
  by (auto simp: free_tuner_def find_None_iff inv_rotation)

lemma tryAcquire_free:
  assumes "free_tuner hub ty tm = Some i"
  shows "\<exists>result. aa_device result = Some (length (tn_devices tm)) \<and> aa_decoders result = decoders_of (tn_tuners tm ! i) \<and>
     tryAcquireLocked hub ty p rq tu tm = (result, reserved ty p rq tu (the (NewDevice hub (tn_tuners tm ! i))) i tm)"
  using try_loop_free [OF assms [unfolded free_tuner_def], of p rq tu "no_attempt tm"]
  by (auto simp: tryAcquireLocked_def)

lemma tryAcquire_busy:
  assumes inv: "tuner_inv cfg tm" and "free_tuner hub ty tm = None"
  shows "tryAcquireLocked hub ty p rq tu tm =
     ((no_attempt tm)\<lparr>aa_found := \<exists>i<length cfg. offers ty tm i,
        aa_usable := \<exists>i<length cfg. offers ty tm i \<and> Usable (cfg ! i),
        aa_grab := victim hub ty p (rotation ty tm) tm\<rparr>, tm)"
proof -
  have "i \<in> tn_inUse tm \<and> rt_device (tn_runtime tm ! i) \<noteq> None" if "i \<in> set (rotation ty tm)" "serves hub ty tm i" for i
    using assms that inv_busy [OF inv, of i] by (auto simp: free_tuner_None inv_rotation [OF inv])
  then have "tryAcquireLocked hub ty p rq tu tm =
     ((no_attempt tm)\<lparr>aa_found := aa_found (no_attempt tm) \<or> (\<exists>i\<in>set (rotation ty tm). offers ty tm i),
        aa_usable := aa_usable (no_attempt tm) \<or> (\<exists>i\<in>set (rotation ty tm). offers ty tm i \<and> Usable (tn_tuners tm ! i)),
        aa_grab := better (aa_grab (no_attempt tm)) (victim hub ty p (rotation ty tm) tm)\<rparr>, tm)"
    unfolding tryAcquireLocked_def by (rule try_loop_busy)
  moreover have "tn_tuners tm = cfg" using inv by (simp add: tuner_inv_def)
  ultimately show ?thesis by (simp add: inv_rotation [OF inv] no_attempt_def Bex_def)
qed

lemma inv_tryAcquire: "tuner_inv cfg tm \<Longrightarrow> tuner_inv cfg (snd (tryAcquireLocked hub ty p rq tu tm))"
  using tryAcquire_free [of hub ty tm _ p rq tu] tryAcquire_busy [of cfg tm hub ty p rq tu]
    free_tuner_SomeD [of cfg tm hub ty] inv_reserved [of cfg tm]
  by (cases "free_tuner hub ty tm") fastforce+

lemma victim_SomeD:
  assumes "tuner_inv cfg tm" "free_tuner hub ty tm = None" "victim hub ty p (rotation ty tm) tm = Some c"
  shows "\<exists>i d. i < length cfg \<and> serves hub ty tm i \<and> rt_device (tn_runtime tm ! i) = Some d \<and> gc_device c = d \<and>
     d < length (tn_devices tm) \<and> md_tuner (tn_devices tm ! d) = i \<and> \<not> md_released (tn_devices tm ! d) \<and> tuner_priority tm i < p"
proof -
  let ?xs = "filter (\<lambda>i. serves hub ty tm i \<and> tuner_priority tm i < p) (rotation ty tm)"
  obtain i ys where s: "sort_key (tuner_priority tm) ?xs = i # ys"
    and c: "gc_device c = the (rt_device (tn_runtime tm ! i))"
    using assms(3) by (auto simp: victim_def split: list.splits)
  have "i \<in> set (sort_key (tuner_priority tm) ?xs)" unfolding s by simp
  then have i: "i < length cfg" "serves hub ty tm i" "tuner_priority tm i < p" using inv_rotation [OF assms(1)] by auto
  then have "i \<in> tn_inUse tm" using assms(1,2) free_tuner_None by blast
  then show ?thesis using i c inv_busy [OF assms(1) i(1)] by (metis option.sel)
qed

lemma victim_None:
  assumes "tuner_inv cfg tm"
  shows "victim hub ty p (rotation ty tm) tm = None \<longleftrightarrow> (\<forall>i<length cfg. serves hub ty tm i \<longrightarrow> p \<le> tuner_priority tm i)"
proof -
  have "victim hub ty p (rotation ty tm) tm = None \<longleftrightarrow>
      filter (\<lambda>i. serves hub ty tm i \<and> tuner_priority tm i < p) (rotation ty tm) = []"
    by (auto simp: victim_def split: list.splits) (metis set_empty set_sort)+
  then show ?thesis using inv_rotation [OF assms, of ty] by (auto simp: filter_empty_conv not_less)
qed

subsection \<open>The whole call\<close>

text \<open>What \<open>AcquireDevice\<close> should do: reserve the first free tuner of the rotation; otherwise stop the
  device of least priority below the request and reserve its tuner; otherwise say why there is none,
  or wait.\<close>

definition acquire_spec ::
  "hub \<Rightarrow> (nat \<Rightarrow> string option) \<Rightarrow> string \<Rightarrow> int \<Rightarrow> ChannelConfig option \<Rightarrow> ChannelConfig option \<Rightarrow> bool \<Rightarrow> TunerManager \<Rightarrow>
   (tuner_error + nat \<times> DecoderCommands) option \<times> TunerManager" where
  "acquire_spec hub stop ty p rq tu wait tm =
     (let cfg = tn_tuners tm;
          take = (\<lambda>i tm. (Some (Inr (length (tn_devices tm), decoders_of (cfg ! i))),
                          reserved ty p rq tu (the (NewDevice hub (cfg ! i))) i tm))
      in case free_tuner hub ty tm of
           Some i \<Rightarrow> take i tm
         | None \<Rightarrow>
             (case victim hub ty p (rotation ty tm) tm of
                Some c \<Rightarrow>
                  (case stop (gc_device c) of
                     Some e \<Rightarrow> (Some (Inl (ErrDevice e)), released (gc_device c) tm)
                   | None \<Rightarrow> take (md_tuner (tn_devices tm ! gc_device c)) (released (gc_device c) tm))
              | None \<Rightarrow>
                  (if \<not> (\<exists>i<length cfg. offers ty tm i) then Some (Inl ErrTunerNotFound)
                   else if \<not> (\<exists>i<length cfg. offers ty tm i \<and> Usable (cfg ! i)) then Some (Inl ErrUnsupportedTuner)
                   else if wait then None else Some (Inl ErrTunerUnavailable), tm)))"

lemma released_simps [simp]:
  "tn_tuners (released d tm) = tn_tuners tm" "tn_nextByType (released d tm) = tn_nextByType tm"
  "tn_changed (released d tm) = tn_changed tm + 1" "length (tn_devices (released d tm)) = length (tn_devices tm)"
  "tn_inUse (released d tm) = tn_inUse tm - {md_tuner (tn_devices tm ! d)}"
  by (simp_all add: released_def Let_def)

lemma free_tuner_released:
  assumes inv: "tuner_inv cfg tm" and none: "free_tuner hub ty tm = None"
    and d: "d < length (tn_devices tm)" and s: "serves hub ty tm (md_tuner (tn_devices tm ! d))"
  shows "free_tuner hub ty (released d tm) = Some (md_tuner (tn_devices tm ! d))"
proof -
  let ?i = "md_tuner (tn_devices tm ! d)" and ?tm = "released d tm"
  have i: "?i < length cfg" and len: "length (tn_runtime tm) = length cfg"
    using inv_device [OF inv d] inv by (simp_all add: tuner_inv_def)
  have iff: "serves hub ty ?tm j \<longleftrightarrow> serves hub ty tm j" if "j \<noteq> ?i" for j
    using that by (simp add: serves_def offers_def released_def Let_def)
  have self: "serves hub ty ?tm ?i"
    using s i len by (simp add: serves_def offers_def released_def Let_def new_runtime_def)
  have rot: "rotation ty ?tm = rotation ty tm" by (simp add: rotation_def)
  have eq: "serves hub ty ?tm j \<and> j \<notin> tn_inUse ?tm \<longleftrightarrow> j = ?i" if "j \<in> set (rotation ty tm)" for j
    using that self iff [of j] none free_tuner_None [OF inv, of hub ty] inv_rotation [OF inv, of ty] by auto
  have "find (\<lambda>j. serves hub ty ?tm j \<and> j \<notin> tn_inUse ?tm) (rotation ty tm) = find (\<lambda>j. j = ?i) (rotation ty tm)"
    by (rule find_cong [OF refl eq])
  also have "\<dots> = Some ?i" using inv_rotation [OF inv, of ty] i by (cases "find (\<lambda>j. j = ?i) (rotation ty tm)") (auto simp: find_None_iff find_Some_iff)
  finally show ?thesis by (simp add: free_tuner_def rot)
qed

lemma AcquireDevice_free:
  assumes "free_tuner hub ty tm = Some i"
  shows "AcquireDevice (Suc n) hub stop ty p rq tu wait tm =
    (Some (Inr (length (tn_devices tm), decoders_of (tn_tuners tm ! i))), reserved ty p rq tu (the (NewDevice hub (tn_tuners tm ! i))) i tm)"
  using tryAcquire_free [OF assms, of p rq tu] by auto

lemma serves_offers: "serves hub ty tm i \<Longrightarrow> offers ty tm i \<and> Usable (tn_tuners tm ! i)"
  by (simp add: serves_def)

lemma AcquireDevice_spec:
  assumes inv: "tuner_inv cfg tm"
  shows "AcquireDevice (Suc (Suc n)) hub stop ty p rq tu wait tm = acquire_spec hub stop ty p rq tu wait tm"
proof (cases "free_tuner hub ty tm")
  case None
  note att = tryAcquire_busy [OF inv None, of p rq tu]
  have cfg: "tn_tuners tm = cfg" using inv by (simp add: tuner_inv_def)
  show ?thesis
  proof (cases "victim hub ty p (rotation ty tm) tm")
    case v: None
    then show ?thesis using None att cfg by (simp add: acquire_spec_def Let_def no_attempt_def)
  next
    case (Some c)
    then obtain i where i: "i < length cfg" "serves hub ty tm i" and c: "gc_device c < length (tn_devices tm)"
        "md_tuner (tn_devices tm ! gc_device c) = i" "\<not> md_released (tn_devices tm ! gc_device c)"
      using victim_SomeD [OF inv None Some] by blast
    have "\<exists>i<length cfg. offers ty tm i" "\<exists>i<length cfg. offers ty tm i \<and> Usable (cfg ! i)"
      using i serves_offers [OF i(2)] cfg by auto
    moreover have "free_tuner hub ty (released (gc_device c) tm) = Some i"
      using free_tuner_released [OF inv None c(1)] i c by simp
    ultimately show ?thesis
      using None Some att cfg c releaseOnce_eq [OF inv c(1)] AcquireDevice_free [of hub ty "released (gc_device c) tm" i n stop p rq tu wait]
      by (simp add: acquire_spec_def Let_def no_attempt_def device_Stop_def del: AcquireDevice.simps(2) split: option.split)
        (simp add: device_Stop_def split: option.split)
  qed
qed (simp add: AcquireDevice_free acquire_spec_def Let_def del: AcquireDevice.simps)

subsection \<open>Reachable states\<close>

text \<open>One rule for each critical section; \<open>Start\<close>, \<open>Stop\<close>, \<open>KillProcess\<close> and \<open>AcquireDevice\<close> are
  sequences of them.\<close>

inductive tuner_reachable :: "TunerConfig list \<Rightarrow> TunerManager \<Rightarrow> bool" for cfg where
  init: "tuner_reachable cfg (NewTunerManager cfg)"
| attempt: "tuner_reachable cfg tm \<Longrightarrow> tuner_reachable cfg (snd (tryAcquireLocked hub ty p rq tu tm))"
| running: "tuner_reachable cfg tm \<Longrightarrow> d < length (tn_devices tm) \<Longrightarrow> tuner_reachable cfg (markRunning (md_tuner (tn_devices tm ! d)) d tm)"
| stopped: "tuner_reachable cfg tm \<Longrightarrow> d < length (tn_devices tm) \<Longrightarrow> tuner_reachable cfg (markStopped (md_tuner (tn_devices tm ! d)) d tm)"
| fault: "tuner_reachable cfg tm \<Longrightarrow> d < length (tn_devices tm) \<Longrightarrow> tuner_reachable cfg (markFault (md_tuner (tn_devices tm ! d)) d tm)"
| release: "tuner_reachable cfg tm \<Longrightarrow> d < length (tn_devices tm) \<Longrightarrow> tuner_reachable cfg (releaseOnce d tm)"
| add_user: "tuner_reachable cfg tm \<Longrightarrow> d < length (tn_devices tm) \<Longrightarrow> tuner_reachable cfg (addUser (md_tuner (tn_devices tm ! d)) u tm)"
| remove_user: "tuner_reachable cfg tm \<Longrightarrow> d < length (tn_devices tm) \<Longrightarrow> tuner_reachable cfg (removeUser (md_tuner (tn_devices tm ! d)) k tm)"
| stream_info: "tuner_reachable cfg tm \<Longrightarrow> d < length (tn_devices tm) \<Longrightarrow>
    tuner_reachable cfg (updateUserStreamInfo (md_tuner (tn_devices tm ! d)) k key info tm)"

lemma reachable_inv: "tuner_reachable cfg tm \<Longrightarrow> tuner_inv cfg tm"
  by (induction rule: tuner_reachable.induct)
    (simp_all add: inv_NewTunerManager inv_tryAcquire inv_marks inv_releaseOnce inv_addUser inv_removeUser inv_updateUserStreamInfo inv_device)

lemma mark_devices [simp]: "tn_devices (markFault i d tm) = tn_devices tm"
  by (simp add: markFault_def updateRuntime_def put_runtime_def Let_def)

lemma reachable_Start: "tuner_reachable cfg tm \<Longrightarrow> d < length (tn_devices tm) \<Longrightarrow> tuner_reachable cfg (snd (device_Start d err tm))"
  using tuner_reachable.fault [of cfg tm d] tuner_reachable.running [of cfg tm d]
  by (auto simp: device_Start_def Let_def intro: tuner_reachable.release)

lemma reachable_done: "tuner_reachable cfg tm \<Longrightarrow> d < length (tn_devices tm) \<Longrightarrow> tuner_reachable cfg (device_done d err tm)"
  by (simp add: device_done_def Let_def tuner_reachable.fault tuner_reachable.stopped)

lemma reachable_Stop: "tuner_reachable cfg tm \<Longrightarrow> d < length (tn_devices tm) \<Longrightarrow> tuner_reachable cfg (snd (device_Stop d err tm))"
  by (simp add: device_Stop_def tuner_reachable.release)

lemma reachable_KillProcess:
  assumes r: "tuner_reachable cfg tm"
  shows "tuner_reachable cfg (snd (KillProcess index stop tm))"
proof (cases "index < 0 \<or> glen (tn_tuners tm) \<le> index")
  case False
  note inv = reachable_inv [OF r]
  have i: "nat index < length cfg" using False inv by (auto simp: tuner_inv_def)
  show ?thesis
    using False r inv_slot [OF inv i] tuner_reachable.release [OF r]
    by (auto simp: KillProcess_def slot_ok_def device_Stop_def split: option.split)
qed (simp add: KillProcess_def r)

lemma reachable_AcquireDevice: "tuner_reachable cfg tm \<Longrightarrow> tuner_reachable cfg (snd (AcquireDevice n hub stop ty p rq tu wait tm))"
proof (induction n arbitrary: tm)
  case (Suc n)
  note inv = reachable_inv [OF Suc.prems]
  show ?case
  proof (cases "free_tuner hub ty tm")
    case None
    note att = tryAcquire_busy [OF inv None, of p rq tu]
    show ?thesis
    proof (cases "victim hub ty p (rotation ty tm) tm")
      case (Some c)
      have "gc_device c < length (tn_devices tm)" using victim_SomeD [OF inv None Some] by blast
      then have "tuner_reachable cfg (releaseOnce (gc_device c) tm)" using Suc.prems by (rule tuner_reachable.release [rotated])
      then show ?thesis using Suc.IH [of "releaseOnce (gc_device c) tm"] Suc.prems att Some
        by (auto simp: device_Stop_def split: option.split)
    qed (use Suc.prems att in \<open>simp add: no_attempt_def\<close>)
  next
    case (Some i)
    then show ?thesis using tuner_reachable.attempt [OF Suc.prems, of hub ty p rq tu] tryAcquire_free [OF Some, of p rq tu] by auto
  qed
qed simp

subsection \<open>Properties\<close>

text \<open>Two satellite tuners, one of them on an agent, and one terrestrial tuner that is disabled.\<close>

definition demo_tuner :: "string \<Rightarrow> string \<Rightarrow> TunerConfig" where
  "demo_tuner name ty =
     \<lparr>tc_Name = name, tc_Agent = None, tc_Types = [ty], tc_Command = ''rec'', tc_DvbDevicePath = '''', tc_Decoder = ''b25'',
      tc_B61Decoder = '''', tc_IsDisabled = False\<rparr>"

definition demo_tuners :: "TunerConfig list" where
  "demo_tuners =
     [demo_tuner ''S0'' ''BS'',
      (demo_tuner ''S1'' ''BS'')\<lparr>tc_Agent := Some \<lparr>at_Name = ''box'', at_Command = ''rec'', at_DvbDevicePath = '''', at_Decoder = ''b25'', at_B61Decoder = ''''\<rparr>\<rparr>,
      (demo_tuner ''T0'' ''GR'')\<lparr>tc_IsDisabled := True\<rparr>]"

definition demo_hub :: hub where
  "demo_hub = Some \<lparr>hb_closed = False, hb_connections = [''box'' \<mapsto> True], hb_quarantined = {}\<rparr>"

definition demo_user :: User where
  "demo_user = \<lparr>us_ID = ''u'', us_Priority = 4, us_Agent = '''', us_URL = '''', us_DisableDecoder = False,
     us_StreamSetting = \<lparr>st_Channel = None, st_NetworkID = None, st_ServiceID = None, st_EventID = None, st_NoProvide = None,
       st_ParseNIT = None, st_ParseSDT = None, st_ParseEIT = None\<rparr>, us_StreamInfo = None\<rparr>"

definition acquire_BS :: "int \<Rightarrow> TunerManager \<Rightarrow> TunerManager" where
  "acquire_BS p tm = snd (tryAcquireLocked demo_hub ''BS'' p None None tm)"

text \<open>Both satellite tuners are reserved, the first one is used at priority 4.\<close>

definition both_busy :: TunerManager where
  "both_busy = addUser 0 demo_user (acquire_BS 2 (acquire_BS 1 (NewTunerManager demo_tuners)))"

lemma reach_acquire_BS: "tuner_reachable cfg tm \<Longrightarrow> tuner_reachable cfg (acquire_BS p tm)"
  unfolding acquire_BS_def by (rule tuner_reachable.attempt)

lemma reach_both_busy: "tuner_reachable demo_tuners both_busy"
proof -
  let ?tm = "acquire_BS 2 (acquire_BS 1 (NewTunerManager demo_tuners))"
  have "tuner_reachable demo_tuners ?tm" by (intro reach_acquire_BS tuner_reachable.init)
  moreover have "0 < length (tn_devices ?tm)" "md_tuner (tn_devices ?tm ! 0) = 0" by code_simp+
  ultimately show ?thesis using tuner_reachable.add_user [of demo_tuners ?tm 0 demo_user] by (simp add: both_busy_def)
qed

text \<open>C8. In every reachable state of the tuner manager a device is not yet released exactly if it is
  the device its tuner is reserved for, so no tuner is ever held by two devices; a tuner is in use
  exactly if it has such a device; and a device that has been released, by its owner, by a take-over
  or by an operator, no longer changes the manager when it is started, ends or is stopped, so it
  cannot disturb the next holder of its tuner.\<close>

theorem tuner_exclusive:
  assumes "tuner_reachable cfg tm" "d < length (tn_devices tm)" "i = md_tuner (tn_devices tm ! d)"
  shows "i < length cfg \<and> (\<not> md_released (tn_devices tm ! d) \<longleftrightarrow> rt_device (tn_runtime tm ! i) = Some d) \<and>
     (\<forall>j<length cfg. (j \<in> tn_inUse tm) = (\<exists>e<length (tn_devices tm). md_tuner (tn_devices tm ! e) = j \<and> \<not> md_released (tn_devices tm ! e)) \<and>
        rt_inUse (tn_runtime tm ! j) = (j \<in> tn_inUse tm)) \<and>
     (md_released (tn_devices tm ! d) \<longrightarrow>
        snd (device_Start d err tm) = tm \<and> device_done d err tm = tm \<and> snd (device_Stop d err tm) = tm)"
proof -
  note inv = reachable_inv [OF assms(1)]
  have iff: "\<not> md_released (tn_devices tm ! d) \<longleftrightarrow> rt_device (tn_runtime tm ! i) = Some d"
    using inv_live [OF inv assms(2)] inv_slot [OF inv inv_device [OF inv assms(2)]] assms(3) by (auto simp: slot_ok_def)
  have "(j \<in> tn_inUse tm) = (\<exists>e<length (tn_devices tm). md_tuner (tn_devices tm ! e) = j \<and> \<not> md_released (tn_devices tm ! e)) \<and>
      rt_inUse (tn_runtime tm ! j) = (j \<in> tn_inUse tm)" if j: "j < length cfg" for j
    using inv_slot [OF inv j] inv_busy [OF inv j] inv_live [OF inv]
    by (auto simp: slot_ok_def split: option.splits) (metis option.distinct(1))
  moreover have "snd (device_Start d err tm) = tm \<and> device_done d err tm = tm \<and> snd (device_Stop d err tm) = tm"
    if "md_released (tn_devices tm ! d)"
    using that iff assms(3)
    by (simp add: device_Start_def device_done_def device_Stop_def releaseOnce_def markFault_def markRunning_def markStopped_def
        updateRuntime_def Let_def)
  ultimately show ?thesis using iff inv_device [OF inv assms(2)] assms(3) by blast
qed

theorem tuner_exclusive_witness:
  "tuner_reachable demo_tuners both_busy \<and> \<not> md_released (tn_devices both_busy ! 1) \<and> rt_device (tn_runtime both_busy ! 1) = Some 1"
proof -
  have "(1::nat) < length (tn_devices both_busy)" "1 = md_tuner (tn_devices both_busy ! 1)" "\<not> md_released (tn_devices both_busy ! 1)"
    by code_simp+
  then show ?thesis using tuner_exclusive [OF reach_both_busy, of 1 1] reach_both_busy by blast
qed

text \<open>C9. \<open>AcquireDevice\<close> in any reachable state, not disturbed by other callers, comes to an end
  after at most two rounds unless it has to wait: it reserves the first free tuner of the channel
  type in round-robin order; if all are in use it takes over the one whose reservation and users
  have the least priority, the first such in that order, provided that priority is below the
  request's, and passes on the error if its process cannot be stopped; and otherwise it fails with
  "not found" if no enabled tuner has the type, with "unsupported" if none of them has a source, and
  with "unavailable", or waits, in all other cases. Nothing but the chosen tuner, its device and
  the round-robin position changes.\<close>

theorem acquire_device_outcome:
  assumes "tuner_reachable cfg tm" and "2 \<le> n"
  shows "AcquireDevice n hub stop ty p rq tu wait tm = acquire_spec hub stop ty p rq tu wait tm"
proof -
  obtain k where "n = Suc (Suc k)" using assms(2) by (metis Suc_le_D numeral_2_eq_2 Suc_le_mono)
  then show ?thesis using AcquireDevice_spec [OF reachable_inv [OF assms(1)]] by simp
qed

theorem acquire_device_outcome_witness:
  "fst (AcquireDevice 2 demo_hub (\<lambda>_. None) ''BS'' 3 None None False both_busy) =
     Some (Inr (2, \<lparr>dc_AgentDecoder = True, dc_AgentB61Decoder = False, dc_Decoder = ''b25'', dc_B61Decoder = ''''\<rparr>))"
proof -
  have "fst (acquire_spec demo_hub (\<lambda>_. None) ''BS'' 3 None None False both_busy) =
     Some (Inr (2, \<lparr>dc_AgentDecoder = True, dc_AgentB61Decoder = False, dc_Decoder = ''b25'', dc_B61Decoder = ''''\<rparr>))"
    by code_simp
  then show ?thesis using acquire_device_outcome [OF reach_both_busy order_refl] by simp
qed

text \<open>C16. \<open>CheckAvailable\<close> answers what \<open>AcquireDevice\<close> without waiting would: in every reachable
  state it returns nil exactly if such a call gets a device, provided the process it takes over can
  be stopped, and otherwise the same error as the call, which then leaves the manager as it was.\<close>

theorem check_available_agrees:
  assumes "tuner_reachable cfg tm" and "2 \<le> n"
  shows "fst (AcquireDevice n hub (\<lambda>_. None) ty p rq tu False tm) \<noteq> None \<and>
     CheckAvailable hub ty p tm =
       (case fst (AcquireDevice n hub (\<lambda>_. None) ty p rq tu False tm) of Some (Inl e) \<Rightarrow> Some e | _ \<Rightarrow> None) \<and>
     (\<forall>e. CheckAvailable hub ty p tm = Some e \<longrightarrow> snd (AcquireDevice n hub (\<lambda>_. None) ty p rq tu False tm) = tm)"
proof -
  note inv = reachable_inv [OF assms(1)]
  obtain k where n: "n = Suc (Suc k)" using assms(2) by (metis Suc_le_D numeral_2_eq_2 Suc_le_mono)
  have yields: "(\<exists>i<length cfg. yields hub ty p tm i) \<longleftrightarrow> free_tuner hub ty tm \<noteq> None \<or> victim hub ty p (rotation ty tm) tm \<noteq> None"
    using inv_busy [OF inv] by (auto simp: free_tuner_None [OF inv] victim_None [OF inv] yields_def not_le) blast
  show ?thesis
    unfolding n AcquireDevice_spec [OF inv] CheckAvailable_def available_loop_eq acquire_spec_def
    using yields inv by (auto simp: tuner_inv_def Let_def Bex_def split: option.split)
qed

theorem check_available_agrees_witness:
  "CheckAvailable demo_hub ''BS'' 2 both_busy = Some ErrTunerUnavailable \<and> CheckAvailable demo_hub ''BS'' 3 both_busy = None \<and>
   snd (AcquireDevice 2 demo_hub (\<lambda>_. None) ''BS'' 2 None None False both_busy) = both_busy"
proof -
  have "CheckAvailable demo_hub ''BS'' 2 both_busy = Some ErrTunerUnavailable" "CheckAvailable demo_hub ''BS'' 3 both_busy = None"
    by code_simp+
  then show ?thesis using check_available_agrees [OF reach_both_busy order_refl, of demo_hub "''BS''" 2 None None] by simp
qed

subsection \<open>A user added through a released device\<close>

text \<open>\<open>AddUser\<close> does not check that its device still holds the tuner. A user it adds after the release
  stays on the free tuner: the tuner is not reported free, although nobody holds it, and the next
  reservation of priority 1 is protected like one of priority 4.\<close>

definition stale_user :: TunerManager where
  "stale_user = addUser 0 demo_user (releaseOnce 0 (acquire_BS 1 (NewTunerManager demo_tuners)))"

lemma reach_stale_user: "tuner_reachable demo_tuners stale_user"
proof -
  let ?tm = "acquire_BS 1 (NewTunerManager demo_tuners)"
  have "tuner_reachable demo_tuners (releaseOnce 0 ?tm)"
    by (rule tuner_reachable.release, intro reach_acquire_BS tuner_reachable.init) code_simp
  moreover have "0 < length (tn_devices (releaseOnce 0 ?tm))" "md_tuner (tn_devices (releaseOnce 0 ?tm) ! 0) = 0" by code_simp+
  ultimately show ?thesis using tuner_reachable.add_user [of demo_tuners "releaseOnce 0 ?tm" 0 demo_user] by (simp add: stale_user_def)
qed

lemma stale_user_outlives_reservation:
  "tn_inUse stale_user = {} \<and> \<not> ts_IsFree (statusLocked demo_hub (\<lambda>_. ('''', 0)) 0 stale_user) \<and>
   CheckAvailable demo_hub ''BS'' 3 (acquire_BS 1 (acquire_BS 3 stale_user)) = Some ErrTunerUnavailable"
  by code_simp

end
