(* ===== verification/Tlv.thy ===== *)
theory Tlv
  imports CheckReader
begin

text \<open>
  TLV packets, the container of ISDB-S3 streams: \<open>mmt/tlv.go\<close> (the packet reader) and
  \<open>mmt/detector.go\<close> (the format detector). \<open>bufio.Reader\<close> is the bytes its source will deliver and
  the error that follows them: \<open>Peek\<close> and \<open>Discard\<close> return that error when they need more bytes
  than there are. Its buffer holds the largest packet and one byte more, so \<open>ErrBufferFull\<close>
  cannot occur; a source that returns no bytes a hundred times in a row is left out.
\<close>

definition TLVSyncByte :: byte where "TLVSyncByte = 0x7F"

definition TLVPacketTypeIPv4 :: byte where "TLVPacketTypeIPv4 = 0x01"

definition TLVPacketTypeIPv6 :: byte where "TLVPacketTypeIPv6 = 0x02"

definition TLVPacketTypeCompressedIP :: byte where "TLVPacketTypeCompressedIP = 0x03"

definition tlv_Type :: "bytes \<Rightarrow> 'e fault + byte" where
  "tlv_Type p = idx p 1"

definition tlv_Data :: "bytes \<Rightarrow> 'e fault + bytes" where
  "tlv_Data p = gslice p 4 (glen p)"

subsection \<open>The packet reader\<close>

fun stream_of :: "reader \<Rightarrow> bytes \<times> io_error" where
  "stream_of [] = ([], EOF)"
| "stream_of ((chunk, Some err) # rest) = (chunk, err)"
| "stream_of ((chunk, None) # rest) = (chunk @ fst (stream_of rest), snd (stream_of rest))"

record TLVReader =
  tv_r :: "bytes \<times> io_error"
  tv_synced :: bool

definition NewTLVReader :: "reader \<Rightarrow> TLVReader" where
  "NewTLVReader r = \<lparr>tv_r = stream_of r, tv_synced = False\<rparr>"

definition Peek :: "nat \<Rightarrow> TLVReader \<Rightarrow> io_error + bytes" where
  "Peek n r = (if n \<le> length (fst (tv_r r)) then Inr (take n (fst (tv_r r))) else Inl (snd (tv_r r)))"

definition Discard :: "nat \<Rightarrow> TLVReader \<Rightarrow> TLVReader" where
  "Discard n r = r\<lparr>tv_r := (drop n (fst (tv_r r)), snd (tv_r r))\<rparr>"

lemma Discard_shorter [termination_simp]:
  "Peek n r = Inr b \<Longrightarrow> 0 < k \<Longrightarrow> k \<le> n \<Longrightarrow> length (fst (tv_r (Discard k r))) < length (fst (tv_r r))"
  by (auto simp: Peek_def Discard_def split: if_splits)

text \<open>Without synchronisation a packet is only trusted if the byte after it is a sync byte or the
  stream ends there. The bytes indexed are those \<open>Peek\<close> returned, as many as were asked for.\<close>

definition unchained :: "nat \<Rightarrow> TLVReader \<Rightarrow> bool" where
  "unchained sz r = (case Peek (sz + 1) r of Inr next \<Rightarrow> next ! sz \<noteq> TLVSyncByte | Inl _ \<Rightarrow> False)"

definition chain_error :: "nat \<Rightarrow> TLVReader \<Rightarrow> io_error option" where
  "chain_error sz r = (case Peek (sz + 1) r of Inr _ \<Rightarrow> None | Inl err \<Rightarrow> if err \<noteq> EOF then Some err else None)"

function tlv_Next :: "TLVReader \<Rightarrow> (io_error + bytes) \<times> TLVReader" where
  "tlv_Next r =
     (case Peek 4 r of
        Inl err \<Rightarrow> (Inl err, r)
      | Inr header \<Rightarrow>
          if header ! 0 \<noteq> TLVSyncByte then tlv_Next (Discard 1 (r\<lparr>tv_synced := False\<rparr>))
          else
            let size = 4 + unat (be16 (header ! 2) (header ! 3))
            in if \<not> tv_synced r \<and> unchained size r then tlv_Next (Discard 1 r)
               else if \<not> tv_synced r \<and> chain_error size r \<noteq> None then (Inl (the (chain_error size r)), r)
               else (case Peek size r of
                       Inl err \<Rightarrow> (Inl err, r)
                     | Inr packet \<Rightarrow> (Inr packet, (Discard size r)\<lparr>tv_synced := True\<rparr>)))"
  by pat_completeness auto
termination
  by (relation "measure (\<lambda>r. length (fst (tv_r r)))") (auto simp: Peek_def Discard_def split: if_splits)

declare tlv_Next.simps [simp del]

subsection \<open>The format detector\<close>

function tlv_detect_loop :: "bytes \<Rightarrow> bool \<Rightarrow> int \<Rightarrow> unit fault + detect_result" where
  "tlv_detect_loop buf final i =
     (if i + 4 \<le> glen buf then
        rbind (idx buf i) (\<lambda>b.
          if b \<noteq> TLVSyncByte then tlv_detect_loop buf final (i + 1)
          else
            rbind (be16_at buf (i + 2)) (\<lambda>len.
              let next = i + 4 + uint len
              in rbind (if next < glen buf then rbind (idx buf next) (\<lambda>c. Inr (c = TLVSyncByte)) else Inr False) (\<lambda>chained.
                if chained then Inr Matched
                else if next = glen buf \<and> final then Inr Matched
                else tlv_detect_loop buf final (i + 1))))
      else Inr (if final then Rejected else Undecided))"
  by pat_completeness auto
termination
  by (relation "measure (\<lambda>(buf, final, i). nat (glen buf - i))") auto

declare tlv_detect_loop.simps [simp del]

definition tlv_Detect :: "bytes \<Rightarrow> bool \<Rightarrow> unit fault + detect_result" where
  "tlv_Detect buf final = tlv_detect_loop buf final 0"

definition tlv_Detector :: detector where
  "tlv_Detector = \<lparr>Name = ''tlv'', Detect = tlv_Detect\<rparr>"

text \<open>A TLV packet starts at \<open>i\<close> and another one, or the end of a finished stream, follows it.\<close>

definition tlv_at :: "bytes \<Rightarrow> bool \<Rightarrow> nat \<Rightarrow> bool" where
  "tlv_at buf final i \<longleftrightarrow> i + 4 \<le> length buf \<and> buf ! i = TLVSyncByte \<and>
     (let next = i + 4 + unat (be16 (buf ! (i + 2)) (buf ! (i + 3)))
      in next < length buf \<and> buf ! next = TLVSyncByte \<or> next = length buf \<and> final)"

lemma tlv_detect_step:
  assumes "i + 4 \<le> length buf"
  shows "tlv_detect_loop buf final (int i) =
     (if tlv_at buf final i then Inr Matched else tlv_detect_loop buf final (int (Suc i)))"
proof -
  define w where "w = be16 (buf ! (i + 2)) (buf ! (i + 3))"
  define n where "n = i + 4 + unat w"
  have len: "be16_at buf (int i + 2) = Inr w"
    using assms by (simp add: nat_add_distrib add.commute w_def)
  have nxt: "int i + 4 + uint w = int n" by (simp add: n_def)
  have here: "tlv_at buf final i \<longleftrightarrow>
      buf ! i = TLVSyncByte \<and> (n < length buf \<and> buf ! n = TLVSyncByte \<or> n = length buf \<and> final)"
    using assms by (simp add: tlv_at_def Let_def n_def w_def)
  have suc: "int i + 1 = int (Suc i)" by simp
  show ?thesis
    using assms by (subst tlv_detect_loop.simps) (simp add: len nxt here Let_def suc del: be16_at_ok of_nat_Suc)
qed

lemma tlv_detect_loop_eq:
  "tlv_detect_loop buf final (int i) =
     Inr (if \<exists>j\<ge>i. tlv_at buf final j then Matched else if final then Rejected else Undecided)"
proof (induction "length buf - i" arbitrary: i rule: less_induct)
  case less
  show ?case
  proof (cases "i + 4 \<le> length buf")
    case True
    have "(\<exists>j\<ge>i. tlv_at buf final j) \<longleftrightarrow> tlv_at buf final i \<or> (\<exists>j\<ge>Suc i. tlv_at buf final j)"
      by (metis Suc_leD le_antisym not_less_eq_eq order_refl)
    moreover have "tlv_detect_loop buf final (int (Suc i)) =
        Inr (if \<exists>j\<ge>Suc i. tlv_at buf final j then Matched else if final then Rejected else Undecided)"
      using True by (intro less) simp
    ultimately show ?thesis by (simp add: tlv_detect_step [OF True])
  next
    case False
    then have "\<not> (\<exists>j\<ge>i. tlv_at buf final j)" by (auto simp: tlv_at_def)
    then show ?thesis using False by (subst tlv_detect_loop.simps) auto
  qed
qed

interpretation tlv_fmt: format_detector tlv_Detector
  by unfold_locales (auto simp: tlv_Detector_def tlv_Detect_def tlv_detect_loop_eq [where i = 0, simplified])

subsection \<open>Delivery\<close>

fun tlv_calls :: "nat \<Rightarrow> TLVReader \<Rightarrow> (io_error + bytes) list" where
  "tlv_calls 0 r = []"
| "tlv_calls (Suc n) r = (case tlv_Next r of (result, r') \<Rightarrow> result # tlv_calls n r')"

definition tlv_packet :: "bytes \<Rightarrow> bool" where
  "tlv_packet p \<longleftrightarrow> 4 \<le> length p \<and> p ! 0 = TLVSyncByte \<and> length p = 4 + unat (be16 (p ! 2) (p ! 3))"

text \<open>The start of a packet that was cut off.\<close>

definition cut_packet :: "bytes \<Rightarrow> bool" where
  "cut_packet t \<longleftrightarrow> (\<exists>p n. tlv_packet p \<and> n < length p \<and> t = take n p)"

lemma cut_packet_first: "cut_packet t \<Longrightarrow> t \<noteq> [] \<Longrightarrow> t ! 0 = TLVSyncByte"
  by (auto simp: cut_packet_def tlv_packet_def)

lemma Next_garbage:
  assumes "TLVSyncByte \<notin> set g" "4 \<le> length s" "tv_r r = (g @ s, e)" "\<not> tv_synced r"
  shows "tlv_Next r = tlv_Next (r\<lparr>tv_r := (s, e)\<rparr>)"
  using assms
proof (induction g arbitrary: r)
  case (Cons b g)
  have r: "r\<lparr>tv_synced := False\<rparr> = r" using Cons.prems by (cases r) simp
  have "tlv_Next r = tlv_Next (Discard 1 r)"
    using Cons.prems by (subst tlv_Next.simps) (auto simp: Peek_def r)
  also have "\<dots> = tlv_Next (r\<lparr>tv_r := (s, e)\<rparr>)"
    using Cons.IH [of "Discard 1 r"] Cons.prems by (simp add: Discard_def)
  finally show ?case .
next
  case Nil
  then have "r\<lparr>tv_r := (s, e)\<rparr> = r" by (cases r) simp
  then show ?case by simp
qed

lemma Next_packet:
  assumes p: "tlv_packet p" and r: "tv_r r = (p @ s, EOF)" and s: "s = [] \<or> s ! 0 = TLVSyncByte"
  shows "tlv_Next r = (Inr p, r\<lparr>tv_r := (s, EOF), tv_synced := True\<rparr>)"
proof -
  have "Peek 4 r = Inr (take 4 (p @ s)) \<and> take 4 (p @ s) ! 0 = TLVSyncByte \<and>
      4 + unat (be16 (take 4 (p @ s) ! 2) (take 4 (p @ s) ! 3)) = length p"
    using p r by (auto simp: Peek_def tlv_packet_def nth_append)
  then obtain header where h: "Peek 4 r = Inr header" "header ! 0 = TLVSyncByte"
      "4 + unat (be16 (header ! 2) (header ! 3)) = length p"
    by blast
  have "\<not> unchained (length p) r" "chain_error (length p) r = None"
    using r s by (auto simp: unchained_def chain_error_def Peek_def nth_append split: if_splits)
  moreover have "Peek (length p) r = Inr p" "Discard (length p) r = r\<lparr>tv_r := (s, EOF)\<rparr>"
    using r by (simp_all add: Peek_def Discard_def)
  ultimately show ?thesis using h by (subst tlv_Next.simps) (simp add: Let_def)
qed

lemma Next_cut:
  assumes "cut_packet t" "tv_r r = (t, EOF)"
  shows "tlv_Next r = (Inl EOF, r)"
proof -
  obtain p n where p: "tlv_packet p" "n < length p" "t = take n p" using assms(1) by (auto simp: cut_packet_def)
  then have "4 \<le> length t \<Longrightarrow> Peek 4 r = Inr (take 4 t) \<and> take 4 t ! 0 = TLVSyncByte \<and>
      length t < 4 + unat (be16 (take 4 t ! 2) (take 4 t ! 3))"
    using assms(2) by (auto simp: Peek_def tlv_packet_def)
  then show ?thesis
    using assms(2) by (subst tlv_Next.simps) (auto simp: Peek_def Let_def unchained_def chain_error_def)
qed

lemma tlv_calls_packets:
  assumes "list_all tlv_packet ps" "cut_packet t" "tv_r r = (concat ps @ t, EOF)"
  shows "tlv_calls (length ps + 1) r = map Inr ps @ [Inl EOF]"
  using assms
proof (induction ps arbitrary: r)
  case (Cons p ps)
  have "concat ps @ t = [] \<or> (concat ps @ t) ! 0 = TLVSyncByte"
    using Cons.prems cut_packet_first [of t] by (cases ps) (auto simp: tlv_packet_def nth_append)
  then have "tlv_Next r = (Inr p, r\<lparr>tv_r := (concat ps @ t, EOF), tv_synced := True\<rparr>)"
    using Cons.prems by (intro Next_packet) simp_all
  then show ?case using Cons.IH [of "r\<lparr>tv_r := (concat ps @ t, EOF), tv_synced := True\<rparr>"] Cons.prems by simp
qed (simp add: Next_cut)

text \<open>
  C29. The TLV reader delivers what is sent: however the source cuts the stream into reads, if it
  consists of bytes before the first packet (none of them the sync byte), whole TLV packets of any
  sizes and a last packet that is cut off or missing, successive calls return exactly the whole
  packets in order and then \<open>io.EOF\<close>; the cut packet is dropped.
\<close>

theorem TLVReader_delivers:
  assumes "stream_of r = (g @ concat ps @ t, EOF)" "TLVSyncByte \<notin> set g" "list_all tlv_packet ps" "ps \<noteq> []" "cut_packet t"
  shows "tlv_calls (length ps + 1) (NewTLVReader r) = map Inr ps @ [Inl EOF]"
proof -
  let ?s = "concat ps @ t" and ?r = "NewTLVReader r"
  obtain p qs where "ps = p # qs" using assms(4) by (cases ps) auto
  then have "4 \<le> length ?s" using assms(3) by (simp add: tlv_packet_def)
  then have "tlv_Next ?r = tlv_Next (?r\<lparr>tv_r := (?s, EOF)\<rparr>)"
    using assms(1,2) by (intro Next_garbage [of g]) (simp_all add: NewTLVReader_def)
  then have "tlv_calls (length ps + 1) ?r = tlv_calls (length ps + 1) (?r\<lparr>tv_r := (?s, EOF)\<rparr>)" by simp
  also have "\<dots> = map Inr ps @ [Inl EOF]" using assms by (intro tlv_calls_packets) simp_all
  finally show ?thesis .
qed

definition demo_tlv :: "byte \<Rightarrow> bytes" where
  "demo_tlv b = [0x7F, 0x03, 0x00, 0x03, b, 0x7F, 0x00]"

definition demo_source :: reader where
  "demo_source = [([1, 2, 0x7F, 0x03], None), ([0x00, 0x03, 5, 0x7F, 0x00] @ demo_tlv 6, None), ([0x7F, 0xFE], Some EOF)]"

theorem TLVReader_delivers_witness:
  "tlv_calls 3 (NewTLVReader demo_source) = [Inr (demo_tlv 5), Inr (demo_tlv 6), Inl EOF]"
proof -
  have "cut_packet [0x7F, 0xFE]"
    unfolding cut_packet_def
    by (intro exI [of _ "[0x7F, 0xFE, 0x00, 0x00]"] exI [of _ 2]) (simp add: tlv_packet_def TLVSyncByte_def be16_def)
  moreover have "stream_of demo_source = ([1, 2] @ concat [demo_tlv 5, demo_tlv 6] @ [0x7F, 0xFE], EOF)"
      "TLVSyncByte \<notin> set [1, 2]" "list_all tlv_packet [demo_tlv 5, demo_tlv 6]"
    by code_simp+
  ultimately show ?thesis using TLVReader_delivers [of demo_source "[1, 2]" "[demo_tlv 5, demo_tlv 6]" "[0x7F, 0xFE]"] by (simp add: eval_nat_numeral)
qed

end
