(* ===== verification/Mmtp.thy ===== *)
theory Mmtp
  imports Tlv
begin

text \<open>
  From a TLV packet to MMT-SI messages: \<open>mmt/ip.go\<close> (UDP datagrams in plain and
  header-compressed IP packets), \<open>mmt/flow.go\<close> (the IP data flow a datagram belongs to),
  \<open>mmt/mmtp.go\<close> (MMTP packets and the assembler of messages divided over packets) and
  \<open>mmt/message.go\<close> (messages and the tables of a PA message). A \<open>netip.Addr\<close> is its bytes;
  \<open>NoAddr\<close> is the invalid address.
\<close>

datatype mmt_error = ErrInvalidPacket | ErrNotUDP | ErrInvalidMMTSection

datatype Addr = NoAddr | IPv4 bytes | IPv6 bytes

type_synonym AddrPort = "Addr \<times> uint16"

definition AddrPort_IsValid :: "AddrPort \<Rightarrow> bool" where
  "AddrPort_IsValid a = (fst a \<noteq> NoAddr)"

definition be32 :: "byte \<Rightarrow> byte \<Rightarrow> byte \<Rightarrow> byte \<Rightarrow> uint32" where
  "be32 a b c d = push_bit 24 (ucast a) OR push_bit 16 (ucast b) OR push_bit 8 (ucast c) OR ucast d"

definition be32_at :: "bytes \<Rightarrow> int \<Rightarrow> 'e fault + uint32" where
  "be32_at s i =
     rbind (idx s i) (\<lambda>a. rbind (idx s (i + 1)) (\<lambda>b. rbind (idx s (i + 2)) (\<lambda>c. rbind (idx s (i + 3)) (\<lambda>d.
       Inr (be32 a b c d)))))"

subsection \<open>UDP datagrams\<close>

record UDPPacket =
  up_Compressed :: bool
  up_ContextID :: uint16
  up_SequenceNumber :: byte
  up_Source :: AddrPort
  up_Destination :: AddrPort
  up_Payload :: bytes

definition parseUDP :: "bytes \<Rightarrow> Addr \<Rightarrow> Addr \<Rightarrow> mmt_error fault + UDPPacket" where
  "parseUDP b src dst =
     (if glen b < 8 then Inl (Err ErrInvalidPacket)
      else rbind (be16_at b 4) (\<lambda>len.
        if uint len < 8 \<or> uint len > glen b then Inl (Err ErrInvalidPacket)
        else rbind (be16_at b 0) (\<lambda>sport. rbind (be16_at b 2) (\<lambda>dport. rbind (gslice b 8 (uint len)) (\<lambda>payload.
          Inr \<lparr>up_Compressed = False, up_ContextID = 0, up_SequenceNumber = 0, up_Source = (src, sport),
               up_Destination = (dst, dport), up_Payload = payload\<rparr>)))))"

definition parseIPv4UDP :: "bytes \<Rightarrow> mmt_error fault + UDPPacket" where
  "parseIPv4UDP b =
     (if glen b < 20 then Inl (Err ErrInvalidPacket)
      else rbind (idx b 0) (\<lambda>b0. if drop_bit 4 b0 \<noteq> 4 then Inl (Err ErrInvalidPacket)
      else rbind (be16_at b 2) (\<lambda>total.
        let headerLen = uint (b0 AND 0x0f) * 4; totalLen = uint total
        in if headerLen < 20 \<or> totalLen < headerLen \<or> totalLen > glen b then Inl (Err ErrInvalidPacket)
           else rbind (idx b 9) (\<lambda>protocol. if protocol \<noteq> 17 then Inl (Err ErrNotUDP)
           else rbind (gslice b 12 16) (\<lambda>src. rbind (gslice b 16 20) (\<lambda>dst.
             rbind (gslice b headerLen totalLen) (\<lambda>datagram. parseUDP datagram (IPv4 src) (IPv4 dst))))))))"

definition parseIPv6UDP :: "bytes \<Rightarrow> mmt_error fault + UDPPacket" where
  "parseIPv6UDP b =
     (if glen b < 40 then Inl (Err ErrInvalidPacket)
      else rbind (idx b 0) (\<lambda>b0. if drop_bit 4 b0 \<noteq> 6 then Inl (Err ErrInvalidPacket)
      else rbind (be16_at b 4) (\<lambda>payloadLen.
        if 40 + uint payloadLen > glen b then Inl (Err ErrInvalidPacket)
        else rbind (idx b 6) (\<lambda>protocol. if protocol \<noteq> 17 then Inl (Err ErrNotUDP)
        else rbind (gslice b 8 24) (\<lambda>src. rbind (gslice b 24 40) (\<lambda>dst.
          rbind (gslice b 40 (40 + uint payloadLen)) (\<lambda>datagram. parseUDP datagram (IPv6 src) (IPv6 dst))))))))"

definition CompressedHeaderIPv4UDP :: byte where "CompressedHeaderIPv4UDP = 0x20"

definition CompressedHeaderIPv4ID :: byte where "CompressedHeaderIPv4ID = 0x21"

definition CompressedHeaderIPv6UDP :: byte where "CompressedHeaderIPv6UDP = 0x60"

definition CompressedHeaderNone :: byte where "CompressedHeaderNone = 0x61"

definition compressed_body :: "byte \<Rightarrow> bytes \<Rightarrow> UDPPacket \<Rightarrow> mmt_error fault + UDPPacket" where
  "compressed_body headerType b u =
     (if headerType = CompressedHeaderIPv4UDP then
        (if glen b < 20 then Inl (Err ErrInvalidPacket)
         else rbind (idx b 0) (\<lambda>b0. if drop_bit 4 b0 \<noteq> 4 then Inl (Err ErrInvalidPacket)
         else rbind (idx b 7) (\<lambda>protocol. if protocol \<noteq> 17 then Inl (Err ErrNotUDP)
         else rbind (gslice b 8 12) (\<lambda>src. rbind (be16_at b 16) (\<lambda>sport. rbind (gslice b 12 16) (\<lambda>dst.
           rbind (be16_at b 18) (\<lambda>dport. rbind (gslice b 20 (glen b)) (\<lambda>payload.
             Inr (u\<lparr>up_Source := (IPv4 src, sport), up_Destination := (IPv4 dst, dport), up_Payload := payload\<rparr>)))))))))
      else if headerType = CompressedHeaderIPv4ID then
        (if glen b < 2 then Inl (Err ErrInvalidPacket)
         else rbind (gslice b 2 (glen b)) (\<lambda>payload. Inr (u\<lparr>up_Payload := payload\<rparr>)))
      else if headerType = CompressedHeaderIPv6UDP then
        (if glen b < 42 then Inl (Err ErrInvalidPacket)
         else rbind (idx b 0) (\<lambda>b0. if drop_bit 4 b0 \<noteq> 6 then Inl (Err ErrInvalidPacket)
         else rbind (idx b 4) (\<lambda>protocol. if protocol \<noteq> 17 then Inl (Err ErrNotUDP)
         else rbind (gslice b 6 22) (\<lambda>src. rbind (be16_at b 38) (\<lambda>sport. rbind (gslice b 22 38) (\<lambda>dst.
           rbind (be16_at b 40) (\<lambda>dport. rbind (gslice b 42 (glen b)) (\<lambda>payload.
             Inr (u\<lparr>up_Source := (IPv6 src, sport), up_Destination := (IPv6 dst, dport), up_Payload := payload\<rparr>)))))))))
      else if headerType = CompressedHeaderNone then Inr (u\<lparr>up_Payload := b\<rparr>)
      else Inl (Err ErrInvalidPacket))"

definition parseCompressedUDP :: "bytes \<Rightarrow> mmt_error fault + UDPPacket" where
  "parseCompressedUDP b =
     (if glen b < 3 then Inl (Err ErrInvalidPacket)
      else rbind (idx b 0) (\<lambda>b0. rbind (idx b 1) (\<lambda>b1. rbind (idx b 2) (\<lambda>headerType. rbind (gslice b 3 (glen b)) (\<lambda>body.
        compressed_body headerType body
          \<lparr>up_Compressed = True, up_ContextID = push_bit 4 (ucast b0) OR ucast (drop_bit 4 b1),
           up_SequenceNumber = b1 AND 0x0f, up_Source = (NoAddr, 0), up_Destination = (NoAddr, 0), up_Payload = []\<rparr>)))))"

definition ParseUDPPacket :: "bytes \<Rightarrow> mmt_error fault + UDPPacket" where
  "ParseUDPPacket p =
     (if glen p < 4 then Inl (Err ErrInvalidPacket)
      else rbind (tlv_Data p) (\<lambda>data. rbind (tlv_Type p) (\<lambda>type.
        if type = TLVPacketTypeIPv4 then parseIPv4UDP data
        else if type = TLVPacketTypeIPv6 then parseIPv6UDP data
        else if type = TLVPacketTypeCompressedIP then parseCompressedUDP data
        else Inl (Err ErrNotUDP))))"

subsection \<open>IP data flows\<close>

record IPDataFlow =
  fl_Source :: Addr
  fl_Destination :: Addr
  fl_DestinationPort :: uint16

definition flow_IsValid :: "IPDataFlow \<Rightarrow> bool" where
  "flow_IsValid f = (fl_Destination f \<noteq> NoAddr)"

definition flowOf :: "UDPPacket \<Rightarrow> IPDataFlow option" where
  "flowOf u =
     (if \<not> AddrPort_IsValid (up_Destination u) then None
      else Some \<lparr>fl_Source = fst (up_Source u), fl_Destination = fst (up_Destination u), fl_DestinationPort = snd (up_Destination u)\<rparr>)"

text \<open>The tracker's state is its map of contexts; \<open>None\<close> is the answer false.\<close>

type_synonym FlowTracker = "uint16 \<rightharpoonup> IPDataFlow"

definition Flow :: "FlowTracker \<Rightarrow> UDPPacket \<Rightarrow> IPDataFlow option \<times> FlowTracker" where
  "Flow t u =
     (if \<not> up_Compressed u then (flowOf u, t)
      else case flowOf u of
          Some flow \<Rightarrow> (Some flow, t(up_ContextID u \<mapsto> flow))
        | None \<Rightarrow> (t (up_ContextID u), t))"

record PacketKey =
  pk_Flow :: IPDataFlow
  pk_PacketID :: uint16

subsection \<open>MMTP packets\<close>

record MMTPHeaderExtension =
  he_Type :: uint16
  he_Data :: bytes

record MMTPPacket =
  mp_Version :: byte
  mp_FECType :: byte
  mp_RAP :: bool
  mp_PayloadType :: byte
  mp_PacketID :: uint16
  mp_Timestamp :: uint32
  mp_PacketSequenceNumber :: uint32
  mp_HasPacketCounter :: bool
  mp_PacketCounter :: uint32
  mp_Extension :: "MMTPHeaderExtension option"
  mp_Payload :: bytes

definition mmtp_counter :: "bytes \<Rightarrow> MMTPPacket \<Rightarrow> int \<Rightarrow> mmt_error fault + MMTPPacket \<times> int" where
  "mmtp_counter b p off =
     (if mp_HasPacketCounter p then
        (if glen b < off + 4 then Inl (Err ErrInvalidPacket)
         else rbind (be32_at b off) (\<lambda>counter. Inr (p\<lparr>mp_PacketCounter := counter\<rparr>, off + 4)))
      else Inr (p, off))"

definition mmtp_extension :: "bytes \<Rightarrow> MMTPPacket \<Rightarrow> int \<Rightarrow> mmt_error fault + MMTPPacket \<times> int" where
  "mmtp_extension b p off =
     rbind (idx b 0) (\<lambda>b0.
       if b0 AND 0x02 \<noteq> 0 then
         (if glen b < off + 4 then Inl (Err ErrInvalidPacket)
          else rbind (be16_at b (off + 2)) (\<lambda>len.
            if glen b < off + 4 + uint len then Inl (Err ErrInvalidPacket)
            else rbind (be16_at b off) (\<lambda>type. rbind (gslice b (off + 4) (off + 4 + uint len)) (\<lambda>data.
              Inr (p\<lparr>mp_Extension := Some \<lparr>he_Type = type, he_Data = data\<rparr>\<rparr>, off + (4 + uint len))))))
       else Inr (p, off))"

definition ParseMMTPPacket :: "bytes \<Rightarrow> mmt_error fault + MMTPPacket" where
  "ParseMMTPPacket b =
     (if glen b < 12 then Inl (Err ErrInvalidPacket)
      else rbind (idx b 0) (\<lambda>b0. rbind (idx b 1) (\<lambda>b1. rbind (be16_at b 2) (\<lambda>packetID.
        rbind (be32_at b 4) (\<lambda>timestamp. rbind (be32_at b 8) (\<lambda>number.
          let p = \<lparr>mp_Version = drop_bit 6 b0, mp_FECType = drop_bit 3 b0 AND 0x03, mp_RAP = (b0 AND 0x01 \<noteq> 0),
                   mp_PayloadType = b1 AND 0x3f, mp_PacketID = packetID, mp_Timestamp = timestamp, mp_PacketSequenceNumber = number,
                   mp_HasPacketCounter = (b0 AND 0x20 \<noteq> 0), mp_PacketCounter = 0, mp_Extension = None, mp_Payload = []\<rparr>
          in rbind (mmtp_counter b p 12) (\<lambda>(p, off). rbind (mmtp_extension b p off) (\<lambda>(p, off).
               rbind (gslice b off (glen b)) (\<lambda>payload. Inr (p\<lparr>mp_Payload := payload\<rparr>))))))))))"

subsection \<open>Signaling payloads\<close>

definition MMTPPayloadTypeSignaling :: byte where "MMTPPayloadTypeSignaling = 0x02"

definition FragmentComplete :: byte where "FragmentComplete = 0"

definition FragmentFirst :: byte where "FragmentFirst = 1"

definition FragmentMiddle :: byte where "FragmentMiddle = 2"

definition FragmentLast :: byte where "FragmentLast = 3"

record SignalingPayload =
  sp_FragmentationIndicator :: byte
  sp_LengthExtension :: bool
  sp_Aggregation :: bool
  sp_FragmentCounter :: byte
  sp_Data :: bytes

definition ParseSignalingPayload :: "bytes \<Rightarrow> mmt_error fault + SignalingPayload" where
  "ParseSignalingPayload b =
     (if glen b < 2 then Inl (Err ErrInvalidPacket)
      else rbind (idx b 0) (\<lambda>b0. rbind (idx b 1) (\<lambda>b1. rbind (gslice b 2 (glen b)) (\<lambda>data.
        Inr \<lparr>sp_FragmentationIndicator = drop_bit 6 b0, sp_LengthExtension = (b0 AND 0x02 \<noteq> 0),
             sp_Aggregation = (b0 AND 0x01 \<noteq> 0), sp_FragmentCounter = b1, sp_Data = data\<rparr>))))"

text \<open>The length field of the next message, and the bytes after it.\<close>

definition message_length :: "bool \<Rightarrow> bytes \<Rightarrow> mmt_error fault + int \<times> bytes" where
  "message_length ext b =
     (if ext then
        (if glen b < 4 then Inl (Err ErrInvalidPacket)
         else rbind (be32_at b 0) (\<lambda>len. rbind (gslice b 4 (glen b)) (\<lambda>rest. Inr (uint len, rest))))
      else
        (if glen b < 2 then Inl (Err ErrInvalidPacket)
         else rbind (be16_at b 0) (\<lambda>len. rbind (gslice b 2 (glen b)) (\<lambda>rest. Inr (uint len, rest)))))"

lemma message_length_shorter:
  "message_length ext b = Inr (len, rest) \<Longrightarrow> length rest < length b"
  by (auto simp: message_length_def gslice_eq_Inr_iff split: if_splits)

function split_messages :: "bool \<Rightarrow> bytes \<Rightarrow> mmt_error fault + bytes list" where
  "split_messages ext b =
     (if b = [] then Inr []
      else rbind (message_length ext b) (\<lambda>(len, rest).
        if len > glen rest then Inl (Err ErrInvalidPacket)
        else rbind (gslice rest 0 len) (\<lambda>m. rbind (gslice rest len (glen rest)) (\<lambda>rest'.
          rbind (split_messages ext rest') (\<lambda>ms. Inr (m # ms))))))"
  by pat_completeness auto
termination
  by (relation "measure (\<lambda>(ext, b). length b)")
    (auto simp: gslice_eq_Inr_iff dest!: message_length_shorter)

declare split_messages.simps [simp del]

definition Messages :: "SignalingPayload \<Rightarrow> mmt_error fault + bytes list" where
  "Messages s =
     (if sp_FragmentationIndicator s \<noteq> FragmentComplete then Inr []
      else if \<not> sp_Aggregation s then Inr [sp_Data s]
      else split_messages (sp_LengthExtension s) (sp_Data s))"

subsection \<open>The message assembler\<close>

definition maxMessageSize :: int where "maxMessageSize = 2 ^ 20"

record pendingMessage =
  pm_data :: bytes
  pm_sequenceNumber :: uint32

type_synonym MessageAssembler = "PacketKey \<rightharpoonup> pendingMessage"

definition asm_Feed :: "IPDataFlow \<Rightarrow> MMTPPacket \<Rightarrow> MessageAssembler \<Rightarrow> (mmt_error fault + bytes list) \<times> MessageAssembler" where
  "asm_Feed flow p a =
     (if mp_PayloadType p \<noteq> MMTPPayloadTypeSignaling then (Inr [], a)
      else case ParseSignalingPayload (mp_Payload p) of
          Inl e \<Rightarrow> (Inl e, a)
        | Inr s \<Rightarrow>
            let key = \<lparr>pk_Flow = flow, pk_PacketID = mp_PacketID p\<rparr>
            in if sp_FragmentationIndicator s = FragmentComplete then (Messages s, a(key := None))
               else if sp_FragmentationIndicator s = FragmentFirst
               then (Inr [], a(key \<mapsto> \<lparr>pm_data = sp_Data s, pm_sequenceNumber = mp_PacketSequenceNumber p\<rparr>))
               else (case a key of
                   None \<Rightarrow> (Inr [], a(key := None))
                 | Some pending \<Rightarrow>
                     if mp_PacketSequenceNumber p \<noteq> pm_sequenceNumber pending + 1 \<or>
                        glen (pm_data pending) + glen (sp_Data s) > maxMessageSize
                     then (Inr [], a(key := None))
                     else
                       let pending = \<lparr>pm_data = pm_data pending @ sp_Data s, pm_sequenceNumber = mp_PacketSequenceNumber p\<rparr>
                       in if sp_FragmentationIndicator s = FragmentMiddle then (Inr [], a(key \<mapsto> pending))
                          else (Messages (s\<lparr>sp_FragmentationIndicator := FragmentComplete, sp_Data := pm_data pending\<rparr>), a(key := None))))"

subsection \<open>Messages\<close>

definition msg_ID :: "bytes \<Rightarrow> mmt_error fault + uint16" where
  "msg_ID m = be16_at m 0"

definition hasLength32 :: "bytes \<Rightarrow> mmt_error fault + bool" where
  "hasLength32 m = rbind (msg_ID m) (\<lambda>i. Inr (i \<le> 0x000F \<or> i \<ge> 0x7000 \<and> i \<le> 0x7FFF \<or> i \<ge> 0xF000))"

definition msg_Payload :: "bytes \<Rightarrow> mmt_error fault + byte \<times> bytes" where
  "msg_Payload m =
     (if glen m < 5 then Inl (Err ErrInvalidMMTSection)
      else rbind (hasLength32 m) (\<lambda>wide.
        rbind (if wide then (if glen m < 7 then Inl (Err ErrInvalidMMTSection) else rbind (be32_at m 3) (\<lambda>len. Inr (uint len, 7)))
               else rbind (be16_at m 3) (\<lambda>len. Inr (uint len, 5))) (\<lambda>(len, off).
          if len > glen m - off then Inl (Err ErrInvalidMMTSection)
          else rbind (idx m 2) (\<lambda>version. rbind (gslice m off (off + len)) (\<lambda>payload. Inr (version, payload))))))"

definition mmt_TotalLength :: "bytes \<Rightarrow> mmt_error fault + int" where
  "mmt_TotalLength s = rbind (be16_mask_at 0x0f s 1) (\<lambda>len. Inr (3 + uint len))"

definition MessageIDPA :: uint16 where "MessageIDPA = 0x0000"

definition MessageIDM2Section :: uint16 where "MessageIDM2Section = 0x8000"

definition MessageIDM2ShortSection :: uint16 where "MessageIDM2ShortSection = 0x8002"

definition msg_Section :: "bytes \<Rightarrow> mmt_error fault + bytes" where
  "msg_Section m =
     (if glen m < 2 then Inl (Err ErrInvalidMMTSection)
      else rbind (msg_ID m) (\<lambda>i. if i \<noteq> MessageIDM2Section \<and> i \<noteq> MessageIDM2ShortSection then Inl (Err ErrInvalidMMTSection)
      else rbind (msg_Payload m) (\<lambda>(_, s).
        if glen s < 3 then Inl (Err ErrInvalidMMTSection)
        else rbind (mmt_TotalLength s) (\<lambda>total. if total > glen s then Inl (Err ErrInvalidMMTSection)
        else gslice s 0 total))))"

record PAMessage =
  pa_Version :: byte
  pa_Tables :: "bytes list"

function pa_loop :: "bytes \<Rightarrow> mmt_error fault + bytes list" where
  "pa_loop b =
     (if b = [] then Inr []
      else if glen b < 4 then Inl (Err ErrInvalidMMTSection)
      else rbind (be16_at b 2) (\<lambda>len.
        if 4 + uint len > glen b then Inl (Err ErrInvalidMMTSection)
        else rbind (gslice b 0 (4 + uint len)) (\<lambda>t. rbind (gslice b (4 + uint len) (glen b)) (\<lambda>rest.
          rbind (pa_loop rest) (\<lambda>ts. Inr (t # ts))))))"
  by pat_completeness auto
termination
  by (relation "measure length") (auto simp: gslice_eq_Inr_iff)

declare pa_loop.simps [simp del]

definition ParsePAMessage :: "bytes \<Rightarrow> mmt_error fault + PAMessage" where
  "ParsePAMessage m =
     (if glen m < 2 then Inl (Err ErrInvalidMMTSection)
      else rbind (msg_ID m) (\<lambda>i. if i \<noteq> MessageIDPA then Inl (Err ErrInvalidMMTSection)
      else rbind (msg_Payload m) (\<lambda>(version, payload).
        if glen payload < 1 then Inl (Err ErrInvalidMMTSection)
        else rbind (idx payload 0) (\<lambda>n.
          let off = 1 + uint n * 4
          in if off > glen payload then Inl (Err ErrInvalidMMTSection)
             else rbind (gslice payload off (glen payload)) (\<lambda>b. rbind (pa_loop b) (\<lambda>tables.
               Inr \<lparr>pa_Version = version, pa_Tables = tables\<rparr>))))))"

end
