(* ===== verification/MmtpCorrect.thy ===== *)
theory MmtpCorrect
  imports Mmtp
begin

text \<open>
  Messages sent are the messages received: the payloads a sender builds from messages, divided
  over packets in any way and interleaved with the packets of other sequences, come out of the
  assembler unchanged. The parsers of \<open>Mmtp\<close> never index or slice outside their input.
\<close>

subsection \<open>No parser panics\<close>

lemma be32_at_ok [simp, res_simps]:
  "0 \<le> i \<Longrightarrow> i + 3 < glen s \<Longrightarrow> be32_at s i = Inr (be32 (s ! nat i) (s ! nat (i + 1)) (s ! nat (i + 2)) (s ! nat (i + 3)))"
  by (simp add: be32_at_def)

lemma parseUDP_safe: "safe (parseUDP b src dst)"
  by (simp add: parseUDP_def)

lemma parseIPv4UDP_safe: "safe (parseIPv4UDP b)"
  by (auto simp: parseIPv4UDP_def Let_def parseUDP_safe safe_gslice intro!: safe_rbind)

lemma parseIPv6UDP_safe: "safe (parseIPv6UDP b)"
  by (auto simp: parseIPv6UDP_def parseUDP_safe safe_gslice intro!: safe_rbind)

lemma parseCompressedUDP_safe: "safe (parseCompressedUDP b)"
  by (auto simp: parseCompressedUDP_def compressed_body_def safe_gslice intro!: safe_rbind)

lemma ParseUDPPacket_safe: "safe (ParseUDPPacket p)"
  by (auto simp: ParseUDPPacket_def tlv_Data_def tlv_Type_def safe_gslice parseIPv4UDP_safe parseIPv6UDP_safe
      parseCompressedUDP_safe intro!: safe_rbind)

lemma ParseMMTPPacket_safe: "safe (ParseMMTPPacket b)"
  by (auto simp: ParseMMTPPacket_def mmtp_counter_def mmtp_extension_def Let_def safe_gslice intro!: safe_rbind split: if_splits)

lemma ParseSignalingPayload_safe: "safe (ParseSignalingPayload b)"
  by (simp add: ParseSignalingPayload_def)

lemma split_messages_safe: "safe (split_messages ext b)"
proof (induction ext b rule: split_messages.induct)
  case (1 ext b)
  have "safe (message_length ext b)" by (simp add: message_length_def)
  moreover have "0 \<le> len" if "message_length ext b = Inr (len, rest)" for len rest
    using that by (auto simp: message_length_def split: if_splits)
  ultimately show ?case
    by (subst split_messages.simps) (auto intro!: safe_rbind 1 simp: safe_gslice)
qed

lemma Messages_safe: "safe (Messages s)"
  by (simp add: Messages_def split_messages_safe)

lemma asm_Feed_safe: "safe (fst (asm_Feed flow p a))"
proof (cases "ParseSignalingPayload (mp_Payload p)")
  case (Inl e)
  then show ?thesis using ParseSignalingPayload_safe [of "mp_Payload p"] by (cases e) (simp_all add: asm_Feed_def)
next
  case (Inr s)
  then show ?thesis by (simp add: asm_Feed_def Let_def Messages_safe split: option.split)
qed

lemma msg_Payload_safe: "safe (msg_Payload m)"
  by (auto simp: msg_Payload_def hasLength32_def msg_ID_def safe_gslice intro!: safe_rbind split: if_splits)

lemma msg_Section_safe: "safe (msg_Section m)"
  by (auto simp: msg_Section_def msg_ID_def mmt_TotalLength_def msg_Payload_safe safe_gslice intro!: safe_rbind)

lemma pa_loop_safe: "safe (pa_loop b)"
proof (induction b rule: pa_loop.induct)
  case (1 b)
  then show ?case by (subst pa_loop.simps) (auto intro!: safe_rbind simp: safe_gslice)
qed

lemma ParsePAMessage_safe: "safe (ParsePAMessage m)"
  by (auto simp: ParsePAMessage_def msg_ID_def msg_Payload_safe pa_loop_safe Let_def safe_gslice intro!: safe_rbind)

subsection \<open>What a sender builds\<close>

definition bytes32 :: "uint32 \<Rightarrow> bytes" where
  "bytes32 w = [ucast (drop_bit 24 w), ucast (drop_bit 16 w), ucast (drop_bit 8 w), ucast w]"

lemma be32_bytes32 [simp]:
  "be32 (ucast (drop_bit 24 w)) (ucast (drop_bit 16 w)) (ucast (drop_bit 8 w)) (ucast (w :: uint32)) = w"
proof (rule bit_word_eqI)
  fix n assume "n < LENGTH(32)"
  then consider "n < 8" | "8 \<le> n" "n < 16" | "16 \<le> n" "n < 24" | "24 \<le> n" "n < 32" by fastforce
  then show "bit (be32 (ucast (drop_bit 24 w)) (ucast (drop_bit 16 w)) (ucast (drop_bit 8 w)) (ucast w)) n = bit w n"
    by cases (auto simp: be32_def bit_simps)
qed

definition encode_message :: "bool \<Rightarrow> bytes \<Rightarrow> bytes" where
  "encode_message ext m =
     (if ext then bytes32 (of_nat (length m)) else [hi8 (of_nat (length m)), lo8 (of_nat (length m))]) @ m"

definition message_fits :: "bool \<Rightarrow> bytes \<Rightarrow> bool" where
  "message_fits ext m \<longleftrightarrow> length m < (if ext then 2 ^ 32 else 2 ^ 16)"

lemma uint_length:
  "n < 2 ^ 16 \<Longrightarrow> uint (of_nat n :: uint16) = int n" "n < 2 ^ 32 \<Longrightarrow> uint (of_nat n :: uint32) = int n"
  by (simp_all add: unsigned_of_nat take_bit_nat_eq_self)

lemma message_length_encode:
  assumes "message_fits ext m"
  shows "message_length ext (encode_message ext m @ rest) = Inr (glen m, m @ rest)"
proof (cases ext)
  case True
  have "gslice (a # b # c # d # xs) 4 (glen (a # b # c # d # xs)) = Inr xs" for a b c d :: byte and xs
    by (subst gslice_to_end) simp_all
  then show ?thesis using assms True
    by (simp add: message_length_def encode_message_def message_fits_def bytes32_def be32_at_def idx_def uint_length del: gslice_to_end)
next
  case False
  have "gslice (a # b # xs) 2 (glen (a # b # xs)) = Inr xs" for a b :: byte and xs
    by (subst gslice_to_end) simp_all
  then show ?thesis using assms False
    by (simp add: message_length_def encode_message_def message_fits_def be16_at_def uint_length del: gslice_to_end)
qed

lemma split_messages_encode:
  "list_all (message_fits ext) ms \<Longrightarrow> split_messages ext (concat (map (encode_message ext) ms)) = Inr ms"
proof (induction ms)
  case Nil
  then show ?case by (simp add: split_messages.simps)
next
  case (Cons m ms)
  let ?rest = "concat (map (encode_message ext) ms)"
  have "encode_message ext m \<noteq> []" by (simp add: encode_message_def bytes32_def)
  moreover have "message_length ext (encode_message ext m @ ?rest) = Inr (glen m, m @ ?rest)"
    using Cons.prems by (intro message_length_encode) simp
  moreover have "gslice (m @ ?rest) 0 (glen m) = (Inr m :: mmt_error fault + bytes)"
      "gslice (m @ ?rest) (glen m) (glen (m @ ?rest)) = (Inr ?rest :: mmt_error fault + bytes)"
    by (simp_all add: gslice_def)
  ultimately show ?case using Cons by (subst split_messages.simps) simp
qed

lemmas fragment_defs = FragmentComplete_def FragmentFirst_def FragmentMiddle_def FragmentLast_def

definition signaling_payload :: "byte \<Rightarrow> bool \<Rightarrow> bool \<Rightarrow> byte \<Rightarrow> bytes \<Rightarrow> bytes" where
  "signaling_payload ind ext aggr counter data =
     [push_bit 6 ind OR (if ext then 2 else 0) OR (if aggr then 1 else 0), counter] @ data"

lemma ParseSignalingPayload_encode:
  assumes "ind \<in> {FragmentComplete, FragmentFirst, FragmentMiddle, FragmentLast}"
  shows "ParseSignalingPayload (signaling_payload ind ext aggr counter data) =
     Inr \<lparr>sp_FragmentationIndicator = ind, sp_LengthExtension = ext, sp_Aggregation = aggr, sp_FragmentCounter = counter, sp_Data = data\<rparr>"
proof -
  let ?b = "push_bit 6 ind OR (if ext then 2 else 0) OR (if aggr then 1 else 0)"
  have "ind \<in> {0, 1, 2, 3}" using assms by (simp add: fragment_defs)
  then have "drop_bit 6 ?b = ind" "(?b AND 0x02 \<noteq> 0) = ext" "(?b AND 0x01 \<noteq> 0) = aggr" by auto
  moreover have "gslice (a # b # xs) 2 (glen (a # b # xs)) = Inr xs" for a b :: byte and xs
    by (subst gslice_to_end) simp_all
  ultimately show ?thesis by (simp add: ParseSignalingPayload_def signaling_payload_def del: gslice_to_end)
qed

subsection \<open>One packet sequence at a time\<close>

definition key_of :: "IPDataFlow \<Rightarrow> MMTPPacket \<Rightarrow> PacketKey" where
  "key_of flow p = \<lparr>pk_Flow = flow, pk_PacketID = mp_PacketID p\<rparr>"

text \<open>What \<open>asm_Feed\<close> does to the pending message of the packet's key.\<close>

definition asm_step :: "MMTPPacket \<Rightarrow> pendingMessage option \<Rightarrow> (mmt_error fault + bytes list) \<times> pendingMessage option" where
  "asm_step p st =
     (if mp_PayloadType p \<noteq> MMTPPayloadTypeSignaling then (Inr [], st)
      else case ParseSignalingPayload (mp_Payload p) of
          Inl e \<Rightarrow> (Inl e, st)
        | Inr s \<Rightarrow>
            if sp_FragmentationIndicator s = FragmentComplete then (Messages s, None)
            else if sp_FragmentationIndicator s = FragmentFirst
            then (Inr [], Some \<lparr>pm_data = sp_Data s, pm_sequenceNumber = mp_PacketSequenceNumber p\<rparr>)
            else (case st of
                None \<Rightarrow> (Inr [], None)
              | Some pending \<Rightarrow>
                  if mp_PacketSequenceNumber p \<noteq> pm_sequenceNumber pending + 1 \<or>
                     glen (pm_data pending) + glen (sp_Data s) > maxMessageSize
                  then (Inr [], None)
                  else if sp_FragmentationIndicator s = FragmentMiddle
                  then (Inr [], Some \<lparr>pm_data = pm_data pending @ sp_Data s, pm_sequenceNumber = mp_PacketSequenceNumber p\<rparr>)
                  else (Messages (s\<lparr>sp_FragmentationIndicator := FragmentComplete, sp_Data := pm_data pending @ sp_Data s\<rparr>), None)))"

lemma asm_Feed_step:
  "asm_Feed flow p a = (fst (asm_step p (a (key_of flow p))), a(key_of flow p := snd (asm_step p (a (key_of flow p)))))"
  by (simp add: asm_Feed_def asm_step_def key_of_def Let_def fun_upd_idem split: sum.split option.split)

fun asm_run :: "(IPDataFlow \<times> MMTPPacket) list \<Rightarrow> MessageAssembler \<Rightarrow> (PacketKey \<times> (mmt_error fault + bytes list)) list \<times> MessageAssembler" where
  "asm_run [] a = ([], a)"
| "asm_run ((flow, p) # feed) a =
     (case asm_Feed flow p a of (r, a) \<Rightarrow> case asm_run feed a of (rs, a) \<Rightarrow> ((key_of flow p, r) # rs, a))"

fun step_run :: "MMTPPacket list \<Rightarrow> pendingMessage option \<Rightarrow> (mmt_error fault + bytes list) list \<times> pendingMessage option" where
  "step_run [] st = ([], st)"
| "step_run (p # ps) st = (case asm_step p st of (r, st) \<Rightarrow> case step_run ps st of (rs, st) \<Rightarrow> (r # rs, st))"

definition of_key :: "PacketKey \<Rightarrow> (IPDataFlow \<times> MMTPPacket) list \<Rightarrow> MMTPPacket list" where
  "of_key k feed = map snd (filter (\<lambda>(flow, p). key_of flow p = k) feed)"

definition received :: "PacketKey \<Rightarrow> (PacketKey \<times> 'r) list \<Rightarrow> 'r list" where
  "received k rs = map snd (filter (\<lambda>(k', r). k' = k) rs)"

lemma received_run: "received k (fst (asm_run feed a)) = fst (step_run (of_key k feed) (a k))"
proof (induction feed arbitrary: a)
  case (Cons x feed)
  obtain flow p where "x = (flow, p)" by (cases x)
  moreover obtain b where b: "asm_Feed flow p a = (fst (asm_step p (a (key_of flow p))), b)"
      "b k = (if key_of flow p = k then snd (asm_step p (a k)) else a k)"
    using asm_Feed_step [of flow p a] by auto
  ultimately show ?case using Cons.IH [of b] by (simp add: received_def of_key_def case_prod_beta)
qed (simp add: received_def of_key_def)

lemma step_run_append:
  "step_run (ps @ qs) st = (fst (step_run ps st) @ fst (step_run qs (snd (step_run ps st))), snd (step_run qs (snd (step_run ps st))))"
  by (induction ps arbitrary: st) (auto split: prod.split)

subsection \<open>A message divided over packets\<close>

definition indicator :: "nat \<Rightarrow> nat \<Rightarrow> byte" where
  "indicator n i = (if n = 1 then FragmentComplete else if i = 0 then FragmentFirst else if i = n - 1 then FragmentLast else FragmentMiddle)"

definition fragments :: "uint32 \<Rightarrow> bool \<Rightarrow> bool \<Rightarrow> bytes list \<Rightarrow> MMTPPacket list \<Rightarrow> bool" where
  "fragments number ext aggr ds ps \<longleftrightarrow> length ps = length ds \<and>
     (\<forall>i<length ds. mp_PayloadType (ps ! i) = MMTPPayloadTypeSignaling \<and> mp_PacketSequenceNumber (ps ! i) = number + of_nat i \<and>
        (\<exists>counter. mp_Payload (ps ! i) = signaling_payload (indicator (length ds) i) ext aggr counter (ds ! i)))"

definition join_payload :: "bool \<Rightarrow> bool \<Rightarrow> byte \<Rightarrow> bytes \<Rightarrow> SignalingPayload" where
  "join_payload ext aggr counter data =
     \<lparr>sp_FragmentationIndicator = FragmentComplete, sp_LengthExtension = ext, sp_Aggregation = aggr, sp_FragmentCounter = counter, sp_Data = data\<rparr>"

lemma Messages_counter: "Messages (join_payload ext aggr c data) = Messages (join_payload ext aggr 0 data)"
  by (simp add: Messages_def join_payload_def)

lemma asm_step_fragment:
  assumes "fragments number ext aggr ds ps" "i < length ds"
  shows "asm_step (ps ! i) st =
     (if length ds = 1 then (Messages (join_payload ext aggr 0 (ds ! i)), None)
      else if i = 0 then (Inr [], Some \<lparr>pm_data = ds ! i, pm_sequenceNumber = number\<rparr>)
      else case st of
          None \<Rightarrow> (Inr [], None)
        | Some pending \<Rightarrow>
            if number + of_nat i \<noteq> pm_sequenceNumber pending + 1 \<or> glen (pm_data pending) + glen (ds ! i) > maxMessageSize then (Inr [], None)
            else if i = length ds - 1 then (Messages (join_payload ext aggr 0 (pm_data pending @ ds ! i)), None)
            else (Inr [], Some \<lparr>pm_data = pm_data pending @ ds ! i, pm_sequenceNumber = number + of_nat i\<rparr>))"
proof -
  obtain counter where c: "mp_PayloadType (ps ! i) = MMTPPayloadTypeSignaling" "mp_PacketSequenceNumber (ps ! i) = number + of_nat i"
      "mp_Payload (ps ! i) = signaling_payload (indicator (length ds) i) ext aggr counter (ds ! i)"
    using assms by (auto simp: fragments_def)
  have "indicator (length ds) i \<in> {FragmentComplete, FragmentFirst, FragmentMiddle, FragmentLast}" by (simp add: indicator_def)
  note parse = ParseSignalingPayload_encode [OF this, of ext aggr counter "ds ! i"]
  have m: "Messages \<lparr>sp_FragmentationIndicator = FragmentComplete, sp_LengthExtension = ext, sp_Aggregation = aggr, sp_FragmentCounter = counter, sp_Data = d\<rparr> =
      Messages (join_payload ext aggr 0 d)" for d
    using Messages_counter [of ext aggr counter d] by (simp add: join_payload_def)
  show ?thesis
    using c parse assms(2) by (simp add: asm_step_def m indicator_def split: option.split) (auto simp: fragment_defs)
qed

lemma fragments_prefix:
  assumes f: "fragments number ext aggr ds ps" and size: "glen (concat ds) \<le> maxMessageSize" and j: "0 < j" "j < length ds"
  shows "step_run (take j ps) st =
     (replicate j (Inr []), Some \<lparr>pm_data = concat (take j ds), pm_sequenceNumber = number + of_nat (j - 1)\<rparr>)"
  using j
proof (induction j)
  case (Suc j)
  have len: "length ps = length ds" using f by (simp add: fragments_def)
  then have ps: "take (Suc j) ps = take j ps @ [ps ! j]" and ds: "take (Suc j) ds = take j ds @ [ds ! j]"
    using Suc.prems by (simp_all add: take_Suc_conv_app_nth)
  note step = asm_step_fragment [OF f, of j]
  show ?case
  proof (cases "j = 0")
    case True
    then have "take (Suc j) ps = [ps ! 0]" "take (Suc j) ds = [ds ! 0]" using ps ds by simp_all
    moreover have "ds \<noteq> []" using Suc.prems by auto
    ultimately show ?thesis using True Suc.prems step [of st] by simp
  next
    case False
    have "length (concat (take (Suc j) ds)) \<le> length (concat ds)"
      by (metis append_take_drop_id concat_append le_add1 length_append)
    then have "glen (concat (take j ds)) + glen (ds ! j) \<le> maxMessageSize" using size ds by simp
    then show ?thesis
      using Suc False step ps ds by (simp add: step_run_append replicate_append_same)
  qed
qed simp

lemma fragments_run:
  assumes f: "fragments number ext aggr ds ps" and size: "glen (concat ds) \<le> maxMessageSize" and ds: "ds \<noteq> []"
  shows "step_run ps st = (replicate (length ds - 1) (Inr []) @ [Messages (join_payload ext aggr 0 (concat ds))], None)"
proof -
  let ?n = "length ds - 1"
  have len: "length ps = length ds" using f by (simp add: fragments_def)
  then have ps: "ps = take ?n ps @ [ps ! ?n]" and cds: "concat ds = concat (take ?n ds) @ ds ! ?n"
    using ds by (metis diff_Suc_1 length_0_conv lessI not0_implies_Suc order_refl take_Suc_conv_app_nth take_all,
      metis append_butlast_last_id butlast_conv_take concat.simps(1,2) concat_append last_conv_nth append_Nil2)
  show ?thesis
  proof (cases "length ds = 1")
    case True
    then obtain p d where "ps = [p]" "ds = [d]" using len by (auto simp: length_Suc_conv)
    then show ?thesis using asm_step_fragment [OF f, of 0 st] by simp
  next
    case False
    then have n: "0 < ?n" "?n < length ds" using ds by (auto simp: neq_Nil_conv)
    have "glen (concat (take ?n ds)) + glen (ds ! ?n) \<le> maxMessageSize" using size cds by (metis length_append of_nat_add)
    moreover have "number + of_nat (?n - 1) + 1 = number + of_nat ?n" using n by (simp add: of_nat_diff)
    ultimately have "step_run [ps ! ?n] (snd (step_run (take ?n ps) st)) = ([Messages (join_payload ext aggr 0 (concat ds))], None)"
      using False n asm_step_fragment [OF f n(2)] fragments_prefix [OF f size n] by (simp add: cds)
    then show ?thesis
      using fragments_prefix [OF f size n, of st] by (subst ps, subst step_run_append) simp
  qed
qed

text \<open>
  C11. Signaling messages survive the transport: if a sender packs messages into a payload (one
  message, or several each with its length), divides the payload over any number of MMTP packets
  of one sequence with consecutive sequence numbers (which may wrap around) and the packets arrive
  in order, interleaved in any way with packets of other flows and packet ids and whatever the
  assembler held before, then the last of the packets completes exactly those messages and the
  others complete none.
\<close>

theorem messages_reassembled:
  assumes "fragments number ext aggr ds (of_key k feed)" "ds \<noteq> []" "glen (concat ds) \<le> maxMessageSize"
    and "if aggr then concat ds = concat (map (encode_message ext) ms) \<and> list_all (message_fits ext) ms else ms = [concat ds]"
  shows "received k (fst (asm_run feed a)) = replicate (length ds - 1) (Inr []) @ [Inr ms]"
proof -
  have "Messages (join_payload ext aggr 0 (concat ds)) = Inr ms"
    using assms(4) split_messages_encode [of ext ms] by (auto simp: Messages_def join_payload_def split: if_splits)
  then show ?thesis by (simp add: received_run fragments_run [OF assms(1,3,2)])
qed

definition demo_flow :: "byte \<Rightarrow> IPDataFlow" where
  "demo_flow n = \<lparr>fl_Source = NoAddr, fl_Destination = IPv4 [239, 0, 0, n], fl_DestinationPort = 50000\<rparr>"

definition demo_mmtp :: "uint32 \<Rightarrow> bytes \<Rightarrow> MMTPPacket" where
  "demo_mmtp number payload =
     \<lparr>mp_Version = 0, mp_FECType = 0, mp_RAP = False, mp_PayloadType = 2, mp_PacketID = 0, mp_Timestamp = 0,
      mp_PacketSequenceNumber = number, mp_HasPacketCounter = False, mp_PacketCounter = 0, mp_Extension = None, mp_Payload = payload\<rparr>"

text \<open>Two messages in two fragments, with a fragment of another flow between them.\<close>

definition demo_feed :: "(IPDataFlow \<times> MMTPPacket) list" where
  "demo_feed =
     [(demo_flow 1, demo_mmtp 0xFFFFFFFF (signaling_payload FragmentFirst False True 1 [0, 3, 1])),
      (demo_flow 2, demo_mmtp 7 (signaling_payload FragmentMiddle False False 1 [9])),
      (demo_flow 1, demo_mmtp 0 (signaling_payload FragmentLast False True 0 [2, 3, 0, 1, 4]))]"

definition demo_key :: PacketKey where
  "demo_key = \<lparr>pk_Flow = demo_flow 1, pk_PacketID = 0\<rparr>"

theorem messages_reassembled_witness:
  "received demo_key (fst (asm_run demo_feed Map.empty)) = [Inr [], Inr [[1, 2, 3], [4]]]"
proof -
  let ?ds = "[[0, 3, 1], [2, 3, 0, 1, 4]] :: bytes list" and ?ms = "[[1, 2, 3], [4]] :: bytes list"
  have feed: "of_key demo_key demo_feed =
      [demo_mmtp 0xFFFFFFFF (signaling_payload FragmentFirst False True 1 [0, 3, 1]),
       demo_mmtp 0 (signaling_payload FragmentLast False True 0 [2, 3, 0, 1, 4])]"
    by code_simp
  have "mp_PayloadType (demo_mmtp n b) = MMTPPayloadTypeSignaling" "mp_PacketSequenceNumber (demo_mmtp n b) = n"
      "mp_Payload (demo_mmtp n b) = b" for n b
    by (simp_all add: demo_mmtp_def MMTPPayloadTypeSignaling_def)
  then have f: "fragments 0xFFFFFFFF False True ?ds (of_key demo_key demo_feed)"
    unfolding feed fragments_def by (auto simp: less_Suc_eq indicator_def)
  have g: "glen (concat ?ds) \<le> maxMessageSize" by (simp add: maxMessageSize_def)
  have h: "if True then concat ?ds = concat (map (encode_message False) ?ms) \<and> list_all (message_fits False) ?ms else ?ms = [concat ?ds]"
    by (simp add: encode_message_def message_fits_def hi8_def lo8_def)
  show ?thesis using messages_reassembled [OF f _ g h, of Map.empty] by simp
qed

end
