(* ===== verification/MmtReader.thy ===== *)
theory MmtReader
  imports Mmtp "HOL-Library.State_Monad"
begin

text \<open>
  \<open>mmt/descriptor.go\<close>: the field reader all MMT-SI parsers use, the descriptor loop and the
  descriptors; also the descriptors of \<open>mmt/logo.go\<close> and \<open>mmt/data_flow.go\<close>. The reader's methods
  are actions of the state monad; a Go string is its bytes. The two loops that end when the bytes
  are used up without asking whether a read failed have fuel, one unit for each byte there is at
  their start; a loop that ran out of it would not end in Go, and its result is \<open>Panic\<close> here, so
  that the theorems that exclude panics also show that these loops end.
\<close>

subsection \<open>The reader\<close>

record mreader =
  mr_b :: bytes
  mr_ok :: bool

type_synonym 'a reading = "(mreader, 'a) state"

definition newReader :: "bytes \<Rightarrow> mreader" where
  "newReader b = \<lparr>mr_b = b, mr_ok = True\<rparr>"

definition rd_bytes :: "int \<Rightarrow> bytes reading" where
  "rd_bytes n =
     State (\<lambda>r. if \<not> mr_ok r \<or> n > glen (mr_b r) then ([], r\<lparr>mr_ok := False\<rparr>)
                else (take (nat n) (mr_b r), r\<lparr>mr_b := drop (nat n) (mr_b r)\<rparr>))"

definition u8 :: "byte reading" where
  "u8 = do { b \<leftarrow> rd_bytes 1; State_Monad.return (case b of [x] \<Rightarrow> x | _ \<Rightarrow> 0) }"

definition u16 :: "uint16 reading" where
  "u16 = do { b \<leftarrow> rd_bytes 2; State_Monad.return (case b of [x, y] \<Rightarrow> be16 x y | _ \<Rightarrow> 0) }"

definition u32 :: "uint32 reading" where
  "u32 = do { b \<leftarrow> rd_bytes 4; State_Monad.return (case b of [x, y, z, w] \<Rightarrow> be32 x y z w | _ \<Rightarrow> 0) }"

text \<open>\<open>r.bytes(int(r.u8()))\<close> and \<open>r.bytes(int(r.u16()))\<close>.\<close>

definition bytes8 :: "bytes reading" where
  "bytes8 = do { n \<leftarrow> u8; rd_bytes (uint n) }"

definition bytes16 :: "bytes reading" where
  "bytes16 = do { n \<leftarrow> u16; rd_bytes (uint n) }"

text \<open>\<open>return out, r.err()\<close>: the caller of a parser that returns an error does not look at the value.\<close>

definition rd_result :: "'a \<Rightarrow> mreader \<Rightarrow> mmt_error fault + 'a" where
  "rd_result x r = (if mr_ok r then Inr x else Inl (Err ErrInvalidMMTSection))"

definition read_all :: "'a reading \<Rightarrow> bytes \<Rightarrow> mmt_error fault + 'a" where
  "read_all m data = (case run_state m (newReader data) of (x, r) \<Rightarrow> rd_result x r)"

primrec rd_times :: "nat \<Rightarrow> 'a reading \<Rightarrow> 'a list reading" where
  "rd_times 0 m = State_Monad.return []"
| "rd_times (Suc n) m = do { x \<leftarrow> m; xs \<leftarrow> rd_times n m; State_Monad.return (x # xs) }"

text \<open>Reading never gives bytes back, and a failed read stays failed; most reads use bytes up.\<close>

definition shrinks :: "mreader \<Rightarrow> mreader \<Rightarrow> bool" where
  "shrinks r r' \<longleftrightarrow> length (mr_b r') \<le> length (mr_b r) \<and> (mr_ok r' \<longrightarrow> mr_ok r)"

definition consumes :: "mreader \<Rightarrow> mreader \<Rightarrow> bool" where
  "consumes r r' \<longleftrightarrow> shrinks r r' \<and> (mr_ok r' \<longrightarrow> length (mr_b r') < length (mr_b r))"

lemma consumes_shrinks: "consumes r r' \<Longrightarrow> shrinks r r'"
  by (simp add: consumes_def)

lemma shrinks_trans [trans]: "shrinks r s \<Longrightarrow> shrinks s t \<Longrightarrow> shrinks r t"
  by (auto simp: shrinks_def)

lemma consumes_trans [trans]: "consumes r s \<Longrightarrow> shrinks s t \<Longrightarrow> consumes r t"
  by (auto simp: consumes_def shrinks_def)

named_theorems reading \<open>reads that do not give bytes back\<close>
named_theorems consuming \<open>reads that use bytes up or fail\<close>

lemma reading_return [reading]: "state_io_rel shrinks (State_Monad.return x)"
  by (simp add: state_io_rel_def shrinks_def)

lemma reading_bytes [reading]: "state_io_rel shrinks (rd_bytes n)"
  by (simp add: state_io_rel_def shrinks_def rd_bytes_def)

lemma consuming_bytes: "0 < n \<Longrightarrow> state_io_rel consumes (rd_bytes n)"
  by (auto simp: state_io_rel_def consumes_def shrinks_def rd_bytes_def)

lemma reading_bind [reading]:
  "state_io_rel shrinks m \<Longrightarrow> (\<And>x. state_io_rel shrinks (f x)) \<Longrightarrow> state_io_rel shrinks (State_Monad.bind m f)"
  by (force simp: state_io_rel_def intro: shrinks_trans split: prod.split)

lemma consuming_bind [consuming]:
  "state_io_rel consumes m \<Longrightarrow> (\<And>x. state_io_rel shrinks (f x)) \<Longrightarrow> state_io_rel consumes (State_Monad.bind m f)"
  by (force simp: state_io_rel_def intro: consumes_trans split: prod.split)

lemma consuming_u [consuming]: "state_io_rel consumes u8" "state_io_rel consumes u16" "state_io_rel consumes u32"
  unfolding u8_def u16_def u32_def by (intro consuming_bind consuming_bytes reading; simp)+

lemma consuming_reading: "state_io_rel consumes m \<Longrightarrow> state_io_rel shrinks m"
  by (simp add: state_io_rel_def consumes_def)

lemmas reading_u [reading] = consuming_u [THEN consuming_reading]

lemma consuming_bytes8 [consuming]: "state_io_rel consumes bytes8" "state_io_rel consumes bytes16"
  unfolding bytes8_def bytes16_def by (intro consuming reading)+

lemmas reading_bytes8 [reading] = consuming_bytes8 [THEN consuming_reading]

lemma reading_if [reading]: "state_io_rel shrinks m \<Longrightarrow> state_io_rel shrinks n \<Longrightarrow> state_io_rel shrinks (if c then m else n)"
  by simp

lemma reading_times [reading]: "state_io_rel shrinks m \<Longrightarrow> state_io_rel shrinks (rd_times n m)"
  by (induction n) (auto intro!: reading)

text \<open>The measure of the loops that go on while reads succeed and bytes are left.\<close>

definition left :: "mreader \<Rightarrow> nat" where
  "left r = (if mr_ok r then Suc (length (mr_b r)) else 0)"

lemma left_consumes: "consumes r r' \<Longrightarrow> mr_ok r \<Longrightarrow> left r' < left r"
  by (simp add: left_def consumes_def)

lemma left_run: "state_io_rel consumes m \<Longrightarrow> run_state m r = (x, r') \<Longrightarrow> mr_ok r \<Longrightarrow> left r' < left r"
  by (metis left_consumes state_io_relD)

subsection \<open>The descriptor loop\<close>

record Descriptor =
  md_Tag :: uint16
  md_Data :: bytes

definition descriptorLengthSize :: "uint16 \<Rightarrow> nat" where
  "descriptorLengthSize tag =
     (if tag \<ge> 0x4000 \<and> tag \<le> 0x6FFF \<or> tag \<ge> 0xF000 then 2
      else if tag \<ge> 0x7000 \<and> tag \<le> 0x7FFF then 4
      else 1)"

definition be_length :: "bytes \<Rightarrow> int" where
  "be_length b = foldl (\<lambda>len v. len * 256 + uint v) 0 b"

function parseDescriptors :: "bytes \<Rightarrow> mmt_error fault + Descriptor list" where
  "parseDescriptors b =
     (if b = [] then Inr []
      else if glen b < 2 then Inl (Err ErrInvalidMMTSection)
      else rbind (be16_at b 0) (\<lambda>tag.
        let sz = int (descriptorLengthSize tag)
        in if glen b < 2 + sz then Inl (Err ErrInvalidMMTSection)
           else rbind (gslice b 2 (2 + sz)) (\<lambda>field.
             let len = be_length field; off = 2 + sz
             in if len > glen b - off then Inl (Err ErrInvalidMMTSection)
                else rbind (gslice b off (off + len)) (\<lambda>data. rbind (gslice b (off + len) (glen b)) (\<lambda>rest.
                  rbind (parseDescriptors rest) (\<lambda>ds. Inr (\<lparr>md_Tag = tag, md_Data = data\<rparr> # ds)))))))"
  by pat_completeness auto
termination
  by (relation "measure length") (auto simp: gslice_eq_Inr_iff)

declare parseDescriptors.simps [simp del]

subsection \<open>Descriptors\<close>

definition tagged :: "uint16 \<Rightarrow> Descriptor \<Rightarrow> (bytes \<Rightarrow> mmt_error fault + 'a) \<Rightarrow> mmt_error fault + 'a" where
  "tagged tag d parse = (if md_Tag d \<noteq> tag then Inl (Err ErrInvalidMMTSection) else parse (md_Data d))"

record MHServiceDescriptor =
  sd_ServiceType :: byte
  sd_ServiceProviderName :: bytes
  sd_ServiceName :: bytes

definition ParseMHServiceDescriptor :: "Descriptor \<Rightarrow> mmt_error fault + MHServiceDescriptor" where
  "ParseMHServiceDescriptor d =
     tagged 0x8019 d (read_all (do {
       typ' \<leftarrow> u8; provider \<leftarrow> bytes8; name \<leftarrow> bytes8;
       State_Monad.return \<lparr>sd_ServiceType = typ', sd_ServiceProviderName = provider, sd_ServiceName = name\<rparr> }))"

record MHShortEventDescriptor =
  se_Language :: bytes
  se_EventName :: bytes
  se_Text :: bytes

definition ParseMHShortEventDescriptor :: "Descriptor \<Rightarrow> mmt_error fault + MHShortEventDescriptor" where
  "ParseMHShortEventDescriptor d =
     tagged 0xF001 d (read_all (do {
       language \<leftarrow> rd_bytes 3; name \<leftarrow> bytes8; txt' \<leftarrow> bytes16;
       State_Monad.return \<lparr>se_Language = language, se_EventName = name, se_Text = txt'\<rparr> }))"

record MHExtendedEventItem =
  ei_Description :: bytes
  ei_Item :: bytes

record MHExtendedEventDescriptor =
  ee_DescriptorNumber :: byte
  ee_LastDescriptorNumber :: byte
  ee_Language :: bytes
  ee_Items :: "MHExtendedEventItem list"
  ee_Text :: bytes

definition read_item :: "MHExtendedEventItem reading" where
  "read_item = do { d \<leftarrow> bytes8; i \<leftarrow> bytes16; State_Monad.return \<lparr>ei_Description = d, ei_Item = i\<rparr> }"

lemma consuming_item [consuming]: "state_io_rel consumes read_item"
  unfolding read_item_def by (intro consuming reading)

function items_loop :: "mreader \<Rightarrow> MHExtendedEventItem list \<times> mreader" where
  "items_loop r =
     (if mr_ok r \<and> mr_b r \<noteq> []
      then case run_state read_item r of (item, r') \<Rightarrow> (case items_loop r' of (items, r'') \<Rightarrow> (item # items, r''))
      else ([], r))"
  by pat_completeness auto
termination
  by (relation "measure left") (auto intro: left_run [OF consuming_item, OF sym])

declare items_loop.simps [simp del]

definition ParseMHExtendedEventDescriptor :: "Descriptor \<Rightarrow> mmt_error fault + MHExtendedEventDescriptor" where
  "ParseMHExtendedEventDescriptor d =
     tagged 0xF002 d (\<lambda>data.
       case run_state (do { numbers \<leftarrow> u8; language \<leftarrow> rd_bytes 3; items \<leftarrow> bytes16; txt' \<leftarrow> bytes16;
                            State_Monad.return (numbers, language, items, txt') }) (newReader data) of
         ((numbers, language, data, txt'), r) \<Rightarrow>
           (case items_loop (newReader data) of (items, ir) \<Rightarrow>
              if \<not> mr_ok ir then Inl (Err ErrInvalidMMTSection)
              else rd_result \<lparr>ee_DescriptorNumber = drop_bit 4 numbers, ee_LastDescriptorNumber = numbers AND 0x0f,
                     ee_Language = language, ee_Items = items, ee_Text = txt'\<rparr> r))"

record ExtendedEvent =
  xe_Language :: bytes
  xe_Items :: "(bytes \<times> bytes) list"
  xe_Text :: bytes

text \<open>The list of items is kept with its last item first.\<close>

definition join_item :: "(bytes \<times> bytes) list \<Rightarrow> MHExtendedEventItem \<Rightarrow> (bytes \<times> bytes) list" where
  "join_item items item =
     (if ei_Description item = [] \<and> items \<noteq> []
      then (fst (hd items), snd (hd items) @ ei_Item item) # tl items
      else (ei_Description item, ei_Item item) # items)"

definition JoinExtendedEvent :: "MHExtendedEventDescriptor list \<Rightarrow> ExtendedEvent" where
  "JoinExtendedEvent descriptors =
     (let sorted = sort_key ee_DescriptorNumber descriptors
      in \<lparr>xe_Language = (case sorted of [] \<Rightarrow> [] | d # _ \<Rightarrow> ee_Language d),
          xe_Items = rev (foldl join_item [] (concat (map ee_Items sorted))),
          xe_Text = concat (map ee_Text sorted)\<rparr>)"

record ContentGenre =
  cg_Level1 :: byte
  cg_Level2 :: byte
  cg_User1 :: byte
  cg_User2 :: byte

fun content_loop :: "bytes \<Rightarrow> mmt_error fault + ContentGenre list" where
  "content_loop [] = Inr []"
| "content_loop [b] = Inl Panic"
| "content_loop (b0 # b1 # b) =
     rbind (content_loop b) (\<lambda>gs. Inr (\<lparr>cg_Level1 = drop_bit 4 b0, cg_Level2 = b0 AND 0x0f, cg_User1 = drop_bit 4 b1, cg_User2 = b1 AND 0x0f\<rparr> # gs))"

definition ParseMHContentDescriptor :: "Descriptor \<Rightarrow> mmt_error fault + ContentGenre list" where
  "ParseMHContentDescriptor d =
     (if md_Tag d \<noteq> 0x8012 \<or> length (md_Data d) mod 2 \<noteq> 0 then Inl (Err ErrInvalidMMTSection) else content_loop (md_Data d))"

record VideoComponentDescriptor =
  vc_Resolution :: byte
  vc_AspectRatio :: byte
  vc_Progressive :: bool
  vc_FrameRate :: byte
  vc_ComponentTag :: uint16
  vc_TransferCharacteristics :: byte
  vc_Language :: bytes
  vc_Text :: bytes

text \<open>\<open>r.b\<close>: the bytes that are left.\<close>

definition rd_rest :: "bytes reading" where
  "rd_rest = State (\<lambda>r. (mr_b r, r))"

definition ParseVideoComponentDescriptor :: "Descriptor \<Rightarrow> mmt_error fault + VideoComponentDescriptor" where
  "ParseVideoComponentDescriptor d =
     tagged 0x8010 d (read_all (do {
       format \<leftarrow> u8; scan \<leftarrow> u8; tag \<leftarrow> u16; transfer \<leftarrow> u8; language \<leftarrow> rd_bytes 3; txt' \<leftarrow> rd_rest;
       State_Monad.return \<lparr>vc_Resolution = drop_bit 4 format, vc_AspectRatio = format AND 0x0f, vc_Progressive = (scan AND 0x80 \<noteq> 0),
         vc_FrameRate = scan AND 0x1f, vc_ComponentTag = tag, vc_TransferCharacteristics = drop_bit 4 transfer,
         vc_Language = language, vc_Text = txt'\<rparr> }))"

record MHAudioComponentDescriptor =
  ac_StreamContent :: byte
  ac_ComponentType :: byte
  ac_ComponentTag :: uint16
  ac_StreamType :: byte
  ac_SimulcastGroupTag :: byte
  ac_ESMultiLingual :: bool
  ac_MainComponent :: bool
  ac_QualityIndicator :: byte
  ac_SamplingRate :: byte
  ac_Language :: bytes
  ac_Language2 :: bytes
  ac_Text :: bytes

definition ParseMHAudioComponentDescriptor :: "Descriptor \<Rightarrow> mmt_error fault + MHAudioComponentDescriptor" where
  "ParseMHAudioComponentDescriptor d =
     tagged 0x8014 d (read_all (do {
       content \<leftarrow> u8; component \<leftarrow> u8; tag \<leftarrow> u16; stream \<leftarrow> u8; simulcast \<leftarrow> u8; flags \<leftarrow> u8; language \<leftarrow> rd_bytes 3;
       language2 \<leftarrow> (if flags AND 0x80 \<noteq> 0 then rd_bytes 3 else State_Monad.return []); txt' \<leftarrow> rd_rest;
       State_Monad.return \<lparr>ac_StreamContent = content AND 0x0f, ac_ComponentType = component, ac_ComponentTag = tag, ac_StreamType = stream,
         ac_SimulcastGroupTag = simulcast, ac_ESMultiLingual = (flags AND 0x80 \<noteq> 0), ac_MainComponent = (flags AND 0x40 \<noteq> 0),
         ac_QualityIndicator = drop_bit 4 flags AND 0x03, ac_SamplingRate = drop_bit 1 flags AND 0x07, ac_Language = language,
         ac_Language2 = language2, ac_Text = txt'\<rparr> }))"

definition SamplingRateHz :: "MHAudioComponentDescriptor \<Rightarrow> mmt_error fault + int" where
  "SamplingRateHz d = idx [0, 16000, 22050, 24000, 0, 32000, 44100, 48000] (uint (ac_SamplingRate d))"

record GroupEvent =
  ge_OriginalNetworkID :: uint16
  ge_TLVStreamID :: uint16
  ge_ServiceID :: uint16
  ge_EventID :: uint16

record MHEventGroupDescriptor =
  eg_GroupType :: byte
  eg_Events :: "GroupEvent list"
  eg_OtherNetworkEvents :: "GroupEvent list"
  eg_PrivateData :: bytes

definition read_group_event :: "GroupEvent reading" where
  "read_group_event = do { service \<leftarrow> u16; event \<leftarrow> u16;
     State_Monad.return \<lparr>ge_OriginalNetworkID = 0, ge_TLVStreamID = 0, ge_ServiceID = service, ge_EventID = event\<rparr> }"

definition read_other_event :: "GroupEvent reading" where
  "read_other_event = do { network \<leftarrow> u16; stream \<leftarrow> u16; service \<leftarrow> u16; event \<leftarrow> u16;
     State_Monad.return \<lparr>ge_OriginalNetworkID = network, ge_TLVStreamID = stream, ge_ServiceID = service, ge_EventID = event\<rparr> }"

text \<open>\<open>for len(r.b) > 0\<close>.\<close>

fun until_empty :: "nat \<Rightarrow> 'a reading \<Rightarrow> mreader \<Rightarrow> mmt_error fault + 'a list \<times> mreader" where
  "until_empty fuel m r =
     (if mr_b r = [] then Inr ([], r)
      else case fuel of
          0 \<Rightarrow> Inl Panic
        | Suc fuel \<Rightarrow> (case run_state m r of (x, r') \<Rightarrow>
            rbind (until_empty fuel m r') (\<lambda>(xs, r''). Inr (x # xs, r''))))"

declare until_empty.simps [simp del]

definition read_group_head :: "(byte \<times> GroupEvent list) reading" where
  "read_group_head = do { head \<leftarrow> u8; events \<leftarrow> rd_times (unat (head AND 0x0f)) read_group_event;
     State_Monad.return (drop_bit 4 head, events) }"

definition ParseMHEventGroupDescriptor :: "Descriptor \<Rightarrow> mmt_error fault + MHEventGroupDescriptor" where
  "ParseMHEventGroupDescriptor d =
     tagged 0x800C d (\<lambda>data.
       case run_state read_group_head (newReader data) of
         ((type, events), r) \<Rightarrow>
           if type = 4 \<or> type = 5 then
             (if length (mr_b r) mod 8 \<noteq> 0 then Inl (Err ErrInvalidMMTSection)
              else rbind (until_empty (length (mr_b r)) read_other_event r) (\<lambda>(others, r).
                rd_result \<lparr>eg_GroupType = type, eg_Events = events, eg_OtherNetworkEvents = others, eg_PrivateData = []\<rparr> r))
           else rd_result \<lparr>eg_GroupType = type, eg_Events = events, eg_OtherNetworkEvents = [], eg_PrivateData = mr_b r\<rparr> r)"

record MHSeriesDescriptor =
  sr_SeriesID :: uint16
  sr_RepeatLabel :: byte
  sr_ProgramPattern :: byte
  sr_ExpireDateValid :: bool
  sr_ExpireDate :: uint16
  sr_EpisodeNumber :: uint16
  sr_LastEpisodeNumber :: uint16
  sr_SeriesName :: bytes

definition ParseMHSeriesDescriptor :: "Descriptor \<Rightarrow> mmt_error fault + MHSeriesDescriptor" where
  "ParseMHSeriesDescriptor d =
     tagged 0x8016 d (read_all (do {
       series \<leftarrow> u16; flags \<leftarrow> u8; expire \<leftarrow> u16; episodes \<leftarrow> rd_bytes 3; name \<leftarrow> rd_rest;
       State_Monad.return \<lparr>sr_SeriesID = series, sr_RepeatLabel = drop_bit 4 flags, sr_ProgramPattern = drop_bit 1 flags AND 0x07,
         sr_ExpireDateValid = (flags AND 0x01 \<noteq> 0), sr_ExpireDate = expire,
         sr_EpisodeNumber = (case episodes of [a, b, c] \<Rightarrow> push_bit 4 (ucast a) OR ucast (drop_bit 4 b) | _ \<Rightarrow> 0),
         sr_LastEpisodeNumber = (case episodes of [a, b, c] \<Rightarrow> be16 (b AND 0x0f) c | _ \<Rightarrow> 0),
         sr_SeriesName = name\<rparr> }))"

definition ParseMHStreamIdentifierDescriptor :: "Descriptor \<Rightarrow> mmt_error fault + uint16" where
  "ParseMHStreamIdentifierDescriptor d =
     (if md_Tag d \<noteq> 0x8011 \<or> glen (md_Data d) < 2 then Inl (Err ErrInvalidMMTSection) else be16_at (md_Data d) 0)"

fun rating_loop :: "bytes \<Rightarrow> mmt_error fault + (bytes \<times> byte) list" where
  "rating_loop [] = Inr []"
| "rating_loop (a # b # c # r # rest) = rbind (rating_loop rest) (\<lambda>rs. Inr (([a, b, c], r) # rs))"
| "rating_loop b = Inl Panic"

definition ParseMHParentalRatingDescriptor :: "Descriptor \<Rightarrow> mmt_error fault + (bytes \<times> byte) list" where
  "ParseMHParentalRatingDescriptor d =
     (if md_Tag d \<noteq> 0x8013 \<or> length (md_Data d) mod 4 \<noteq> 0 then Inl (Err ErrInvalidMMTSection) else rating_loop (md_Data d))"

record MHLogoTransmissionDescriptor =
  lt_TransmissionType :: byte
  lt_LogoID :: uint16
  lt_LogoVersion :: uint16
  lt_DownloadDataID :: uint16
  lt_LogoTypes :: "(byte \<times> byte \<times> byte) list"
  lt_SimpleLogo :: bytes

definition read_logo_type :: "(byte \<times> byte \<times> byte) reading" where
  "read_logo_type = do { type \<leftarrow> u8; start \<leftarrow> u8; num \<leftarrow> u8; State_Monad.return (type, start, num) }"

definition read_logo_ids :: "(uint16 \<times> uint16 \<times> uint16) reading" where
  "read_logo_ids = do { i \<leftarrow> u16; version \<leftarrow> u16; download \<leftarrow> u16; State_Monad.return (i, version, download) }"

definition ParseMHLogoTransmissionDescriptor :: "Descriptor \<Rightarrow> mmt_error fault + MHLogoTransmissionDescriptor" where
  "ParseMHLogoTransmissionDescriptor d =
     tagged 0x8025 d (\<lambda>data.
       case run_state u8 (newReader data) of (type, r) \<Rightarrow>
         let out = \<lparr>lt_TransmissionType = type, lt_LogoID = 0, lt_LogoVersion = 0, lt_DownloadDataID = 0, lt_LogoTypes = [], lt_SimpleLogo = []\<rparr>
         in if type = 0x01 then
              (case run_state read_logo_ids r of
                 ((i, version, download), r) \<Rightarrow>
                   let out = out\<lparr>lt_LogoID := i AND 0x01ff, lt_LogoVersion := version AND 0x0fff, lt_DownloadDataID := download\<rparr>
                   in if length (mr_b r) mod 3 \<noteq> 0 then Inl (Err ErrInvalidMMTSection)
                   else rbind (until_empty (length (mr_b r)) read_logo_type r) (\<lambda>(types, r). rd_result (out\<lparr>lt_LogoTypes := types\<rparr>) r))
            else if type = 0x02 then (case run_state u16 r of (i, r) \<Rightarrow> rd_result (out\<lparr>lt_LogoID := i AND 0x01ff\<rparr>) r)
            else if type = 0x03 then rd_result (out\<lparr>lt_SimpleLogo := mr_b r\<rparr>) r
            else rd_result out r)"

text \<open>\<open>netip.AddrFromSlice\<close>: invalid unless there are 4 or 16 bytes.\<close>

definition AddrFromSlice :: "bytes \<Rightarrow> Addr" where
  "AddrFromSlice b = (if length b = 4 then IPv4 b else if length b = 16 then IPv6 b else NoAddr)"

record IPDataFlowEntry =
  fe_ID :: byte
  fe_Flow :: IPDataFlow
  fe_SourcePort :: uint16

definition read_flow_entry :: "int \<Rightarrow> IPDataFlowEntry reading" where
  "read_flow_entry sz = do { i \<leftarrow> u8; src \<leftarrow> rd_bytes sz; dst \<leftarrow> rd_bytes sz; sport \<leftarrow> u16; dport \<leftarrow> u16;
     State_Monad.return \<lparr>fe_ID = i, fe_Flow = \<lparr>fl_Source = AddrFromSlice src, fl_Destination = AddrFromSlice dst, fl_DestinationPort = dport\<rparr>,
       fe_SourcePort = sport\<rparr> }"

fun flow_loop :: "nat \<Rightarrow> int \<Rightarrow> mreader \<Rightarrow> mmt_error fault + IPDataFlowEntry list \<times> mreader" where
  "flow_loop 0 sz r = Inr ([], r)"
| "flow_loop (Suc n) sz r =
     (case run_state (read_flow_entry sz) r of (e, r) \<Rightarrow>
        if fl_Source (fe_Flow e) = NoAddr \<or> fl_Destination (fe_Flow e) = NoAddr then Inl (Err ErrInvalidMMTSection)
        else rbind (flow_loop n sz r) (\<lambda>(es, r). Inr (e # es, r)))"

definition ParseIPDataFlowDescriptor :: "Descriptor \<Rightarrow> mmt_error fault + IPDataFlowEntry list" where
  "ParseIPDataFlowDescriptor d =
     tagged 0x801A d (\<lambda>data.
       case run_state u8 (newReader data) of (flags, r) \<Rightarrow>
         rbind (flow_loop (unat (flags AND 0x7f)) (if flags AND 0x80 \<noteq> 0 then 16 else 4) r) (\<lambda>(entries, r).
           if \<not> mr_ok r then Inl (Err ErrInvalidMMTSection)
           else if mr_b r \<noteq> [] then Inl (Err ErrInvalidMMTSection)
           else Inr entries))"

subsection \<open>The parsers return\<close>

lemma safe_rd_result [simp]: "safe (rd_result x r)"
  by (simp add: rd_result_def)

lemma safe_read_all [simp]: "safe (read_all m data)"
  by (simp add: read_all_def split: prod.split)

lemma safe_tagged: "(\<And>data. safe (parse data)) \<Longrightarrow> safe (tagged tag d parse)"
  by (simp add: tagged_def)

lemma parseDescriptors_safe: "safe (parseDescriptors b)"
proof (induction b rule: parseDescriptors.induct)
  case (1 b)
  have len: "0 \<le> be_length f" for f
    unfolding be_length_def by (induction f rule: rev_induct) simp_all
  show ?case by (subst parseDescriptors.simps) (auto intro!: safe_rbind 1 simp: safe_gslice Let_def len)
qed

lemma content_loop_safe: "length b mod 2 = 0 \<Longrightarrow> safe (content_loop b)"
  by (induction b rule: content_loop.induct) (auto intro!: safe_rbind)

lemma rating_loop_safe: "length b mod 4 = 0 \<Longrightarrow> safe (rating_loop b)"
  by (induction b rule: rating_loop.induct) (auto intro!: safe_rbind)

lemma flow_loop_safe: "safe (flow_loop n sz r)"
  by (induction n arbitrary: r) (auto intro!: safe_rbind split: prod.split)

text \<open>The loops without a check: the reads before them fail only when less than two bytes are left,
  and then the length test in front of the loop lets it run only over the empty rest; otherwise
  every round uses up its whole record.\<close>

definition tight :: "mreader \<Rightarrow> bool" where
  "tight r \<longleftrightarrow> mr_ok r \<or> length (mr_b r) < 2"

definition keeps_tight :: "mreader \<Rightarrow> mreader \<Rightarrow> bool" where
  "keeps_tight r r' \<longleftrightarrow> (tight r \<longrightarrow> tight r')"

named_theorems tight_reads \<open>reads that fail only near the end\<close>

lemma tight_return [tight_reads]: "state_io_rel keeps_tight (State_Monad.return x)"
  by (simp add: state_io_rel_def keeps_tight_def)

lemma tight_bind [tight_reads]:
  "state_io_rel keeps_tight m \<Longrightarrow> (\<And>x. state_io_rel keeps_tight (f x)) \<Longrightarrow> state_io_rel keeps_tight (State_Monad.bind m f)"
  by (force simp: state_io_rel_def keeps_tight_def split: prod.split)

lemma tight_u [tight_reads]: "state_io_rel keeps_tight u8" "state_io_rel keeps_tight u16"
  by (auto simp: state_io_rel_def keeps_tight_def tight_def u8_def u16_def rd_bytes_def split: prod.split)

lemma tight_times [tight_reads]: "state_io_rel keeps_tight m \<Longrightarrow> state_io_rel keeps_tight (rd_times n m)"
  by (induction n) (auto intro!: tight_reads)

lemma tight_run: "state_io_rel keeps_tight m \<Longrightarrow> tight r \<Longrightarrow> run_state m r = (x, r') \<Longrightarrow> tight r'"
  by (auto simp: keeps_tight_def dest!: state_io_relD)

lemma tight_new [simp]: "tight (newReader b)"
  by (simp add: tight_def newReader_def)

definition reads_record :: "nat \<Rightarrow> 'a reading \<Rightarrow> bool" where
  "reads_record k m \<longleftrightarrow>
     (\<forall>r. mr_ok r \<and> k \<le> length (mr_b r) \<longrightarrow> mr_ok (snd (run_state m r)) \<and> mr_b (snd (run_state m r)) = drop k (mr_b r))"

lemma until_empty_safe:
  assumes m: "reads_record k m" "0 < k"
  shows "mr_ok r \<or> mr_b r = [] \<Longrightarrow> length (mr_b r) mod k = 0 \<Longrightarrow> length (mr_b r) \<le> fuel \<Longrightarrow> safe (until_empty fuel m r)"
proof (induction fuel arbitrary: r)
  case (Suc fuel)
  show ?case
  proof (cases "mr_b r = []")
    case False
    then have k: "k \<le> length (mr_b r)" using Suc.prems(2) m(2) by (metis length_greater_0_conv mod_less not_le not_less_iff_gr_or_eq)
    obtain x r' where r': "run_state m r = (x, r')" by fastforce
    then have "mr_ok r' \<and> mr_b r' = drop k (mr_b r)" using m(1) k False Suc.prems(1) by (auto simp: reads_record_def)
    moreover have "(length (mr_b r) - k) mod k = 0" using Suc.prems(2) k by (metis le_mod_geq)
    ultimately have "safe (until_empty fuel m r')" using Suc k m(2) by (intro Suc.IH) auto
    then show ?thesis using r' False by (subst until_empty.simps) (auto intro!: safe_rbind)
  qed (simp add: until_empty.simps)
qed (simp add: until_empty.simps)

lemma tight_loop:
  assumes "tight r" "k dvd length (mr_b r)" "2 \<le> k" "reads_record k m"
  shows "safe (until_empty (length (mr_b r)) m r)"
proof (rule until_empty_safe [OF assms(4)])
  show "mr_ok r \<or> mr_b r = []" using assms(1-3) by (cases "mr_b r") (auto simp: tight_def dest: dvd_imp_le)
qed (use assms in auto)

lemma record_other_event: "reads_record 8 read_other_event"
  by (auto simp: reads_record_def read_other_event_def u16_def rd_bytes_def split: prod.split)

lemma record_logo_type: "reads_record 3 read_logo_type"
  by (auto simp: reads_record_def read_logo_type_def u8_def rd_bytes_def numeral_3_eq_3 split: prod.split)

lemma descriptors_safe:
  "safe (ParseMHServiceDescriptor d)" "safe (ParseMHShortEventDescriptor d)" "safe (ParseMHExtendedEventDescriptor d)"
  "safe (ParseMHContentDescriptor d)" "safe (ParseVideoComponentDescriptor d)" "safe (ParseMHAudioComponentDescriptor d)"
  "safe (ParseMHSeriesDescriptor d)" "safe (ParseMHStreamIdentifierDescriptor d)" "safe (ParseMHParentalRatingDescriptor d)"
  "safe (ParseIPDataFlowDescriptor d)"
  by (auto simp: ParseMHServiceDescriptor_def ParseMHShortEventDescriptor_def ParseMHExtendedEventDescriptor_def
      ParseMHContentDescriptor_def ParseVideoComponentDescriptor_def ParseMHAudioComponentDescriptor_def
      ParseMHSeriesDescriptor_def ParseMHStreamIdentifierDescriptor_def ParseMHParentalRatingDescriptor_def
      ParseIPDataFlowDescriptor_def content_loop_safe rating_loop_safe flow_loop_safe
      intro!: safe_tagged safe_rbind split: prod.split)

lemma tight_heads [tight_reads]: "state_io_rel keeps_tight read_group_head" "state_io_rel keeps_tight read_logo_ids"
  unfolding read_group_head_def read_group_event_def read_logo_ids_def by (intro tight_reads)+

lemma ParseMHEventGroupDescriptor_safe: "safe (ParseMHEventGroupDescriptor d)"
  unfolding ParseMHEventGroupDescriptor_def
  by (rule safe_tagged)
    (auto intro!: safe_rbind tight_loop [OF _ _ _ record_other_event] dest!: tight_run [OF tight_heads(1) tight_new] split: prod.split)

lemma ParseMHLogoTransmissionDescriptor_safe: "safe (ParseMHLogoTransmissionDescriptor d)"
  unfolding ParseMHLogoTransmissionDescriptor_def Let_def
  by (rule safe_tagged)
    (auto intro!: safe_rbind tight_loop [OF _ _ _ record_logo_type] dest!: tight_run [OF tight_u(1) tight_new]
      dest: tight_run [OF tight_heads(2)] split: prod.split)

end
