(* ===== verification/MmtTables.thy ===== *)
theory MmtTables
  imports MmtReader Eit
begin

text \<open>
  The tables of MMT-SI and TLV-SI: the long section syntax and the time fields (\<open>mmt/section.go\<close>),
  MPT and PLT (\<open>mmt/mpt.go\<close>, \<open>mmt/plt.go\<close>), MH-EIT, MH-SDT, MH-TOT, MH-BIT and MH-CDT
  (\<open>mmt/eit.go\<close>, \<open>sdt.go\<close>, \<open>tot.go\<close>, \<open>bit.go\<close>, \<open>logo.go\<close>) and TLV-NIT (\<open>mmt/tlvnit.go\<close>). Times
  are as in \<open>Eit\<close>: Unix seconds, durations in nanoseconds.
\<close>

subsection \<open>Sections\<close>

definition mmt_crc32MPEG2Table :: "uint32 list" where
  "mmt_crc32MPEG2Table =
     map (\<lambda>i. ((\<lambda>crc. if crc AND 0x80000000 \<noteq> 0 then push_bit 1 crc XOR 0x04c11db7 else push_bit 1 crc) ^^ 8) (push_bit 24 (of_nat i))) [0..<256]"

definition mmt_crc32MPEG2 :: "bytes \<Rightarrow> uint32" where
  "mmt_crc32MPEG2 data =
     foldl (\<lambda>crc b. push_bit 8 crc XOR mmt_crc32MPEG2Table ! unat (ucast (drop_bit 24 crc) XOR b)) 0xffffffff data"

lemma mmt_crc_eq: "mmt_crc32MPEG2 = crc32MPEG2"
proof -
  have table: "mmt_crc32MPEG2Table = makeCRC32MPEG2Table"
    by (simp add: mmt_crc32MPEG2Table_def makeCRC32MPEG2Table_def crc_shift_def [abs_def])
  have "(\<lambda>crc b. push_bit 8 crc XOR mmt_crc32MPEG2Table ! unat (ucast (drop_bit 24 crc) XOR b)) = crc32MPEG2_update"
    by (intro ext) (simp add: crc32MPEG2_update_def table)
  then show ?thesis by (intro ext) (simp add: mmt_crc32MPEG2_def crc32MPEG2_def)
qed

definition mmt_ValidateCRC :: "bytes \<Rightarrow> mmt_error fault + bool" where
  "mmt_ValidateCRC s =
     (if glen s < 7 then Inr False
      else rbind (mmt_TotalLength s) (\<lambda>total. if total > glen s then Inr False
      else rbind (gslice s 0 total) (\<lambda>t. Inr (mmt_crc32MPEG2 t = 0))))"

record mmt_header =
  hd_TableID :: byte
  hd_TableIDExtension :: uint16
  hd_VersionNumber :: byte
  hd_CurrentNextIndicator :: bool
  hd_SectionNumber :: byte
  hd_LastSectionNumber :: byte

definition parseLongSection :: "bytes \<Rightarrow> int \<Rightarrow> byte list \<Rightarrow> mmt_error fault + mmt_header \<times> bytes" where
  "parseLongSection s minBody tableIDs =
     (if glen s < 8 + minBody + 4 then Inl (Err ErrInvalidMMTSection)
      else rbind (idx s 1) (\<lambda>b1. if b1 AND 0x80 = 0 then Inl (Err ErrInvalidMMTSection)
      else rbind (mmt_ValidateCRC s) (\<lambda>valid. if \<not> valid then Inl (Err ErrInvalidMMTSection)
      else rbind (idx s 0) (\<lambda>tid. if tid \<notin> set tableIDs then Inl (Err ErrInvalidMMTSection)
      else rbind (mmt_TotalLength s) (\<lambda>total.
        let end' = total - 4
        in if end' < 8 + minBody then Inl (Err ErrInvalidMMTSection)
           else rbind (be16_at s 3) (\<lambda>ext. rbind (idx s 5) (\<lambda>b5. rbind (idx s 6) (\<lambda>b6. rbind (idx s 7) (\<lambda>b7.
             rbind (gslice s 8 end') (\<lambda>body.
               Inr (\<lparr>hd_TableID = tid, hd_TableIDExtension = ext, hd_VersionNumber = drop_bit 1 b5 AND 0x1f,
                     hd_CurrentNextIndicator = (b5 AND 0x01 \<noteq> 0), hd_SectionNumber = b6, hd_LastSectionNumber = b7\<rparr>, body)))))))))))"

subsection \<open>Time fields\<close>

definition mmt_decodeBCD :: "byte \<Rightarrow> int \<times> bool" where
  "mmt_decodeBCD b =
     (let high = uint (drop_bit 4 b); low = uint (b AND 0x0f) in (high * 10 + low, high \<le> 9 \<and> low \<le> 9))"

text \<open>The duration in seconds.\<close>

definition mmt_parseBCDTime :: "bytes \<Rightarrow> int \<Rightarrow> mmt_error fault + int" where
  "mmt_parseBCDTime b maxHour =
     rbind (idx b 0) (\<lambda>b0. rbind (idx b 1) (\<lambda>b1. rbind (idx b 2) (\<lambda>b2.
       let (hour, ok1) = mmt_decodeBCD b0; (minute, ok2) = mmt_decodeBCD b1; (second, ok3) = mmt_decodeBCD b2
       in if \<not> ok1 \<or> \<not> ok2 \<or> \<not> ok3 \<or> hour > maxHour \<or> minute > 59 \<or> second > 59 then Inl (Err ErrInvalidMMTSection)
          else Inr (hour * 3600 + minute * 60 + second))))"

definition mmt_parseMJDTime :: "bytes \<Rightarrow> mmt_error fault + int" where
  "mmt_parseMJDTime b =
     rbind (gslice b 0 5) (\<lambda>t. if allBytes t 0xff then Inr zeroTime
     else rbind (gslice b 2 5) (\<lambda>f. rbind (mmt_parseBCDTime f 23) (\<lambda>hms.
       rbind (be16_at b 0) (\<lambda>mjd. Inr (time_Date 1858 11 (17 + uint mjd) 0 0 0 jst + hms)))))"

definition mmt_parseBCDDuration :: "bytes \<Rightarrow> mmt_error fault + int" where
  "mmt_parseBCDDuration b =
     rbind (gslice b 0 3) (\<lambda>d. if allBytes d 0xff then Inr 0
     else rbind (mmt_parseBCDTime d 99) (\<lambda>t. Inr (t * 1000000000)))"

subsection \<open>MPT and PLT\<close>

record GeneralLocationInfo =
  gl_LocationType :: byte
  gl_PacketID :: uint16
  gl_Source :: Addr
  gl_Destination :: Addr
  gl_DestinationPort :: uint16
  gl_NetworkID :: uint16
  gl_TransportStreamID :: uint16
  gl_PID :: uint16
  gl_URL :: bytes

definition no_location :: "byte \<Rightarrow> GeneralLocationInfo" where
  "no_location type =
     \<lparr>gl_LocationType = type, gl_PacketID = 0, gl_Source = NoAddr, gl_Destination = NoAddr, gl_DestinationPort = 0, gl_NetworkID = 0,
      gl_TransportStreamID = 0, gl_PID = 0, gl_URL = []\<rparr>"

definition rd_fail :: "unit reading" where
  "rd_fail = State (\<lambda>r. ((), r\<lparr>mr_ok := False\<rparr>))"

text \<open>Two addresses of \<open>n\<close> bytes each, invalid if they cannot be read.\<close>

definition read_addrs :: "nat \<Rightarrow> (bytes \<Rightarrow> Addr) \<Rightarrow> (Addr \<times> Addr) reading" where
  "read_addrs n f = do { b \<leftarrow> rd_bytes (2 * int n);
     State_Monad.return (if b = [] then (NoAddr, NoAddr) else (f (take n b), f (drop n b))) }"

definition readGeneralLocationInfo :: "GeneralLocationInfo reading" where
  "readGeneralLocationInfo = do {
     type \<leftarrow> u8;
     if type = 0x00 then do { pid \<leftarrow> u16; State_Monad.return ((no_location type)\<lparr>gl_PacketID := pid\<rparr>) }
     else if type = 0x01 then do {
       (src, dst) \<leftarrow> read_addrs 4 IPv4; port \<leftarrow> u16; pid \<leftarrow> u16;
       State_Monad.return ((no_location type)\<lparr>gl_Source := src, gl_Destination := dst, gl_DestinationPort := port, gl_PacketID := pid\<rparr>) }
     else if type = 0x02 \<or> type = 0x04 then do {
       (src, dst) \<leftarrow> read_addrs 16 IPv6; port \<leftarrow> u16; pid \<leftarrow> u16;
       let loc = (no_location type)\<lparr>gl_Source := src, gl_Destination := dst, gl_DestinationPort := port\<rparr>;
       State_Monad.return (if type = 0x02 then loc\<lparr>gl_PacketID := pid\<rparr> else loc\<lparr>gl_PID := pid AND 0x1fff\<rparr>) }
     else if type = 0x03 then do {
       network \<leftarrow> u16; stream \<leftarrow> u16; pid \<leftarrow> u16;
       State_Monad.return ((no_location type)\<lparr>gl_NetworkID := network, gl_TransportStreamID := stream, gl_PID := pid AND 0x1fff\<rparr>) }
     else if type = 0x05 then do { url \<leftarrow> bytes8; State_Monad.return ((no_location type)\<lparr>gl_URL := url\<rparr>) }
     else do { _ \<leftarrow> rd_fail; State_Monad.return (no_location type) } }"

record MPTAsset =
  as_IdentifierType :: byte
  as_AssetIDScheme :: uint32
  as_AssetID :: bytes
  as_AssetType :: bytes
  as_Locations :: "GeneralLocationInfo list"
  as_Descriptors :: "Descriptor list"

record MPT =
  mt_TableID :: byte
  mt_Version :: byte
  mt_Mode :: byte
  mt_PackageID :: bytes
  mt_Descriptors :: "Descriptor list"
  mt_Assets :: "MPTAsset list"

definition packageServiceID :: "bytes \<Rightarrow> uint16" where
  "packageServiceID b =
     (case rev b of [] \<Rightarrow> 0 | [x] \<Rightarrow> ucast x | y # x # _ \<Rightarrow> be16 x y)"

definition table_body :: "(byte \<Rightarrow> bool) \<Rightarrow> bytes \<Rightarrow> mmt_error fault + bytes" where
  "table_body isTableID t =
     (if glen t < 4 then Inl (Err ErrInvalidMMTSection)
      else rbind (idx t 0) (\<lambda>tid. if \<not> isTableID tid then Inl (Err ErrInvalidMMTSection)
      else rbind (be16_at t 2) (\<lambda>len. if 4 + uint len > glen t then Inl (Err ErrInvalidMMTSection)
      else gslice t 4 (4 + uint len))))"

definition IsMPT :: "byte \<Rightarrow> bool" where
  "IsMPT tableID \<longleftrightarrow> tableID \<ge> 0x11 \<and> tableID \<le> 0x20"

text \<open>An asset up to its descriptors, and the bytes of those.\<close>

definition read_asset :: "(MPTAsset \<times> bytes) reading" where
  "read_asset = do {
     type \<leftarrow> u8; scheme \<leftarrow> u32; aid \<leftarrow> bytes8; assetType \<leftarrow> rd_bytes 4; clock \<leftarrow> u8;
     _ \<leftarrow> (if clock AND 0x01 \<noteq> 0 then do {
             _ \<leftarrow> u8; timescale \<leftarrow> u8;
             (if timescale AND 0x01 \<noteq> 0 then do { _ \<leftarrow> u32; State_Monad.return () } else State_Monad.return ()) }
           else State_Monad.return ());
     n \<leftarrow> u8; locations \<leftarrow> rd_times (unat n) readGeneralLocationInfo; d \<leftarrow> bytes16;
     State_Monad.return (\<lparr>as_IdentifierType = type, as_AssetIDScheme = scheme, as_AssetID = aid, as_AssetType = assetType,
       as_Locations = locations, as_Descriptors = []\<rparr>, d) }"

fun mpt_assets :: "nat \<Rightarrow> mreader \<Rightarrow> mmt_error fault + MPTAsset list \<times> mreader" where
  "mpt_assets 0 r = Inr ([], r)"
| "mpt_assets (Suc n) r =
     (case run_state read_asset r of ((asset, d), r) \<Rightarrow>
        rbind (parseDescriptors d) (\<lambda>ds.
          if \<not> mr_ok r then Inl (Err ErrInvalidMMTSection)
          else rbind (mpt_assets n r) (\<lambda>(as, r). Inr (asset\<lparr>as_Descriptors := ds\<rparr> # as, r))))"

definition read_mpt_head :: "(byte \<times> bytes \<times> bytes) reading" where
  "read_mpt_head = do { mode \<leftarrow> u8; package \<leftarrow> bytes8; d \<leftarrow> bytes16; State_Monad.return (mode AND 0x03, package, d) }"

definition ParseMPT :: "bytes \<Rightarrow> mmt_error fault + MPT" where
  "ParseMPT t =
     rbind (table_body IsMPT t) (\<lambda>body. rbind (idx t 0) (\<lambda>tid. rbind (idx t 1) (\<lambda>version.
       case run_state read_mpt_head (newReader body) of ((mode, package, d), r) \<Rightarrow>
         rbind (parseDescriptors d) (\<lambda>ds.
           case run_state u8 r of (n, r) \<Rightarrow>
             rbind (mpt_assets (unat n) r) (\<lambda>(assets, r).
               rd_result \<lparr>mt_TableID = tid, mt_Version = version, mt_Mode = mode, mt_PackageID = package, mt_Descriptors = ds, mt_Assets = assets\<rparr> r)))))"

record PLTPackage =
  pp_PackageID :: bytes
  pp_Location :: GeneralLocationInfo

record PLTIPDelivery =
  pd_TransportFileID :: uint32
  pd_LocationType :: byte
  pd_Source :: Addr
  pd_Destination :: Addr
  pd_DestinationPort :: uint16
  pd_URL :: bytes
  pd_Descriptors :: "Descriptor list"

record PLT =
  pl_Version :: byte
  pl_Packages :: "PLTPackage list"
  pl_IPDeliveries :: "PLTIPDelivery list"

definition read_package :: "PLTPackage reading" where
  "read_package = do { package \<leftarrow> bytes8; loc \<leftarrow> readGeneralLocationInfo; State_Monad.return \<lparr>pp_PackageID = package, pp_Location = loc\<rparr> }"

text \<open>The delivery and the bytes of its descriptors; nothing for an unknown location type.\<close>

definition read_delivery :: "(PLTIPDelivery \<times> bytes) option reading" where
  "read_delivery = do {
     file \<leftarrow> u32; type \<leftarrow> u8;
     let out = \<lparr>pd_TransportFileID = file, pd_LocationType = type, pd_Source = NoAddr, pd_Destination = NoAddr, pd_DestinationPort = 0,
                pd_URL = [], pd_Descriptors = []\<rparr>;
     if type = 0x01 then do {
       (src, dst) \<leftarrow> read_addrs 4 IPv4; port \<leftarrow> u16; d \<leftarrow> bytes16;
       State_Monad.return (Some (out\<lparr>pd_Source := src, pd_Destination := dst, pd_DestinationPort := port\<rparr>, d)) }
     else if type = 0x02 then do {
       (src, dst) \<leftarrow> read_addrs 16 IPv6; port \<leftarrow> u16; d \<leftarrow> bytes16;
       State_Monad.return (Some (out\<lparr>pd_Source := src, pd_Destination := dst, pd_DestinationPort := port\<rparr>, d)) }
     else if type = 0x05 then do { url \<leftarrow> bytes8; d \<leftarrow> bytes16; State_Monad.return (Some (out\<lparr>pd_URL := url\<rparr>, d)) }
     else State_Monad.return None }"

fun plt_deliveries :: "nat \<Rightarrow> mreader \<Rightarrow> mmt_error fault + PLTIPDelivery list \<times> mreader" where
  "plt_deliveries 0 r = Inr ([], r)"
| "plt_deliveries (Suc n) r =
     (case run_state read_delivery r of
        (None, r) \<Rightarrow> Inl (Err ErrInvalidMMTSection)
      | (Some (out, d), r) \<Rightarrow>
          rbind (parseDescriptors d) (\<lambda>ds.
            if \<not> mr_ok r then Inl (Err ErrInvalidMMTSection)
            else rbind (plt_deliveries n r) (\<lambda>(outs, r). Inr (out\<lparr>pd_Descriptors := ds\<rparr> # outs, r))))"

definition read_plt_head :: "(PLTPackage list \<times> byte) reading" where
  "read_plt_head = do { n \<leftarrow> u8; packages \<leftarrow> rd_times (unat n) read_package; k \<leftarrow> u8; State_Monad.return (packages, k) }"

definition ParsePLT :: "bytes \<Rightarrow> mmt_error fault + PLT" where
  "ParsePLT t =
     rbind (table_body (\<lambda>tid. tid = 0x80) t) (\<lambda>body. rbind (idx t 1) (\<lambda>version.
       case run_state read_plt_head (newReader body) of ((packages, k), r) \<Rightarrow>
         rbind (plt_deliveries (unat k) r) (\<lambda>(deliveries, r).
           rd_result \<lparr>pl_Version = version, pl_Packages = packages, pl_IPDeliveries = deliveries\<rparr> r)))"

subsection \<open>MH-EIT, MH-SDT, MH-BIT, MH-CDT, MH-TOT\<close>

record MHEITEvent =
  ev_EventID :: uint16
  ev_StartTime :: int
  ev_Duration :: int
  ev_RunningStatus :: byte
  ev_FreeCAMode :: bool
  ev_Descriptors :: "Descriptor list"

record MHEIT =
  me_Header :: mmt_header
  me_ServiceID :: uint16
  me_TLVStreamID :: uint16
  me_OriginalNetworkID :: uint16
  me_SegmentLastSectionNumber :: byte
  me_LastTableID :: byte
  me_Events :: "MHEITEvent list"

definition IsMHEITPF :: "byte \<Rightarrow> bool" where
  "IsMHEITPF tableID \<longleftrightarrow> tableID = 0x8B"

definition IsMHEITSchedule :: "byte \<Rightarrow> bool" where
  "IsMHEITSchedule tableID \<longleftrightarrow> tableID \<ge> 0x8C \<and> tableID \<le> 0x9B"

definition read_event_head :: "(uint16 \<times> bytes) reading" where
  "read_event_head = do { i \<leftarrow> u16; tms \<leftarrow> rd_bytes 8; State_Monad.return (i, tms) }"

text \<open>The flags and the bytes of the descriptors that their low twelve bits count.\<close>

definition read_flagged :: "(uint16 \<times> bytes) reading" where
  "read_flagged = do { flags \<leftarrow> u16; d \<leftarrow> rd_bytes (uint (flags AND 0x0fff)); State_Monad.return (flags, d) }"

lemma consuming_heads [consuming]: "state_io_rel consumes read_event_head" "state_io_rel consumes read_flagged"
  unfolding read_event_head_def read_flagged_def by (intro consuming reading)+

lemma left_two:
  assumes "state_io_rel consumes m" "state_io_rel shrinks n" "(x, r') = run_state m r" "(y, r'') = run_state n r'" "mr_ok r"
  shows "left r'' < left r"
proof -
  have "consumes r r'" and "shrinks r' r''" using state_io_relD [OF assms(1) assms(3) [symmetric]] state_io_relD [OF assms(2) assms(4) [symmetric]] by blast+
  then have "consumes r r''" by (rule consumes_trans)
  then show ?thesis using assms(5) by (rule left_consumes)
qed

definition event_times :: "bytes \<Rightarrow> mmt_error fault + int \<times> int" where
  "event_times tms =
     rbind (gslice tms 0 5) (\<lambda>t. rbind (mmt_parseMJDTime t) (\<lambda>start.
       rbind (gslice tms 5 8) (\<lambda>u. rbind (mmt_parseBCDDuration u) (\<lambda>duration. Inr (start, duration)))))"

definition event_of :: "uint16 \<Rightarrow> int \<times> int \<Rightarrow> uint16 \<Rightarrow> Descriptor list \<Rightarrow> MHEITEvent" where
  "event_of i tms flags ds =
     \<lparr>ev_EventID = i, ev_StartTime = fst tms, ev_Duration = snd tms, ev_RunningStatus = ucast (drop_bit 13 flags),
      ev_FreeCAMode = (flags AND 0x1000 \<noteq> 0), ev_Descriptors = ds\<rparr>"

function mheit_loop :: "mreader \<Rightarrow> mmt_error fault + MHEITEvent list \<times> mreader" where
  "mheit_loop r =
     (if mr_ok r \<and> mr_b r \<noteq> [] then
        (case run_state read_event_head r of ((i, tms), r1) \<Rightarrow>
           if tms = [] then Inr ([], r1)
           else rbind (event_times tms) (\<lambda>at.
             case run_state read_flagged r1 of ((flags, d), r2) \<Rightarrow>
               if \<not> mr_ok r2 then Inl (Err ErrInvalidMMTSection)
               else rbind (parseDescriptors d) (\<lambda>ds. rbind (mheit_loop r2) (\<lambda>(events, r3).
                 Inr (event_of i at flags ds # events, r3)))))
      else Inr ([], r))"
  by pat_completeness auto
termination
  by (relation "measure left") (auto intro: left_two [OF consuming_heads(1) consuming_heads(2) [THEN consuming_reading]])

declare mheit_loop.simps [simp del]

definition read_eit_head :: "(uint16 \<times> uint16 \<times> byte \<times> byte) reading" where
  "read_eit_head = do { stream \<leftarrow> u16; network \<leftarrow> u16; seg \<leftarrow> u8; tid \<leftarrow> u8; State_Monad.return (stream, network, seg, tid) }"

definition ParseMHEIT :: "bytes \<Rightarrow> mmt_error fault + MHEIT" where
  "ParseMHEIT s =
     (if glen s < 1 then Inl (Err ErrInvalidMMTSection)
      else rbind (idx s 0) (\<lambda>tid. if \<not> IsMHEITPF tid \<and> \<not> IsMHEITSchedule tid then Inl (Err ErrInvalidMMTSection)
      else rbind (parseLongSection s 6 [tid]) (\<lambda>(header, body).
        case run_state read_eit_head (newReader body) of ((stream, network, seg, lastTable), r) \<Rightarrow>
          rbind (mheit_loop r) (\<lambda>(events, r).
            rd_result \<lparr>me_Header = header, me_ServiceID = hd_TableIDExtension header, me_TLVStreamID = stream, me_OriginalNetworkID = network,
              me_SegmentLastSectionNumber = seg, me_LastTableID = lastTable, me_Events = events\<rparr> r))))"

record MHSDTService =
  sv_ServiceID :: uint16
  sv_EITUserDefinedFlags :: byte
  sv_EITScheduleFlag :: bool
  sv_EITPresentFollowing :: bool
  sv_RunningStatus :: byte
  sv_FreeCAMode :: bool
  sv_Descriptors :: "Descriptor list"

record MHSDT =
  ms_Header :: mmt_header
  ms_TLVStreamID :: uint16
  ms_OriginalNetworkID :: uint16
  ms_Services :: "MHSDTService list"

definition read_service :: "(uint16 \<times> byte \<times> uint16 \<times> bytes) reading" where
  "read_service = do { service \<leftarrow> u16; eit \<leftarrow> u8; (flags, d) \<leftarrow> read_flagged; State_Monad.return (service, eit, flags, d) }"

lemma reading_case_prod [reading]: "(\<And>x y. state_io_rel shrinks (f x y)) \<Longrightarrow> state_io_rel shrinks (case p of (x, y) \<Rightarrow> f x y)"
  by (cases p) simp

lemma consuming_service [consuming]: "state_io_rel consumes read_service"
  unfolding read_service_def by (intro consuming reading consuming_heads(2) [THEN consuming_reading])

function mhsdt_loop :: "mreader \<Rightarrow> mmt_error fault + MHSDTService list \<times> mreader" where
  "mhsdt_loop r =
     (if mr_ok r \<and> mr_b r \<noteq> [] then
        (case run_state read_service r of ((service, eit, flags, d), r1) \<Rightarrow>
           if \<not> mr_ok r1 then Inl (Err ErrInvalidMMTSection)
           else rbind (parseDescriptors d) (\<lambda>ds. rbind (mhsdt_loop r1) (\<lambda>(services, r2).
             Inr (\<lparr>sv_ServiceID = service, sv_EITUserDefinedFlags = drop_bit 2 eit AND 0x07, sv_EITScheduleFlag = (eit AND 0x02 \<noteq> 0),
                   sv_EITPresentFollowing = (eit AND 0x01 \<noteq> 0), sv_RunningStatus = ucast (drop_bit 13 flags),
                   sv_FreeCAMode = (flags AND 0x1000 \<noteq> 0), sv_Descriptors = ds\<rparr> # services, r2))))
      else Inr ([], r))"
  by pat_completeness auto
termination
  by (relation "measure left") (auto intro: left_run [OF consuming_service, OF sym])

declare mhsdt_loop.simps [simp del]

definition read_sdt_head :: "uint16 reading" where
  "read_sdt_head = do { network \<leftarrow> u16; _ \<leftarrow> u8; State_Monad.return network }"

definition ParseMHSDT :: "bytes \<Rightarrow> mmt_error fault + MHSDT" where
  "ParseMHSDT s =
     rbind (parseLongSection s 3 [0x9F, 0xA0]) (\<lambda>(header, body).
       case run_state read_sdt_head (newReader body) of (network, r) \<Rightarrow>
         rbind (mhsdt_loop r) (\<lambda>(services, r).
           rd_result \<lparr>ms_Header = header, ms_TLVStreamID = hd_TableIDExtension header, ms_OriginalNetworkID = network, ms_Services = services\<rparr> r))"

record MHBITBroadcaster =
  mb_BroadcasterID :: byte
  mb_Descriptors :: "Descriptor list"

record MHBIT =
  mh_Header :: mmt_header
  mh_FirstDescriptors :: "Descriptor list"
  mh_Broadcasters :: "MHBITBroadcaster list"

definition bytes12 :: "bytes reading" where
  "bytes12 = do { n \<leftarrow> u16; rd_bytes (uint (n AND 0x0fff)) }"

definition read_broadcaster :: "(byte \<times> bytes) reading" where
  "read_broadcaster = do { i \<leftarrow> u8; d \<leftarrow> bytes12; State_Monad.return (i, d) }"

lemma consuming_bytes12 [consuming]: "state_io_rel consumes bytes12"
  unfolding bytes12_def by (intro consuming reading)

lemma consuming_broadcaster [consuming]: "state_io_rel consumes read_broadcaster"
  unfolding read_broadcaster_def by (intro consuming reading consuming_bytes12 [THEN consuming_reading])

function mhbit_loop :: "mreader \<Rightarrow> mmt_error fault + MHBITBroadcaster list \<times> mreader" where
  "mhbit_loop r =
     (if mr_ok r \<and> mr_b r \<noteq> [] then
        (case run_state read_broadcaster r of ((i, d), r1) \<Rightarrow>
           if \<not> mr_ok r1 then Inl (Err ErrInvalidMMTSection)
           else rbind (parseDescriptors d) (\<lambda>ds. rbind (mhbit_loop r1) (\<lambda>(bs, r2).
             Inr (\<lparr>mb_BroadcasterID = i, mb_Descriptors = ds\<rparr> # bs, r2))))
      else Inr ([], r))"
  by pat_completeness auto
termination
  by (relation "measure left") (auto intro: left_run [OF consuming_broadcaster, OF sym])

declare mhbit_loop.simps [simp del]

definition ParseMHBIT :: "bytes \<Rightarrow> mmt_error fault + MHBIT" where
  "ParseMHBIT s =
     rbind (parseLongSection s 2 [0x9D]) (\<lambda>(header, body).
       case run_state bytes12 (newReader body) of (first, r) \<Rightarrow>
         if \<not> mr_ok r then Inl (Err ErrInvalidMMTSection)
         else rbind (parseDescriptors first) (\<lambda>ds. rbind (mhbit_loop r) (\<lambda>(bs, r).
           rd_result \<lparr>mh_Header = header, mh_FirstDescriptors = ds, mh_Broadcasters = bs\<rparr> r)))"

record MHCDT =
  cd_Header :: mmt_header
  cd_DownloadDataID :: uint16
  cd_OriginalNetworkID :: uint16
  cd_DataType :: byte
  cd_Descriptors :: "Descriptor list"
  cd_DataModule :: bytes

definition read_cdt_head :: "(uint16 \<times> byte \<times> bytes) reading" where
  "read_cdt_head = do { network \<leftarrow> u16; type \<leftarrow> u8; d \<leftarrow> bytes12; State_Monad.return (network, type, d) }"

definition ParseMHCDT :: "bytes \<Rightarrow> mmt_error fault + MHCDT" where
  "ParseMHCDT s =
     rbind (parseLongSection s 5 [0xA2]) (\<lambda>(header, body).
       case run_state read_cdt_head (newReader body) of ((network, type, d), r) \<Rightarrow>
         rbind (parseDescriptors d) (\<lambda>ds.
           rd_result \<lparr>cd_Header = header, cd_DownloadDataID = hd_TableIDExtension header, cd_OriginalNetworkID = network,
             cd_DataType = type, cd_Descriptors = ds, cd_DataModule = mr_b r\<rparr> r))"

record LogoData =
  ld_LogoType :: byte
  ld_LogoID :: uint16
  ld_LogoVersion :: uint16
  ld_Data :: bytes

definition read_logo_part :: "LogoData reading" where
  "read_logo_part = do { type \<leftarrow> u8; i \<leftarrow> u16; version \<leftarrow> u16; data \<leftarrow> bytes16;
     State_Monad.return \<lparr>ld_LogoType = type, ld_LogoID = i AND 0x01ff, ld_LogoVersion = version AND 0x0fff, ld_Data = data\<rparr> }"

fun join_logo :: "LogoData option \<Rightarrow> bytes list \<Rightarrow> mmt_error fault + LogoData" where
  "join_logo None [] = Inl (Err ErrInvalidMMTSection)"
| "join_logo (Some out) [] = Inr out"
| "join_logo out (module # modules) =
     rbind (read_all read_logo_part module) (\<lambda>part.
       case out of
         None \<Rightarrow> join_logo (Some part) modules
       | Some out \<Rightarrow>
           if ld_LogoType part \<noteq> ld_LogoType out \<or> ld_LogoID part \<noteq> ld_LogoID out \<or> ld_LogoVersion part \<noteq> ld_LogoVersion out
           then Inl (Err ErrInvalidMMTSection)
           else join_logo (Some (out\<lparr>ld_Data := ld_Data out @ ld_Data part\<rparr>)) modules)"

definition JoinLogoData :: "bytes list \<Rightarrow> mmt_error fault + LogoData" where
  "JoinLogoData modules = join_logo None modules"

record MHTOT =
  to_JSTTime :: int
  to_Descriptors :: "Descriptor list"

definition ParseMHTOT :: "bytes \<Rightarrow> mmt_error fault + MHTOT" where
  "ParseMHTOT s =
     (if glen s < 14 then Inl (Err ErrInvalidMMTSection)
      else rbind (idx s 0) (\<lambda>tid. if tid \<noteq> 0xA1 then Inl (Err ErrInvalidMMTSection)
      else rbind (idx s 1) (\<lambda>b1. if b1 AND 0x80 \<noteq> 0 then Inl (Err ErrInvalidMMTSection)
      else rbind (mmt_ValidateCRC s) (\<lambda>valid. if \<not> valid then Inl (Err ErrInvalidMMTSection)
      else rbind (gslice s 3 8) (\<lambda>t.
        case mmt_parseMJDTime t of
          Inl Panic \<Rightarrow> Inl Panic
        | Inl (Err e) \<Rightarrow> Inl (Err ErrInvalidMMTSection)
        | Inr time \<Rightarrow>
            if time = zeroTime then Inl (Err ErrInvalidMMTSection)
            else rbind (be16_mask_at 0x0f s 8) (\<lambda>loopLen. rbind (mmt_TotalLength s) (\<lambda>total.
              if 10 + uint loopLen \<noteq> total - 4 then Inl (Err ErrInvalidMMTSection)
              else rbind (gslice s 10 (10 + uint loopLen)) (\<lambda>loop. rbind (parseDescriptors loop) (\<lambda>ds.
                Inr \<lparr>to_JSTTime = time, to_Descriptors = ds\<rparr>)))))))))"

subsection \<open>TLV-NIT\<close>

record TLVDescriptor =
  td_Tag :: byte
  td_Data :: bytes

function parseTLVDescriptors :: "bytes \<Rightarrow> mmt_error fault + TLVDescriptor list" where
  "parseTLVDescriptors b =
     (if b = [] then Inr []
      else if glen b < 2 then Inl (Err ErrInvalidMMTSection)
      else rbind (idx b 0) (\<lambda>tag. rbind (idx b 1) (\<lambda>len.
        if uint len > glen b - 2 then Inl (Err ErrInvalidMMTSection)
        else rbind (gslice b 2 (2 + uint len)) (\<lambda>data. rbind (gslice b (2 + uint len) (glen b)) (\<lambda>rest.
          rbind (parseTLVDescriptors rest) (\<lambda>ds. Inr (\<lparr>td_Tag = tag, td_Data = data\<rparr> # ds)))))))"
  by pat_completeness auto
termination
  by (relation "measure length") (auto simp: gslice_eq_Inr_iff)

declare parseTLVDescriptors.simps [simp del]

record TLVNITStream =
  ns_TLVStreamID :: uint16
  ns_OriginalNetworkID :: uint16
  ns_Descriptors :: "TLVDescriptor list"

record TLVNIT =
  tn_Header :: mmt_header
  tn_NetworkID :: uint16
  tn_NetworkDescriptors :: "TLVDescriptor list"
  tn_TLVStreams :: "TLVNITStream list"

definition read_stream :: "(uint16 \<times> uint16 \<times> bytes) reading" where
  "read_stream = do { stream \<leftarrow> u16; network \<leftarrow> u16; d \<leftarrow> bytes12; State_Monad.return (stream, network, d) }"

lemma consuming_stream [consuming]: "state_io_rel consumes read_stream"
  unfolding read_stream_def by (intro consuming reading consuming_bytes12 [THEN consuming_reading])

function tlvnit_loop :: "mreader \<Rightarrow> mmt_error fault + TLVNITStream list \<times> mreader" where
  "tlvnit_loop r =
     (if mr_ok r \<and> mr_b r \<noteq> [] then
        (case run_state read_stream r of ((stream, network, d), r1) \<Rightarrow>
           if \<not> mr_ok r1 then Inl (Err ErrInvalidMMTSection)
           else rbind (parseTLVDescriptors d) (\<lambda>ds. rbind (tlvnit_loop r1) (\<lambda>(streams, r2).
             Inr (\<lparr>ns_TLVStreamID = stream, ns_OriginalNetworkID = network, ns_Descriptors = ds\<rparr> # streams, r2))))
      else Inr ([], r))"
  by pat_completeness auto
termination
  by (relation "measure left") (auto intro: left_run [OF consuming_stream, OF sym])

declare tlvnit_loop.simps [simp del]

definition ParseTLVNIT :: "bytes \<Rightarrow> mmt_error fault + TLVNIT" where
  "ParseTLVNIT s =
     rbind (parseLongSection s 4 [0x40, 0x41]) (\<lambda>(header, body).
       case run_state bytes12 (newReader body) of (d, r) \<Rightarrow>
         rbind (parseTLVDescriptors d) (\<lambda>ds.
           case run_state bytes12 r of (loop, r) \<Rightarrow>
             if \<not> mr_ok r \<or> mr_b r \<noteq> [] then Inl (Err ErrInvalidMMTSection)
             else rbind (tlvnit_loop (newReader loop)) (\<lambda>(streams, lr).
               rd_result \<lparr>tn_Header = header, tn_NetworkID = hd_TableIDExtension header, tn_NetworkDescriptors = ds, tn_TLVStreams = streams\<rparr> lr)))"

record ServiceListEntry =
  sl_ServiceID :: uint16
  sl_ServiceType :: byte

fun service_list_loop :: "bytes \<Rightarrow> mmt_error fault + ServiceListEntry list" where
  "service_list_loop [] = Inr []"
| "service_list_loop (a # b # t # rest) = rbind (service_list_loop rest) (\<lambda>xs. Inr (\<lparr>sl_ServiceID = be16 a b, sl_ServiceType = t\<rparr> # xs))"
| "service_list_loop b = Inl Panic"

definition tlv_ParseServiceListDescriptor :: "TLVDescriptor \<Rightarrow> mmt_error fault + ServiceListEntry list" where
  "tlv_ParseServiceListDescriptor d =
     (if td_Tag d \<noteq> 0x41 \<or> length (td_Data d) mod 3 \<noteq> 0 then Inl (Err ErrInvalidMMTSection) else service_list_loop (td_Data d))"

record RemoteControlKey =
  rk_RemoteControlKeyID :: byte
  rk_ServiceID :: uint16

fun remote_key_loop :: "bytes \<Rightarrow> mmt_error fault + RemoteControlKey list" where
  "remote_key_loop [] = Inr []"
| "remote_key_loop (k # a # b # c # d # rest) = rbind (remote_key_loop rest) (\<lambda>xs. Inr (\<lparr>rk_RemoteControlKeyID = k, rk_ServiceID = be16 a b\<rparr> # xs))"
| "remote_key_loop b = Inl Panic"

definition ParseRemoteControlKeyDescriptor :: "TLVDescriptor \<Rightarrow> mmt_error fault + RemoteControlKey list" where
  "ParseRemoteControlKeyDescriptor d =
     (if td_Tag d \<noteq> 0xCD \<or> glen (td_Data d) < 1 then Inl (Err ErrInvalidMMTSection)
      else rbind (idx (td_Data d) 0) (\<lambda>n.
        if glen (td_Data d) \<noteq> 1 + uint n * 5 then Inl (Err ErrInvalidMMTSection)
        else rbind (gslice (td_Data d) 1 (glen (td_Data d))) remote_key_loop))"

subsection \<open>No parser panics\<close>

lemma mmt_TotalLength_safe: "3 \<le> glen s \<Longrightarrow> \<exists>n. mmt_TotalLength s = Inr n \<and> 3 \<le> n"
  by (simp add: mmt_TotalLength_def)

lemma mmt_ValidateCRC_total:
  assumes "3 \<le> glen s"
  obtains v where "mmt_ValidateCRC s = Inr v" "v \<Longrightarrow> \<exists>n. mmt_TotalLength s = Inr n \<and> n \<le> glen s"
proof -
  obtain n where n: "mmt_TotalLength s = Inr n" "3 \<le> n" using mmt_TotalLength_safe [OF assms] by auto
  then have "\<exists>v. mmt_ValidateCRC s = Inr v \<and> (v \<longrightarrow> n \<le> glen s)"
    by (auto simp: mmt_ValidateCRC_def gslice_def)
  then show ?thesis using that n(1) by blast
qed

lemma parseLongSection_safe: "0 \<le> minBody \<Longrightarrow> safe (parseLongSection s minBody ids)"
proof (cases "glen s < 8 + minBody + 4")
  case False
  assume "0 \<le> minBody"
  then have len: "3 \<le> glen s" "12 \<le> glen s" using False by simp_all
  obtain v where "mmt_ValidateCRC s = Inr v" "v \<Longrightarrow> \<exists>n. mmt_TotalLength s = Inr n \<and> n \<le> glen s"
    using mmt_ValidateCRC_total [OF len(1)] by blast
  then show ?thesis using len False \<open>0 \<le> minBody\<close>
    by (cases v) (auto simp: parseLongSection_def Let_def safe_gslice intro!: safe_rbind)
qed (simp add: parseLongSection_def)

lemma mmt_parseBCDTime_safe: "3 \<le> glen b \<Longrightarrow> safe (mmt_parseBCDTime b maxHour)"
  by (simp add: mmt_parseBCDTime_def split: prod.split)

lemma gslice_glen: "gslice s a b = Inr t \<Longrightarrow> glen t = b - a"
  by (auto simp: gslice_eq_Inr_iff)

lemma mmt_parseMJDTime_safe: "5 \<le> glen b \<Longrightarrow> safe (mmt_parseMJDTime b)"
  by (auto simp: mmt_parseMJDTime_def safe_gslice intro!: safe_rbind mmt_parseBCDTime_safe dest: gslice_glen)

lemma mmt_parseBCDDuration_safe: "3 \<le> glen b \<Longrightarrow> safe (mmt_parseBCDDuration b)"
  by (auto simp: mmt_parseBCDDuration_def safe_gslice intro!: safe_rbind mmt_parseBCDTime_safe dest: gslice_glen)

lemma table_body_safe: "safe (table_body isTableID t)"
  by (auto simp: table_body_def safe_gslice intro!: safe_rbind)

lemma table_body_len: "table_body isTableID t = Inr body \<Longrightarrow> 4 \<le> glen t"
  by (auto simp: table_body_def split: if_splits)

lemma mpt_assets_safe: "safe (mpt_assets n r)"
  by (induction n arbitrary: r) (auto intro!: safe_rbind parseDescriptors_safe split: prod.split)

lemma ParseMPT_safe: "safe (ParseMPT t)"
  unfolding ParseMPT_def
  by (rule safe_rbind [OF table_body_safe], drule table_body_len)
    (auto intro!: safe_rbind parseDescriptors_safe mpt_assets_safe split: prod.split)

lemma plt_deliveries_safe: "safe (plt_deliveries n r)"
  by (induction n arbitrary: r) (auto intro!: safe_rbind parseDescriptors_safe split: prod.split option.split)

lemma ParsePLT_safe: "safe (ParsePLT t)"
  unfolding ParsePLT_def
  by (rule safe_rbind [OF table_body_safe], drule table_body_len)
    (auto intro!: safe_rbind plt_deliveries_safe split: prod.split)

lemma rd_bytes_len: "run_state (rd_bytes n) r = (v, r') \<Longrightarrow> v = [] \<or> glen v = n"
  by (auto simp: rd_bytes_def split: if_splits)

lemma read_event_head_len: "run_state read_event_head r = ((i, tms), r') \<Longrightarrow> tms = [] \<or> glen tms = 8"
  by (auto simp: read_event_head_def dest: rd_bytes_len split: prod.splits)

lemma event_times_safe: "glen tms = 8 \<Longrightarrow> safe (event_times tms)"
  by (auto simp: event_times_def safe_gslice intro!: safe_rbind mmt_parseMJDTime_safe mmt_parseBCDDuration_safe dest: gslice_glen)

lemma mheit_loop_safe: "safe (mheit_loop r)"
proof (induction r rule: mheit_loop.induct)
  case (1 r)
  show ?case
    by (subst mheit_loop.simps)
      (auto intro!: safe_rbind event_times_safe parseDescriptors_safe 1 dest: read_event_head_len split: prod.split)
qed

lemma mhsdt_loop_safe: "safe (mhsdt_loop r)"
proof (induction r rule: mhsdt_loop.induct)
  case (1 r)
  show ?case by (subst mhsdt_loop.simps) (auto intro!: safe_rbind parseDescriptors_safe 1 split: prod.split)
qed

lemma mhbit_loop_safe: "safe (mhbit_loop r)"
proof (induction r rule: mhbit_loop.induct)
  case (1 r)
  show ?case by (subst mhbit_loop.simps) (auto intro!: safe_rbind parseDescriptors_safe 1 split: prod.split)
qed

lemma parseTLVDescriptors_safe: "safe (parseTLVDescriptors b)"
proof (induction b rule: parseTLVDescriptors.induct)
  case (1 b)
  show ?case by (subst parseTLVDescriptors.simps) (auto simp: safe_gslice intro!: safe_rbind 1)
qed

lemma tlvnit_loop_safe: "safe (tlvnit_loop r)"
proof (induction r rule: tlvnit_loop.induct)
  case (1 r)
  show ?case by (subst tlvnit_loop.simps) (auto intro!: safe_rbind parseTLVDescriptors_safe 1 split: prod.split)
qed

lemma ParseMHEIT_safe: "safe (ParseMHEIT s)"
  by (auto simp: ParseMHEIT_def intro!: safe_rbind parseLongSection_safe mheit_loop_safe split: prod.split)

lemma ParseMHSDT_safe: "safe (ParseMHSDT s)"
  by (auto simp: ParseMHSDT_def intro!: safe_rbind parseLongSection_safe mhsdt_loop_safe split: prod.split)

lemma ParseMHBIT_safe: "safe (ParseMHBIT s)"
  by (auto simp: ParseMHBIT_def intro!: safe_rbind parseLongSection_safe parseDescriptors_safe mhbit_loop_safe split: prod.split)

lemma ParseMHCDT_safe: "safe (ParseMHCDT s)"
  by (auto simp: ParseMHCDT_def intro!: safe_rbind parseLongSection_safe parseDescriptors_safe split: prod.split)

lemma ParseTLVNIT_safe: "safe (ParseTLVNIT s)"
  by (auto simp: ParseTLVNIT_def intro!: safe_rbind parseLongSection_safe parseTLVDescriptors_safe tlvnit_loop_safe split: prod.split)

lemma join_logo_safe: "safe (join_logo out modules)"
  by (induction out modules rule: join_logo.induct) (auto intro!: safe_rbind split: option.split)

lemma JoinLogoData_safe: "safe (JoinLogoData modules)"
  by (simp add: JoinLogoData_def join_logo_safe)

lemma service_list_loop_safe: "3 dvd length b \<Longrightarrow> safe (service_list_loop b)"
proof (induction b rule: service_list_loop.induct)
  case (2 a b t rest)
  then have "3 dvd length rest" by (simp, presburger)
  then show ?case using 2 by (auto intro!: safe_rbind)
qed (auto dest: dvd_imp_le)

lemma remote_key_loop_safe: "5 dvd length b \<Longrightarrow> safe (remote_key_loop b)"
proof (induction b rule: remote_key_loop.induct)
  case (2 k a b c d rest)
  then have "5 dvd length rest" by (simp, presburger)
  then show ?case using 2 by (auto intro!: safe_rbind)
qed (auto dest: dvd_imp_le)

lemma tlv_ParseServiceListDescriptor_safe: "safe (tlv_ParseServiceListDescriptor d)"
  by (auto simp: tlv_ParseServiceListDescriptor_def service_list_loop_safe)

lemma ParseRemoteControlKeyDescriptor_safe: "safe (ParseRemoteControlKeyDescriptor d)"
proof (cases "glen (td_Data d) < 1")
  case False
  then have "safe (remote_key_loop t)" if "gslice (td_Data d) 1 (glen (td_Data d)) = Inr t" "glen (td_Data d) = 1 + uint n * 5" for t and n :: byte
  proof -
    have "int (length t) = 5 * uint n" using gslice_glen [OF that(1)] that(2) by simp
    then have "int 5 dvd int (length t)" by simp
    then show ?thesis by (intro remote_key_loop_safe) (simp only: of_nat_dvd_iff)
  qed
  then show ?thesis using False by (auto simp: ParseRemoteControlKeyDescriptor_def safe_gslice intro!: safe_rbind)
qed (simp add: ParseRemoteControlKeyDescriptor_def)

lemma ParseMHTOT_safe: "safe (ParseMHTOT s)"
proof (cases "glen s < 14")
  case False
  then obtain v where v: "mmt_ValidateCRC s = Inr v" "v \<Longrightarrow> \<exists>n. mmt_TotalLength s = Inr n \<and> n \<le> glen s"
    using mmt_ValidateCRC_total [of s] by auto
  obtain t where t: "gslice s 3 8 = Inr t" "glen t = 5" using False by (cases "gslice s 3 8 :: mmt_error fault + bytes") (auto simp: gslice_def split: if_splits)
  then have "mmt_parseMJDTime t \<noteq> Inl Panic" using mmt_parseMJDTime_safe [of t] by (simp add: safe_def)
  then show ?thesis using v t False
    by (cases v) (auto simp: ParseMHTOT_def safe_gslice intro!: safe_rbind parseDescriptors_safe split: sum.split fault.split)
qed (simp add: ParseMHTOT_def)

subsection \<open>The two decoders of time fields agree\<close>

definition mmt_error_of :: "ts_error fault + 'a \<Rightarrow> mmt_error fault + 'a" where
  "mmt_error_of m = (case m of Inr x \<Rightarrow> Inr x | Inl Panic \<Rightarrow> Inl Panic | Inl (Err _) \<Rightarrow> Inl (Err ErrInvalidMMTSection))"

lemma mmt_error_of_simps [simp]:
  "mmt_error_of (Inr x) = Inr x" "mmt_error_of (Inl Panic) = Inl Panic" "mmt_error_of (Inl (Err e)) = Inl (Err ErrInvalidMMTSection)"
  by (simp_all add: mmt_error_of_def)

lemma mmt_decodeBCD_eq: "mmt_decodeBCD b = (n, ok) \<Longrightarrow> decodeBCDByte b = (if ok then Some n else None)"
  by (auto simp: mmt_decodeBCD_def decodeBCDByte_def Let_def)

lemma mmt_decodeBCD_bound: "mmt_decodeBCD b = (n, True) \<Longrightarrow> n \<le> 99"
  by (auto simp: mmt_decodeBCD_def Let_def)

lemma mmt_parseBCDTime_eq:
  "mmt_parseBCDTime [h, m, s] limit = mmt_error_of (rbind (bcd_field h limit) (\<lambda>hour. rbind (bcd_field m 59) (\<lambda>minute. rbind (bcd_field s 59) (\<lambda>second.
     Inr (hour * 3600 + minute * 60 + second)))))"
proof -
  obtain h' ok1 m' ok2 s' ok3 where d: "mmt_decodeBCD h = (h', ok1)" "mmt_decodeBCD m = (m', ok2)" "mmt_decodeBCD s = (s', ok3)"
    by (metis surj_pair)
  then show ?thesis
    by (simp add: mmt_parseBCDTime_def bcd_field_def mmt_decodeBCD_eq [OF d(1)] mmt_decodeBCD_eq [OF d(2)] mmt_decodeBCD_eq [OF d(3)])
qed

lemma time_Date_1858: "time_Date 1858 11 (17 + d) 0 0 0 z = (d - 40587) * 86400 - z"
  by (simp add: time_Date_def days_before_year_def days_before_month_def is_leap_def eval_nat_numeral)

lemma bcd_field_cases: obtains v where "bcd_field b l = Inr v" | "bcd_field b l = Inl (Err ErrInvalidSection)"
  using that by (fastforce simp: bcd_field_def split: option.splits if_splits)

lemma mmt_parseMJDTime_eq:
  assumes "15079 \<le> uint (be16 a b)"
  shows "mmt_parseMJDTime [a, b, h, m, s] = mmt_error_of (parseMJDTime [a, b, h, m, s])"
proof (cases "allBytes [a, b, h, m, s] 0xff")
  case True
  then show ?thesis by (simp add: mmt_parseMJDTime_def parseMJDTime_def gslice_def)
next
  case False
  obtain y mo d where date: "mjd_date (uint (be16 a b)) = (y, mo, d)" by (metis prod_cases3)
  have "uint (be16 a b) \<le> 65535" using uint_bounded [of "be16 a b"] by simp
  note eq = time_Date_mjd [OF assms this date]
  have f: "gslice [a, b, h, m, s] 2 5 = Inr [h, m, s]" "gslice [a, b, h, m, s] 0 5 = Inr [a, b, h, m, s]"
    by (simp_all add: gslice_def)
  show ?thesis
    by (cases rule: bcd_field_cases [of h 23]; cases rule: bcd_field_cases [of m 59]; cases rule: bcd_field_cases [of s 59])
      (simp_all add: mmt_parseMJDTime_def parseMJDTime_def f False mmt_parseBCDTime_eq date eq time_Date_1858)
qed

lemma mmt_parseBCDDuration_eq: "mmt_parseBCDDuration [h, m, s] = mmt_error_of (parseBCDDuration [h, m, s])"
proof (cases "allBytes [h, m, s] 0xff")
  case False
  have f: "gslice [h, m, s] 0 3 = Inr [h, m, s]" by (simp add: gslice_def)
  have h: "bcd_field h 99 = (case decodeBCDByte h of None \<Rightarrow> Inl (Err ErrInvalidSection) | Some n \<Rightarrow> Inr n)"
    by (auto simp: bcd_field_def decodeBCDByte_def Let_def)
  show ?thesis
    by (cases "decodeBCDByte h"; cases rule: bcd_field_cases [of m 59]; cases rule: bcd_field_cases [of s 59])
      (simp_all add: mmt_parseBCDDuration_def parseBCDDuration_def f h False mmt_parseBCDTime_eq)
qed (simp add: mmt_parseBCDDuration_def parseBCDDuration_def gslice_def)

text \<open>
  C31. The MMT parser and the TS parser read the same broadcast time fields alike, though one
  counts days from 1858-11-17 and the other evaluates a floating-point calendar formula: on every
  five bytes whose Modified Julian Date is March 1, 1900 or later, and on every three bytes of a
  duration, both give the same value, and both report an error for the same fields.
\<close>

theorem time_fields_agree:
  assumes "15079 \<le> uint (be16 a b)"
  shows "mmt_parseMJDTime [a, b, h, m, s] = mmt_error_of (parseMJDTime [a, b, h, m, s]) \<and>
    mmt_parseBCDDuration [h, m, s] = mmt_error_of (parseBCDDuration [h, m, s])"
  using mmt_parseMJDTime_eq [OF assms] mmt_parseBCDDuration_eq by blast

theorem time_fields_agree_witness:
  "mmt_parseMJDTime [0xEB, 0x96, 0x12, 0x34, 0x56] = mmt_error_of (parseMJDTime [0xEB, 0x96, 0x12, 0x34, 0x56]) \<and>
   mmt_parseBCDDuration [0x12, 0x34, 0x56] = Inr 45296000000000"
proof -
  have "15079 \<le> uint (be16 0xEB 0x96)" by (simp add: be16_def)
  from time_fields_agree [OF this, of "0x12" "0x34" "0x56"] show ?thesis
    by (simp add: parseBCDDuration_def allBytes_def bcd_field_def decodeBCDByte_def)
qed

end
