(* ===== verification/TlvTransport.thy ===== *)
theory TlvTransport
  imports MmtpCorrect MmtTables "HOL-Library.AList"
begin

section \<open>Services of a TLV stream\<close>

text \<open>
  \<open>internal/stream/tlv/transport.go\<close>: the part of a TLV session that looks into the packets. \<open>Feed\<close>
  parses a packet, keeps the services of the PLT and the assets of each service's MPT, and returns
  the signaling the packet completes; a \<open>serviceFilter\<close> then drops the media packets that belong to
  other services only; a \<open>sequenceMonitor\<close> counts losses.

  Go maps whose size the code asks for are association lists; a map to \<open>bool\<close> that only ever holds
  \<open>true\<close> is a set. \<open>Feed\<close> never returns an error, so its result is a panic or the signals; errors of
  the parsers skip the packet (\<open>skip\<close>). The names of drops are left out.
\<close>

definition TLVPacketTypeTransmissionControl :: byte where "TLVPacketTypeTransmissionControl = 0xFE"

definition ntpPort :: uint16 where "ntpPort = 123"

record signal =
  sg_TLVSI :: bool
  sg_Section :: bytes
  sg_Table :: bytes
  sg_Key :: PacketKey

definition zeroKey :: PacketKey where
  "zeroKey = \<lparr>pk_Flow = \<lparr>fl_Source = NoAddr, fl_Destination = NoAddr, fl_DestinationPort = 0\<rparr>, pk_PacketID = 0\<rparr>"

record packetInfo =
  pi_media :: bool
  pi_key :: PacketKey

record tlvTransport =
  tt_flows :: FlowTracker
  tt_assembler :: MessageAssembler
  tt_current :: packetInfo
  tt_pltSeen :: bool
  tt_pltServices :: "uint16 set"
  tt_mpts :: "(uint16 \<times> PacketKey set) list"
  tt_owners :: "PacketKey \<rightharpoonup> uint16 set"

definition newTransport :: tlvTransport where
  "newTransport =
     \<lparr>tt_flows = Map.empty, tt_assembler = Map.empty, tt_current = \<lparr>pi_media = False, pi_key = zeroKey\<rparr>, tt_pltSeen = False,
      tt_pltServices = {}, tt_mpts = [], tt_owners = Map.empty\<rparr>"

text \<open>An error of a parser skips what was parsed; a panic does not.\<close>

definition skip :: "mmt_error fault + 'a \<Rightarrow> unit fault + 'a option" where
  "skip m = (case m of Inr x \<Rightarrow> Inr (Some x) | Inl Panic \<Rightarrow> Inl Panic | Inl (Err _) \<Rightarrow> Inr None)"

definition parseMMTP :: "FlowTracker \<Rightarrow> bytes \<Rightarrow> unit fault + (MMTPPacket \<times> PacketKey) option \<times> FlowTracker" where
  "parseMMTP flows packet =
     rbind (skip (ParseUDPPacket packet)) (\<lambda>u.
       case u of
         None \<Rightarrow> Inr (None, flows)
       | Some u \<Rightarrow>
           (case Flow flows u of
              (None, flows) \<Rightarrow> Inr (None, flows)
            | (Some flow, flows) \<Rightarrow>
                if fl_DestinationPort flow = ntpPort then Inr (None, flows)
                else rbind (skip (ParseMMTPPacket (up_Payload u))) (\<lambda>m.
                  case m of
                    None \<Rightarrow> Inr (None, flows)
                  | Some m \<Rightarrow> Inr (Some (m, \<lparr>pk_Flow = flow, pk_PacketID = mp_PacketID m\<rparr>), flows))))"

subsection \<open>Tables\<close>

definition assetKey :: "IPDataFlow \<Rightarrow> GeneralLocationInfo \<Rightarrow> PacketKey option" where
  "assetKey mptFlow loc =
     (if gl_LocationType loc = 0x00 then Some \<lparr>pk_Flow = mptFlow, pk_PacketID = gl_PacketID loc\<rparr>
      else if gl_LocationType loc = 0x01 \<or> gl_LocationType loc = 0x02 then
        Some \<lparr>pk_Flow = \<lparr>fl_Source = gl_Source loc, fl_Destination = gl_Destination loc, fl_DestinationPort = gl_DestinationPort loc\<rparr>,
              pk_PacketID = gl_PacketID loc\<rparr>
      else None)"

definition asset_keys :: "IPDataFlow \<Rightarrow> MPT \<Rightarrow> PacketKey set" where
  "asset_keys flow mpt = set (List.map_filter (assetKey flow) (concat (map as_Locations (mt_Assets mpt))))"

text \<open>The two loops over a service's assets treat every asset on its own, so the order in which Go
  visits the map does not matter.\<close>

definition owners_of :: "(PacketKey \<rightharpoonup> uint16 set) \<Rightarrow> PacketKey \<Rightarrow> uint16 set" where
  "owners_of owners k = (case owners k of None \<Rightarrow> {} | Some s \<Rightarrow> s)"

definition disown :: "uint16 \<Rightarrow> PacketKey set \<Rightarrow> (PacketKey \<rightharpoonup> uint16 set) \<Rightarrow> (PacketKey \<rightharpoonup> uint16 set)" where
  "disown serviceID assets owners = (\<lambda>k.
     if k \<in> assets then let s = owners_of owners k - {serviceID} in if s = {} then None else Some s
     else owners k)"

definition own :: "uint16 \<Rightarrow> PacketKey set \<Rightarrow> (PacketKey \<rightharpoonup> uint16 set) \<Rightarrow> (PacketKey \<rightharpoonup> uint16 set)" where
  "own serviceID assets owners = (\<lambda>k.
     if k \<in> assets then Some (insert serviceID (owners_of owners k)) else owners k)"

definition assets_of :: "(uint16 \<times> PacketKey set) list \<Rightarrow> uint16 \<Rightarrow> PacketKey set" where
  "assets_of mpts serviceID = (case map_of mpts serviceID of None \<Rightarrow> {} | Some a \<Rightarrow> a)"

definition observe_plt :: "PLT \<Rightarrow> tlvTransport \<Rightarrow> tlvTransport" where
  "observe_plt plt t = t\<lparr>tt_pltSeen := True, tt_pltServices := set (map (packageServiceID \<circ> pp_PackageID) (pl_Packages plt))\<rparr>"

definition observe_mpt :: "IPDataFlow \<Rightarrow> MPT \<Rightarrow> tlvTransport \<Rightarrow> tlvTransport" where
  "observe_mpt flow mpt t =
     (let serviceID = packageServiceID (mt_PackageID mpt);
          owners = disown serviceID (assets_of (tt_mpts t) serviceID) (tt_owners t);
          assets = asset_keys flow mpt
      in t\<lparr>tt_mpts := AList.update serviceID assets (tt_mpts t), tt_owners := own serviceID assets owners\<rparr>)"

definition observeTable :: "PacketKey \<Rightarrow> bytes \<Rightarrow> tlvTransport \<Rightarrow> unit fault + tlvTransport" where
  "observeTable key table t =
     rbind (idx table 0) (\<lambda>tid.
       if tid = 0x80 then
         rbind (skip (ParsePLT table)) (\<lambda>plt. Inr (case plt of None \<Rightarrow> t | Some plt \<Rightarrow> observe_plt plt t))
       else if tid = 0x20 then
         rbind (skip (ParseMPT table)) (\<lambda>mpt. Inr (case mpt of None \<Rightarrow> t | Some mpt \<Rightarrow> observe_mpt (pk_Flow key) mpt t))
       else Inr t)"

subsection \<open>Feeding packets\<close>

fun feed_tables :: "PacketKey \<Rightarrow> bytes list \<Rightarrow> tlvTransport \<Rightarrow> unit fault + signal list \<times> tlvTransport" where
  "feed_tables key [] t = Inr ([], t)"
| "feed_tables key (table # tables) t =
     rbind (observeTable key table t) (\<lambda>t. rbind (feed_tables key tables t) (\<lambda>(signals, t).
       Inr (\<lparr>sg_TLVSI = False, sg_Section = [], sg_Table = table, sg_Key = key\<rparr> # signals, t)))"

definition feed_message :: "PacketKey \<Rightarrow> bytes \<Rightarrow> tlvTransport \<Rightarrow> unit fault + signal list \<times> tlvTransport" where
  "feed_message key message t =
     (if glen message < 2 then Inr ([], t)
      else rbind (be16_at message 0) (\<lambda>i.
        if i = MessageIDPA then
          rbind (skip (ParsePAMessage message)) (\<lambda>pa.
            case pa of None \<Rightarrow> Inr ([], t) | Some pa \<Rightarrow> feed_tables key (pa_Tables pa) t)
        else if i = MessageIDM2Section \<or> i = MessageIDM2ShortSection then
          rbind (skip (msg_Section message)) (\<lambda>s.
            Inr (case s of None \<Rightarrow> [] | Some s \<Rightarrow> [\<lparr>sg_TLVSI = False, sg_Section = s, sg_Table = [], sg_Key = key\<rparr>], t))
        else Inr ([], t)))"

fun feed_messages :: "PacketKey \<Rightarrow> bytes list \<Rightarrow> tlvTransport \<Rightarrow> unit fault + signal list \<times> tlvTransport" where
  "feed_messages key [] t = Inr ([], t)"
| "feed_messages key (message # messages) t =
     rbind (feed_message key message t) (\<lambda>(signals, t). rbind (feed_messages key messages t) (\<lambda>(more, t).
       Inr (signals @ more, t)))"

definition feed_control :: "bytes \<Rightarrow> unit fault + signal list" where
  "feed_control s =
     (if glen s < 3 then Inr []
      else rbind (be16_mask_at 0x0f s 1) (\<lambda>len. if 3 + uint len > glen s then Inr []
      else rbind (gslice s 0 (3 + uint len)) (\<lambda>s.
        Inr [\<lparr>sg_TLVSI = True, sg_Section = s, sg_Table = [], sg_Key = zeroKey\<rparr>])))"

definition tlv_Feed :: "tlvTransport \<Rightarrow> bytes \<Rightarrow> unit fault + signal list \<times> tlvTransport" where
  "tlv_Feed t packet =
     (let t = t\<lparr>tt_current := \<lparr>pi_media = False, pi_key = zeroKey\<rparr>\<rparr>
      in rbind (tlv_Type packet) (\<lambda>type.
        if type = TLVPacketTypeTransmissionControl then
          rbind (tlv_Data packet) (\<lambda>s. rbind (feed_control s) (\<lambda>signals. Inr (signals, t)))
        else rbind (parseMMTP (tt_flows t) packet) (\<lambda>(m, flows).
          let t = t\<lparr>tt_flows := flows\<rparr>
          in case m of
               None \<Rightarrow> Inr ([], t)
             | Some (m, key) \<Rightarrow>
                 if mp_PayloadType m \<noteq> MMTPPayloadTypeSignaling then
                   Inr ([], t\<lparr>tt_current := \<lparr>pi_media = True, pi_key = key\<rparr>\<rparr>)
                 else (case asm_Feed (pk_Flow key) m (tt_assembler t) of (messages, a) \<Rightarrow>
                   let t = t\<lparr>tt_assembler := a\<rparr>
                   in rbind (skip messages) (\<lambda>messages.
                     case messages of None \<Rightarrow> Inr ([], t) | Some messages \<Rightarrow> feed_messages key messages t)))))"

subsection \<open>Filters and loss detection\<close>

record serviceFilter =
  sf_serviceID :: uint16
  sf_removing :: bool

definition tlv_NewFilter :: "uint16 \<Rightarrow> serviceFilter" where
  "tlv_NewFilter serviceID = \<lparr>sf_serviceID = serviceID, sf_removing = False\<rparr>"

datatype filter_error = ErrServiceNotFound

definition filter_Packet :: "tlvTransport \<Rightarrow> serviceFilter \<Rightarrow> bytes \<Rightarrow> (filter_error + bytes option) \<times> serviceFilter" where
  "filter_Packet t f packet =
     (if tt_pltSeen t \<and> sf_serviceID f \<notin> tt_pltServices t then (Inl ErrServiceNotFound, f)
      else if length (tt_mpts t) \<le> 1 \<or> \<not> pi_media (tt_current t) then (Inr (Some packet), f)
      else let owners = owners_of (tt_owners t) (pi_key (tt_current t))
           in if owners = {} \<or> sf_serviceID f \<in> owners then (Inr (Some packet), f)
              else (Inr None, f\<lparr>sf_removing := True\<rparr>))"

record drop =
  dr_context :: uint16
  dr_Expected :: byte
  dr_Actual :: byte

text \<open>The monitor's state is its map of last sequence numbers; \<open>paused\<close> is what the filter's flag
  reads, false for a subscriber of the whole stream.\<close>

definition seq_Observe :: "bool \<Rightarrow> (uint16 \<rightharpoonup> byte) \<Rightarrow> bytes \<Rightarrow> unit fault + drop option \<times> (uint16 \<rightharpoonup> byte)" where
  "seq_Observe paused seen packet =
     (if glen packet < 6 then Inr (None, seen)
      else rbind (tlv_Type packet) (\<lambda>type. if type \<noteq> TLVPacketTypeCompressedIP then Inr (None, seen)
      else if paused then Inr (None, Map.empty)
      else rbind (tlv_Data packet) (\<lambda>data. rbind (idx data 0) (\<lambda>d0. rbind (idx data 1) (\<lambda>d1.
        let contextID = push_bit 4 (ucast d0) OR ucast (drop_bit 4 d1);
            sequence = d1 AND 0x0f;
            expected = ((case seen contextID of None \<Rightarrow> 0 | Some l \<Rightarrow> l) + 1) AND 0x0f
        in Inr (if seen contextID = None \<or> sequence = expected then None
                else Some \<lparr>dr_context = contextID, dr_Expected = expected, dr_Actual = sequence\<rparr>,
                seen(contextID \<mapsto> sequence)))))))"

subsection \<open>What the tables a stream has sent say\<close>

text \<open>The MPTs and the PLT among the signals \<open>Feed\<close> has returned so far; the latest of a service,
  and the latest PLT, are in force.\<close>

definition mpt_event :: "signal \<Rightarrow> (uint16 \<times> PacketKey set) option" where
  "mpt_event s =
     (if sg_Table s \<noteq> [] \<and> hd (sg_Table s) = 0x20 then
        (case ParseMPT (sg_Table s) of
           Inr mpt \<Rightarrow> Some (packageServiceID (mt_PackageID mpt), asset_keys (pk_Flow (sg_Key s)) mpt)
         | Inl _ \<Rightarrow> None)
      else None)"

definition plt_event :: "signal \<Rightarrow> uint16 set option" where
  "plt_event s =
     (if sg_Table s \<noteq> [] \<and> hd (sg_Table s) = 0x80 then
        (case ParsePLT (sg_Table s) of
           Inr plt \<Rightarrow> Some (set (map (packageServiceID \<circ> pp_PackageID) (pl_Packages plt)))
         | Inl _ \<Rightarrow> None)
      else None)"

definition latest_mpts :: "signal list \<Rightarrow> (uint16 \<times> PacketKey set) list" where
  "latest_mpts sigs = rev (List.map_filter mpt_event sigs)"

definition latest_plts :: "signal list \<Rightarrow> uint16 set list" where
  "latest_plts sigs = rev (List.map_filter plt_event sigs)"

text \<open>A transport that has returned the signals \<open>sigs\<close>.\<close>

definition observed :: "signal list \<Rightarrow> tlvTransport \<Rightarrow> bool" where
  "observed sigs t \<longleftrightarrow>
     distinct (map fst (tt_mpts t)) \<and> map_of (tt_mpts t) = map_of (latest_mpts sigs) \<and>
     (\<forall>k. owners_of (tt_owners t) k = {s. k \<in> assets_of (tt_mpts t) s}) \<and>
     (case latest_plts sigs of
        [] \<Rightarrow> \<not> tt_pltSeen t
      | services # _ \<Rightarrow> tt_pltSeen t \<and> tt_pltServices t = services)"

lemma latest_append:
  "latest_mpts (sigs @ [s]) = (case mpt_event s of None \<Rightarrow> [] | Some e \<Rightarrow> [e]) @ latest_mpts sigs"
  "latest_plts (sigs @ [s]) = (case plt_event s of None \<Rightarrow> [] | Some e \<Rightarrow> [e]) @ latest_plts sigs"
  by (simp_all add: latest_mpts_def latest_plts_def map_filter_def split: option.split)

lemma observed_quiet: "observed sigs t \<Longrightarrow> mpt_event s = None \<Longrightarrow> plt_event s = None \<Longrightarrow> observed (sigs @ [s]) t"
  by (simp add: observed_def latest_append)

lemma observed_frame [simp]:
  "observed sigs (t\<lparr>tt_current := c\<rparr>) = observed sigs t" "observed sigs (t\<lparr>tt_flows := f\<rparr>) = observed sigs t"
  "observed sigs (t\<lparr>tt_assembler := a\<rparr>) = observed sigs t"
  by (simp_all add: observed_def split: list.split)

lemma observed_new: "observed [] newTransport"
  by (simp add: observed_def newTransport_def latest_mpts_def latest_plts_def owners_of_def assets_of_def)

lemma owners_of_disown: "owners_of (disown s a owners) k = (if k \<in> a then owners_of owners k - {s} else owners_of owners k)"
  by (auto simp: disown_def owners_of_def Let_def split: option.split)

lemma owners_of_own: "owners_of (own s a owners) k = (if k \<in> a then insert s (owners_of owners k) else owners_of owners k)"
  by (simp add: own_def owners_of_def)

lemma assets_of_update: "assets_of (AList.update s a mpts) s' = (if s' = s then a else assets_of mpts s')"
  by (simp add: assets_of_def update_conv')

lemma observed_mpt:
  assumes "observed sigs t" "plt_event sig = None" "mpt_event sig = Some (packageServiceID (mt_PackageID mpt), asset_keys flow mpt)"
  shows "observed (sigs @ [sig]) (observe_mpt flow mpt t)"
proof -
  let ?s = "packageServiceID (mt_PackageID mpt)"
  have "owners_of (tt_owners (observe_mpt flow mpt t)) k = {s. k \<in> assets_of (tt_mpts (observe_mpt flow mpt t)) s}" for k
    using assms(1) by (auto simp: observed_def observe_mpt_def Let_def owners_of_own owners_of_disown assets_of_update)
  moreover have "map_of (tt_mpts (observe_mpt flow mpt t)) = (map_of (latest_mpts sigs))(?s \<mapsto> asset_keys flow mpt)"
    using assms(1) by (simp add: observed_def observe_mpt_def Let_def update_conv')
  moreover have "distinct (map fst (tt_mpts (observe_mpt flow mpt t)))"
    using assms(1) by (simp add: observed_def observe_mpt_def Let_def distinct_update)
  moreover have "tt_pltSeen (observe_mpt flow mpt t) = tt_pltSeen t" "tt_pltServices (observe_mpt flow mpt t) = tt_pltServices t"
    by (simp_all add: observe_mpt_def Let_def)
  ultimately show ?thesis using assms by (simp add: observed_def latest_append split: list.splits)
qed

lemma observed_plt:
  assumes "observed sigs t" "mpt_event sig = None" "plt_event sig = Some (set (map (packageServiceID \<circ> pp_PackageID) (pl_Packages plt)))"
  shows "observed (sigs @ [sig]) (observe_plt plt t)"
  using assms by (simp add: observed_def latest_append observe_plt_def)

lemma skip_simps [simp]: "skip (Inr x) = Inr (Some x)" "skip (Inl (Err e)) = Inr None"
  by (simp_all add: skip_def)

lemma skip_cases:
  assumes "safe m"
  obtains x where "m = Inr x" "skip m = Inr (Some x)" | e where "m = Inl (Err e)" "skip m = Inr None"
  using assms by (cases m; cases "projl m") (auto simp: skip_def)

lemma skip_safe: "safe m \<Longrightarrow> safe (skip m)"
  by (erule skip_cases) simp_all

lemma observeTable_step:
  assumes "observed sigs t" "table \<noteq> []"
  shows "\<exists>t'. observeTable key table t = Inr t' \<and>
    observed (sigs @ [\<lparr>sg_TLVSI = False, sg_Section = [], sg_Table = table, sg_Key = key\<rparr>]) t'"
    (is "\<exists>t'. _ \<and> observed (sigs @ [?sig]) t'")
proof -
  have hd: "idx table 0 = Inr (hd table)" using assms(2) by (simp add: hd_conv_nth)
  consider (plt) "hd table = 0x80" | (mpt) "hd table = 0x20" | (other) "hd table \<noteq> 0x80" "hd table \<noteq> 0x20" by blast
  then show ?thesis
  proof cases
    case plt
    then have "mpt_event ?sig = None" by (simp add: mpt_event_def)
    then show ?thesis using assms plt hd
      by (cases rule: skip_cases [OF ParsePLT_safe [of table]])
        (simp_all add: observeTable_def, (rule observed_plt observed_quiet; simp add: plt_event_def)+)
  next
    case mpt
    then have "plt_event ?sig = None" by (simp add: plt_event_def)
    then show ?thesis using assms mpt hd
      by (cases rule: skip_cases [OF ParseMPT_safe [of table]])
        (simp_all add: observeTable_def, (rule observed_mpt observed_quiet; simp add: mpt_event_def)+)
  next
    case other
    then show ?thesis using assms hd by (auto simp: observeTable_def mpt_event_def plt_event_def intro!: observed_quiet)
  qed
qed

lemma feed_tables_step:
  "observed sigs t \<Longrightarrow> [] \<notin> set tables \<Longrightarrow> \<exists>out t'. feed_tables key tables t = Inr (out, t') \<and> observed (sigs @ out) t'"
proof (induction tables arbitrary: sigs t)
  case (Cons table tables)
  let ?sig = "\<lparr>sg_TLVSI = False, sg_Section = [], sg_Table = table, sg_Key = key\<rparr>"
  obtain t1 where t1: "observeTable key table t = Inr t1" "observed (sigs @ [?sig]) t1"
    using observeTable_step [of sigs t table key] Cons.prems by auto
  then obtain out t2 where "feed_tables key tables t1 = Inr (out, t2)" "observed ((sigs @ [?sig]) @ out) t2"
    using Cons.IH Cons.prems(2) by fastforce
  then show ?case using t1(1) by (intro exI [of _ "?sig # out"] exI [of _ t2]) simp
qed simp

lemma pa_loop_nonempty: "pa_loop b = Inr tables \<Longrightarrow> [] \<notin> set tables"
proof (induction "length b" arbitrary: b tables rule: less_induct)
  case less
  show ?case
  proof (cases "b = []")
    case False
    then obtain t rest ts where "tables = t # ts" "t \<noteq> []" "pa_loop rest = Inr ts" "length rest < length b"
      using less.prems by (subst (asm) pa_loop.simps) (auto simp: gslice_eq_Inr_iff rbind_eq_Inr_iff split: if_splits)
    then show ?thesis using less.hyps by auto
  qed (use less.prems in \<open>simp add: pa_loop.simps\<close>)
qed

lemma ParsePAMessage_nonempty: "ParsePAMessage m = Inr pa \<Longrightarrow> [] \<notin> set (pa_Tables pa)"
  by (auto simp: ParsePAMessage_def Let_def rbind_eq_Inr_iff dest!: pa_loop_nonempty split: if_splits)

lemma observed_section:
  "observed sigs t \<Longrightarrow> observed (sigs @ [\<lparr>sg_TLVSI = b, sg_Section = s, sg_Table = [], sg_Key = key\<rparr>]) t"
  by (simp add: observed_quiet mpt_event_def plt_event_def)

lemma feed_message_step:
  assumes "observed sigs t"
  shows "\<exists>out t'. feed_message key m t = Inr (out, t') \<and> observed (sigs @ out) t'"
proof (cases "glen m < 2")
  case False
  then obtain i where i: "(be16_at m 0 :: unit fault + uint16) = Inr i" by simp
  consider (pa) "i = MessageIDPA" | (sec) "i \<noteq> MessageIDPA" "i = MessageIDM2Section \<or> i = MessageIDM2ShortSection"
    | (other) "i \<noteq> MessageIDPA" "\<not> (i = MessageIDM2Section \<or> i = MessageIDM2ShortSection)" by blast
  then show ?thesis
  proof cases
    case pa
    then show ?thesis using i False assms
      by (cases rule: skip_cases [OF ParsePAMessage_safe [of m]])
        (auto simp: feed_message_def dest: ParsePAMessage_nonempty intro!: feed_tables_step)
  next
    case sec
    then show ?thesis using i False assms
      by (cases rule: skip_cases [OF msg_Section_safe [of m]]) (auto simp: feed_message_def observed_section)
  next
    case other
    then show ?thesis using i False assms by (simp add: feed_message_def)
  qed
qed (simp add: feed_message_def assms)

lemma feed_messages_step:
  "observed sigs t \<Longrightarrow> \<exists>out t'. feed_messages key ms t = Inr (out, t') \<and> observed (sigs @ out) t'"
proof (induction ms arbitrary: sigs t)
  case (Cons m ms)
  obtain o1 t1 where 1: "feed_message key m t = Inr (o1, t1)" "observed (sigs @ o1) t1"
    using feed_message_step [OF Cons.prems] by blast
  obtain o2 t2 where "feed_messages key ms t1 = Inr (o2, t2)" "observed ((sigs @ o1) @ o2) t2"
    using Cons.IH [OF 1(2)] by blast
  then show ?case using 1(1) by (intro exI [of _ "o1 @ o2"] exI [of _ t2]) simp
qed simp

lemma feed_control_step: "\<exists>out. feed_control s = Inr out \<and> (observed sigs t \<longrightarrow> observed (sigs @ out) t)"
  by (auto simp: feed_control_def gslice_def observed_section)

lemma parseMMTP_total: "\<exists>m flows'. parseMMTP flows p = Inr (m, flows')"
proof (cases rule: skip_cases [OF ParseUDPPacket_safe [of p]])
  case (1 u)
  obtain fl flows' where f: "Flow flows u = (fl, flows')" by fastforce
  show ?thesis
    by (cases fl; cases rule: skip_cases [OF ParseMMTPPacket_safe [of "up_Payload u"]]) (simp_all add: parseMMTP_def 1 f)
qed (simp add: parseMMTP_def)

lemma tlv_Feed_step:
  assumes "observed sigs t" "4 \<le> length p"
  shows "\<exists>out t'. tlv_Feed t p = Inr (out, t') \<and> observed (sigs @ out) t'"
proof -
  let ?t = "t\<lparr>tt_current := \<lparr>pi_media = False, pi_key = zeroKey\<rparr>\<rparr>"
  obtain type where type: "(tlv_Type p :: unit fault + byte) = Inr type" using assms(2) by (simp add: tlv_Type_def)
  obtain s where s: "(tlv_Data p :: unit fault + bytes) = Inr s" using assms(2) by (simp add: tlv_Data_def gslice_def)
  obtain m flows where m: "parseMMTP (tt_flows ?t) p = Inr (m, flows)" using parseMMTP_total by blast
  consider (control) "type = TLVPacketTypeTransmissionControl" | (none) "type \<noteq> TLVPacketTypeTransmissionControl" "m = None"
    | (packet) pkt key where "type \<noteq> TLVPacketTypeTransmissionControl" "m = Some (pkt, key)" by (cases m) auto
  then show ?thesis
  proof cases
    case control
    then show ?thesis using type s feed_control_step [of s sigs ?t] assms(1) by (auto simp: tlv_Feed_def)
  next
    case none
    then show ?thesis using type m assms(1) by (simp add: tlv_Feed_def)
  next
    case packet
    obtain ms a where ms: "asm_Feed (pk_Flow key) pkt (tt_assembler t) = (ms, a)" by fastforce
    then have "safe ms" using asm_Feed_safe [of "pk_Flow key" pkt "tt_assembler t"] by simp
    then show ?thesis using packet type m ms assms(1)
      by (cases rule: skip_cases) (auto simp: tlv_Feed_def Let_def intro!: feed_messages_step)
  qed
qed

fun tlv_feed_all :: "bytes list \<Rightarrow> tlvTransport \<Rightarrow> unit fault + signal list \<times> tlvTransport" where
  "tlv_feed_all [] t = Inr ([], t)"
| "tlv_feed_all (p # ps) t =
     rbind (tlv_Feed t p) (\<lambda>(signals, t). rbind (tlv_feed_all ps t) (\<lambda>(more, t). Inr (signals @ more, t)))"

lemma tlv_feed_all_step:
  "observed sigs t \<Longrightarrow> (\<forall>p\<in>set ps. 4 \<le> length p) \<Longrightarrow> \<exists>out t'. tlv_feed_all ps t = Inr (out, t') \<and> observed (sigs @ out) t'"
proof (induction ps arbitrary: sigs t)
  case (Cons p ps)
  obtain o1 t1 where 1: "tlv_Feed t p = Inr (o1, t1)" "observed (sigs @ o1) t1"
    using tlv_Feed_step [of sigs t p] Cons.prems by auto
  obtain o2 t2 where "tlv_feed_all ps t1 = Inr (o2, t2)" "observed ((sigs @ o1) @ o2) t2"
    using Cons.IH [OF 1(2)] Cons.prems(2) by auto
  then show ?case using 1(1) by (intro exI [of _ "o1 @ o2"] exI [of _ t2]) simp
qed simp

subsection \<open>The filter\<close>

text \<open>The key of a media packet, by the flows known before it.\<close>

definition media_key :: "FlowTracker \<Rightarrow> bytes \<Rightarrow> PacketKey option" where
  "media_key flows p =
     (case parseMMTP flows p of
        Inr (Some (m, key), _) \<Rightarrow>
          if tlv_Type p \<noteq> (Inr TLVPacketTypeTransmissionControl :: unit fault + byte) \<and> mp_PayloadType m \<noteq> MMTPPayloadTypeSignaling
          then Some key else None
      | _ \<Rightarrow> None)"

text \<open>The packets of the assets that only other services list, once more than one service has an MPT.\<close>

definition foreign :: "(uint16 \<times> PacketKey set) list \<Rightarrow> PacketKey option \<Rightarrow> uint16 \<Rightarrow> bool" where
  "foreign mpts key serviceID \<longleftrightarrow>
     (case key of None \<Rightarrow> False | Some k \<Rightarrow>
        1 < card (fst ` set mpts) \<and> (\<exists>s\<in>fst ` set mpts. k \<in> assets_of mpts s) \<and> k \<notin> assets_of mpts serviceID)"

definition missing_service :: "uint16 set list \<Rightarrow> uint16 \<Rightarrow> bool" where
  "missing_service plts serviceID = (case plts of [] \<Rightarrow> False | services # _ \<Rightarrow> serviceID \<notin> services)"

lemma observeTable_current: "observeTable key table t = Inr t' \<Longrightarrow> tt_current t' = tt_current t"
  by (auto simp: observeTable_def rbind_eq_Inr_iff observe_plt_def observe_mpt_def Let_def split: if_splits option.splits)

lemma feed_tables_current: "feed_tables key tables t = Inr (out, t') \<Longrightarrow> tt_current t' = tt_current t"
  by (induction tables arbitrary: t out) (auto simp: rbind_eq_Inr_iff dest: observeTable_current)

lemma feed_messages_current: "feed_messages key ms t = Inr (out, t') \<Longrightarrow> tt_current t' = tt_current t"
  by (induction ms arbitrary: t out) (auto simp: feed_message_def rbind_eq_Inr_iff split: if_splits option.splits dest: feed_tables_current)

definition current_key :: "tlvTransport \<Rightarrow> PacketKey option" where
  "current_key t = (if pi_media (tt_current t) then Some (pi_key (tt_current t)) else None)"

lemma tlv_Feed_current:
  assumes "tlv_Feed t p = Inr (out, t')"
  shows "current_key t' = media_key (tt_flows t) p"
proof -
  let ?t = "t\<lparr>tt_current := \<lparr>pi_media = False, pi_key = zeroKey\<rparr>\<rparr>"
  obtain type where type: "tlv_Type p = (Inr type :: unit fault + byte)" using assms by (auto simp: tlv_Feed_def Let_def rbind_eq_Inr_iff)
  obtain m flows where m: "parseMMTP (tt_flows t) p = Inr (m, flows)" using parseMMTP_total by blast
  show ?thesis
  proof (cases "type = TLVPacketTypeTransmissionControl")
    case True
    then show ?thesis using assms type m
      by (auto simp: tlv_Feed_def media_key_def current_key_def rbind_eq_Inr_iff split: option.splits)
  next
    case False
    then show ?thesis using assms type m
      by (auto simp: tlv_Feed_def Let_def media_key_def current_key_def rbind_eq_Inr_iff
          split: option.splits prod.splits if_splits dest!: feed_messages_current)
  qed
qed

lemma assets_of_cong: "map_of a = map_of b \<Longrightarrow> assets_of a = assets_of b"
  by (simp add: assets_of_def [abs_def])

lemma observed_size: "observed sigs t \<Longrightarrow> length (tt_mpts t) = card (fst ` set (latest_mpts sigs))"
  using distinct_card [of "map fst (tt_mpts t)"] dom_map_of_conv_image_fst [of "tt_mpts t"] dom_map_of_conv_image_fst [of "latest_mpts sigs"]
  by (simp add: observed_def)

lemma listed_by: "k \<in> assets_of mpts s \<Longrightarrow> s \<in> fst ` set mpts"
  by (auto simp: assets_of_def dest!: map_of_SomeD split: option.splits intro: rev_image_eqI)

lemma filter_Packet_observed:
  assumes "observed sigs t"
  shows "filter_Packet t f p =
    (if missing_service (latest_plts sigs) (sf_serviceID f) then (Inl ErrServiceNotFound, f)
     else if foreign (latest_mpts sigs) (current_key t) (sf_serviceID f) then (Inr None, f\<lparr>sf_removing := True\<rparr>)
     else (Inr (Some p), f))"
proof -
  have assets: "assets_of (tt_mpts t) = assets_of (latest_mpts sigs)" using assms by (intro assets_of_cong) (simp add: observed_def)
  have owners: "owners_of (tt_owners t) k = {s. k \<in> assets_of (latest_mpts sigs) s}" for k
    using assms by (simp add: observed_def assets)
  have plt: "missing_service (latest_plts sigs) s \<longleftrightarrow> tt_pltSeen t \<and> s \<notin> tt_pltServices t" for s
    using assms by (auto simp: observed_def missing_service_def split: list.splits)
  show ?thesis unfolding filter_Packet_def plt
    by (auto simp: Let_def owners foreign_def current_key_def observed_size [OF assms] dest: listed_by)
qed

text \<open>
  C10. Extracting a service from a TLV stream removes exactly what belongs to other services. After
  any packets a TLV reader delivers, \<open>Feed\<close> takes the next one without panicking, and the filter of a
  service then fails if the last PLT among the signals returned so far does not list the service,
  drops the packet if it is a media packet of an asset that the latest MPT of some service lists and
  the service's own does not (and MPTs of two services or more have been seen), and passes it on
  unchanged otherwise.
\<close>

theorem service_filter_exact:
  assumes "\<forall>q\<in>set (ps @ [p]). 4 \<le> length q"
  shows "\<exists>sigs t out t'. tlv_feed_all ps newTransport = Inr (sigs, t) \<and> tlv_Feed t p = Inr (out, t') \<and>
    (\<forall>f. filter_Packet t' f p =
      (if missing_service (latest_plts (sigs @ out)) (sf_serviceID f) then (Inl ErrServiceNotFound, f)
       else if foreign (latest_mpts (sigs @ out)) (media_key (tt_flows t) p) (sf_serviceID f) then (Inr None, f\<lparr>sf_removing := True\<rparr>)
       else (Inr (Some p), f)))"
proof -
  obtain sigs t where t: "tlv_feed_all ps newTransport = Inr (sigs, t)" "observed sigs t"
    using tlv_feed_all_step [OF observed_new, of ps] assms by auto
  obtain out t' where t': "tlv_Feed t p = Inr (out, t')" "observed (sigs @ out) t'"
    using tlv_Feed_step [OF t(2), of p] assms by auto
  show ?thesis using t(1) t' filter_Packet_observed [OF t'(2)] tlv_Feed_current [OF t'(1)] by auto
qed

text \<open>One packet with the MPTs of services 1 and 2, whose assets have packet ids 256 and 512 of the same
  flow, and a media packet of the first.\<close>

definition example_mpts :: bytes where
  "example_mpts = [127, 1, 0, 108, 69, 0, 0, 108, 0, 0, 0, 0, 1, 17, 0, 0, 10, 0, 0, 1, 239, 0, 0, 1, 3, 232, 7, 208, 0, 88, 0, 0, 0, 2, 0, 0, 0, 0, 0, 0, 0, 0, 0, 1, 0, 0, 0, 0, 0, 0, 0, 0, 59, 0, 32, 1, 0, 25, 0, 2, 0, 1, 0, 0, 1, 0, 0, 0, 0, 0, 1, 65, 104, 101, 118, 49, 0, 1, 0, 1, 0, 0, 0, 32, 1, 0, 25, 0, 2, 0, 2, 0, 0, 1, 0, 0, 0, 0, 0, 1, 65, 104, 101, 118, 49, 0, 1, 0, 2, 0, 0, 0]"

definition example_media :: bytes where
  "example_media = [127, 1, 0, 43, 69, 0, 0, 43, 0, 0, 0, 0, 1, 17, 0, 0, 10, 0, 0, 1, 239, 0, 0, 1, 3, 232, 7, 208, 0, 23, 0, 0, 0, 0, 1, 0, 0, 0, 0, 0, 0, 0, 0, 2, 1, 2, 3]"

theorem service_filter_exact_witness:
  "4 \<le> length example_mpts \<and> 4 \<le> length example_media \<and>
   (\<exists>sigs t out t'. tlv_feed_all [example_mpts] newTransport = Inr (sigs, t) \<and> tlv_Feed t example_media = Inr (out, t') \<and>
      filter_Packet t' (tlv_NewFilter 1) example_media = (Inr (Some example_media), tlv_NewFilter 1) \<and>
      filter_Packet t' (tlv_NewFilter 2) example_media = (Inr None, (tlv_NewFilter 2)\<lparr>sf_removing := True\<rparr>))"
proof -
  have len: "\<forall>q\<in>set ([example_mpts] @ [example_media]). 4 \<le> length q" by code_simp
  obtain sigs t out t' where 1: "tlv_feed_all [example_mpts] newTransport = Inr (sigs, t)" "tlv_Feed t example_media = Inr (out, t')"
    and 2: "\<And>f. filter_Packet t' f example_media =
      (if missing_service (latest_plts (sigs @ out)) (sf_serviceID f) then (Inl ErrServiceNotFound, f)
       else if foreign (latest_mpts (sigs @ out)) (media_key (tt_flows t) example_media) (sf_serviceID f) then (Inr None, f\<lparr>sf_removing := True\<rparr>)
       else (Inr (Some example_media), f))"
    using service_filter_exact [OF len] by blast
  have "map_sum id (\<lambda>(sigs, t). case tlv_Feed t example_media of Inr (out, _) \<Rightarrow>
       (latest_plts (sigs @ out),
        foreign (latest_mpts (sigs @ out)) (media_key (tt_flows t) example_media) 1,
        foreign (latest_mpts (sigs @ out)) (media_key (tt_flows t) example_media) 2)) (tlv_feed_all [example_mpts] newTransport) = Inr ([], False, True)"
    by code_simp
  then show ?thesis using len 1 2 by (simp add: missing_service_def tlv_NewFilter_def)
qed

subsection \<open>Loss detection\<close>

definition packet_context :: "bytes \<Rightarrow> uint16" where
  "packet_context p = push_bit 4 (ucast (p ! 4)) OR ucast (drop_bit 4 (p ! 5))"

definition packet_sequence :: "bytes \<Rightarrow> byte" where
  "packet_sequence p = p ! 5 AND 0x0f"

definition counted :: "bytes \<Rightarrow> bool" where
  "counted p \<longleftrightarrow> 6 \<le> length p \<and> p ! 1 = TLVPacketTypeCompressedIP"

lemma tlv_Data_eq: "4 \<le> length p \<Longrightarrow> tlv_Data p = Inr (drop 4 p)"
  by (simp add: tlv_Data_def gslice_def)

lemma seq_Observe_counted:
  assumes "counted p"
  shows "seq_Observe False seen p =
    Inr (case seen (packet_context p) of
           None \<Rightarrow> None
         | Some l \<Rightarrow> if packet_sequence p = (l + 1) AND 0x0f then None
             else Some \<lparr>dr_context = packet_context p, dr_Expected = (l + 1) AND 0x0f, dr_Actual = packet_sequence p\<rparr>,
         seen(packet_context p \<mapsto> packet_sequence p))"
proof -
  have "4 \<le> length p" "tlv_Type p = (Inr TLVPacketTypeCompressedIP :: unit fault + byte)" "(drop 4 p) ! 0 = p ! 4" "(drop 4 p) ! 1 = p ! 5"
    using assms by (simp_all add: counted_def tlv_Type_def)
  then show ?thesis using assms
    by (auto simp: seq_Observe_def counted_def tlv_Data_eq packet_context_def packet_sequence_def Let_def split: option.split)
qed

lemma seq_Observe_uncounted: "\<not> counted p \<Longrightarrow> seq_Observe False seen p = Inr (None, seen)"
  by (auto simp: seq_Observe_def counted_def tlv_Type_def)

lemma unat_low_nibble: "unat (w AND 0x0f :: byte) = unat w mod 16"
proof -
  have "(w AND 0x0f :: byte) = take_bit 4 w" by (simp add: take_bit_eq_mask mask_eq_exp_minus_1)
  moreover have "take_bit 4 (unat w) = unat w mod 16" by (simp add: take_bit_eq_mod)
  ultimately show ?thesis by (metis unsigned_take_bit_eq)
qed

lemma low_nibble_count: "unat (of_nat c AND 0x0f :: byte) = c mod 16"
  unfolding unat_low_nibble by (simp add: unat_of_nat mod_mod_cancel)

lemma low_nibble_succ: "((of_nat c AND 0x0f) + 1) AND 0x0f = (of_nat (Suc c) AND 0x0f :: byte)"
proof (rule unsigned_word_eqI)
  have "unat ((of_nat c AND 0x0f) + 1 :: byte) = (c mod 16 + 1) mod 256"
    by (simp only: unat_word_ariths low_nibble_count) simp
  then show "unat (((of_nat c AND 0x0f) + 1) AND 0x0f :: byte) = unat (of_nat (Suc c) AND 0x0f :: byte)"
    by (simp only: unat_low_nibble [of "_ + _"] low_nibble_count) (simp add: mod_mod_cancel mod_Suc_eq)
qed

lemma low_nibble_eq: "(of_nat c AND 0x0f :: byte) = of_nat c' AND 0x0f \<longleftrightarrow> c mod 16 = c' mod 16"
  by (metis low_nibble_count unsigned_word_eqI)

text \<open>Losses between two packets of a context are reported unless a multiple of 16 was lost, and
  nothing is reported when none was; packets of other contexts in between do not matter.\<close>

fun observe_run :: "(uint16 \<rightharpoonup> byte) \<Rightarrow> bytes list \<Rightarrow> unit fault + (uint16 \<rightharpoonup> byte)" where
  "observe_run seen [] = Inr seen"
| "observe_run seen (p # ps) = rbind (seq_Observe False seen p) (\<lambda>(_, seen). observe_run seen ps)"

lemma observe_run_other:
  "(\<forall>q\<in>set ps. counted q \<longrightarrow> packet_context q \<noteq> cid) \<Longrightarrow> \<exists>seen'. observe_run seen ps = Inr seen' \<and> seen' cid = seen cid"
proof (induction ps arbitrary: seen)
  case (Cons q ps)
  let ?seen = "seen(packet_context q \<mapsto> packet_sequence q)"
  have rest: "\<forall>q\<in>set ps. counted q \<longrightarrow> packet_context q \<noteq> cid" using Cons.prems by simp
  show ?case
  proof (cases "counted q")
    case True
    then have "?seen cid = seen cid" using Cons.prems by auto
    moreover obtain seen' where "observe_run ?seen ps = Inr seen'" "seen' cid = ?seen cid" using Cons.IH [OF rest, of ?seen] by blast
    ultimately show ?thesis using True by (simp add: seq_Observe_counted del: fun_upd_apply)
  qed (use Cons in \<open>simp add: seq_Observe_uncounted\<close>)
qed simp

lemma losses_detected:
  assumes p: "counted p" "packet_sequence p = of_nat c AND 0x0f" and q: "counted q" "packet_sequence q = of_nat c' AND 0x0f"
    and ctx: "packet_context q = packet_context p" and "c < c'"
    and other: "\<forall>r\<in>set ps. counted r \<longrightarrow> packet_context r \<noteq> packet_context p"
  shows "\<exists>seen' report seen''. observe_run seen (p # ps) = Inr seen' \<and> seq_Observe False seen' q = Inr (report, seen'') \<and>
    (report = None \<longleftrightarrow> (c' - c - 1) mod 16 = 0)"
proof -
  define seen1 where "seen1 = seen(packet_context p \<mapsto> packet_sequence p)"
  obtain seen' where "observe_run seen1 ps = Inr seen'" "seen' (packet_context p) = seen1 (packet_context p)"
    using observe_run_other [OF other] by blast
  then have s: "observe_run seen (p # ps) = Inr seen'" "seen' (packet_context q) = Some (of_nat c AND 0x0f)"
    using p ctx by (simp_all add: seq_Observe_counted seen1_def)
  have "of_nat c' AND 0x0f = (of_nat (Suc c) AND 0x0f :: byte) \<longleftrightarrow> (c' - c - 1) mod 16 = 0"
    unfolding low_nibble_eq using mod_eq_dvd_iff_nat [of "Suc c" c' 16] \<open>c < c'\<close> by (simp add: dvd_eq_mod_eq_0)
  then show ?thesis using s by (simp add: seq_Observe_counted [OF q(1)] q(2) low_nibble_succ del: of_nat_Suc)
qed

end
