(* ===== verification/Spec2Isabelle.thy ===== *)
theory Spec2Isabelle
  imports PacketReader TableCodec Tsmf DemuxCorrect FanoutCorrect JobReach ScheduleRun TunerReach TlvTransport
begin

text \<open>
  Mahiron is a tuner server for Japanese digital television.
\<close>



end
